(* ===== verification/Prelude.thy ===== *)
theory Prelude
  imports Main "HOL-Library.Word"
begin

unbundle bit_operations_syntax

text \<open>
  Shared vocabulary of the development: machine integers of the C code, the outcome of a C
  function (a returned value, a returned error, or a fault that C does not define or that ends
  the app), the error-forwarding macros of \<^verbatim>\<open>src/src/error_macros.h\<close> as combinators on outcomes, a
  small calculus for "never faults, and every returned value satisfies P", and generic facts on
  lists.
\<close>

section \<open>Machine integers\<close>

type_synonym u8 = "8 word"
type_synonym u16 = "16 word"
type_synonym u32 = "32 word"
type_synonym u64 = "64 word"

lemma unat_bounds:
  "unat (a :: u8) < 256" "unat (b :: u16) < 65536" "unat (c :: u32) < 4294967296"
  "unat (d :: u64) < 18446744073709551616"
  using unsigned_less [of a, where ?'a = nat] unsigned_less [of b, where ?'a = nat]
    unsigned_less [of c, where ?'a = nat] unsigned_less [of d, where ?'a = nat]
  by simp_all

section \<open>Outcomes of C functions\<close>

text \<open>
  A fault is what no caller can observe as a return value: a failed \<^verbatim>\<open>LEDGER_ASSERT\<close>, which
  exits the app, or a memory access that C leaves undefined.
\<close>

datatype fault = Null_dereference | Out_of_bounds | Assertion_failed | Inactive_union_member

datatype ('e, 'a) result = Ok 'a | Err 'e | Fault fault

text \<open>
  \<open>andthen\<close> is \<^verbatim>\<open>RETURN_ON_ERROR(expression)\<close> followed by the rest of the function: an error is
  forwarded unchanged. \<open>or_error\<close> replaces the received error by a custom one, as the optional
  second macro argument does. \<open>check\<close> is the macro on a condition.
\<close>

definition andthen :: "('e, 'a) result \<Rightarrow> ('a \<Rightarrow> ('e, 'b) result) \<Rightarrow> ('e, 'b) result" where
  "andthen r k = (case r of Ok x \<Rightarrow> k x | Err e \<Rightarrow> Err e | Fault f \<Rightarrow> Fault f)"

definition or_error :: "('e, 'a) result \<Rightarrow> 'f \<Rightarrow> ('f, 'a) result" where
  "or_error r e = (case r of Ok x \<Rightarrow> Ok x | Err _ \<Rightarrow> Err e | Fault f \<Rightarrow> Fault f)"

definition check :: "bool \<Rightarrow> 'e \<Rightarrow> ('e, unit) result" where
  "check b e = (if b then Err e else Ok ())"

definition ledger_assert :: "bool \<Rightarrow> ('e, unit) result" where
  "ledger_assert b = (if b then Ok () else Fault Assertion_failed)"

lemma andthen_simps [simp]:
  "andthen (Ok x) k = k x" "andthen (Err e) k = Err e" "andthen (Fault f) k = Fault f"
  by (simp_all add: andthen_def)

lemma or_error_simps [simp]:
  "or_error (Ok x) e = Ok x" "or_error (Err d) e = Err e" "or_error (Fault f) e = Fault f"
  by (simp_all add: or_error_def)

lemma check_simps [simp]: "check True e = Err e" "check False e = Ok ()"
  by (simp_all add: check_def)

lemma ledger_assert_simps [simp]:
  "ledger_assert True = Ok ()" "ledger_assert False = Fault Assertion_failed"
  by (simp_all add: ledger_assert_def)

lemma andthen_cong [fundef_cong]:
  "r = r' \<Longrightarrow> (\<And>x. r' = Ok x \<Longrightarrow> k x = k' x) \<Longrightarrow> andthen r k = andthen r' k'"
  by (cases r') simp_all

lemma andthen_assoc: "andthen (andthen r f) g = andthen r (\<lambda>x. andthen (f x) g)"
  by (cases r) simp_all

lemma or_error_andthen: "or_error (andthen r k) e = andthen (or_error r e) (\<lambda>x. or_error (k x) e)"
  by (cases r) simp_all

lemma or_error_or_error: "or_error (or_error r d) e = or_error r e"
  by (cases r) simp_all

lemma or_error_check: "or_error (check b d) e = check b e"
  by (simp add: check_def)

lemma or_error_case: "or_error (case p of (a, b) \<Rightarrow> f a b) e = (case p of (a, b) \<Rightarrow> or_error (f a b) e)"
  by (cases p) simp

lemma andthen_case: "andthen (case p of (a, b) \<Rightarrow> f a b) k = (case p of (a, b) \<Rightarrow> andthen (f a b) k)"
  by (cases p) simp

text \<open>Flattening a function called with a custom error into the steps of its body.\<close>

lemmas flatten_simps =
  andthen_assoc or_error_andthen or_error_or_error or_error_check or_error_case andthen_case
  or_error_simps(1) andthen_simps(1) prod.case

lemma andthen_eq_Ok: "andthen r k = Ok y \<longleftrightarrow> (\<exists>x. r = Ok x \<and> k x = Ok y)"
  by (cases r) simp_all

lemma or_error_eq_Ok [simp]: "or_error r e = Ok y \<longleftrightarrow> r = Ok y"
  by (cases r) simp_all

lemma check_eq_Ok [simp]: "check b e = Ok u \<longleftrightarrow> \<not> b"
  by (simp add: check_def)

lemma ledger_assert_eq_Ok [simp]: "ledger_assert b = Ok u \<longleftrightarrow> b"
  by (simp add: ledger_assert_def)

lemma andthen_eq_Fault: "andthen r k = Fault f \<longleftrightarrow> r = Fault f \<or> (\<exists>x. r = Ok x \<and> k x = Fault f)"
  by (cases r) simp_all

lemma or_error_eq_Fault [simp]: "or_error r e = Fault f \<longleftrightarrow> r = Fault f"
  by (cases r) simp_all

lemma check_not_Fault [simp]: "check b e \<noteq> Fault f"
  by (simp add: check_def)

lemmas Ok_simps = andthen_eq_Ok or_error_eq_Ok check_eq_Ok ledger_assert_eq_Ok

section \<open>Never faults, and every returned value satisfies P\<close>

text \<open>
  \<open>delivers P r\<close> is the weakest precondition of an outcome: no fault, and \<open>P\<close> of the value if one
  is returned. It distributes over the combinators by simplification; each operation of the model
  contributes one introduction rule to \<open>delivers_intros\<close> that hands on what its result satisfies.
\<close>

definition delivers :: "('a \<Rightarrow> bool) \<Rightarrow> ('e, 'a) result \<Rightarrow> bool" where
  "delivers P r = (case r of Ok x \<Rightarrow> P x | Err _ \<Rightarrow> True | Fault _ \<Rightarrow> False)"

named_theorems delivers_intros \<open>rules that establish delivers for one operation\<close>

lemma delivers_simps [simp]:
  "delivers P (Ok x) = P x" "delivers P (Err e)" "\<not> delivers P (Fault f)"
  by (simp_all add: delivers_def)

lemma delivers_andthen [simp]: "delivers P (andthen r k) = delivers (\<lambda>x. delivers P (k x)) r"
  by (cases r) simp_all

lemma delivers_or_error [simp]: "delivers P (or_error r e) = delivers P r"
  by (cases r) simp_all

lemma delivers_check [simp]: "delivers P (check b e) = (\<not> b \<longrightarrow> P ())"
  by (simp add: check_def)

lemma delivers_ledger_assert [simp]: "delivers P (ledger_assert b) = (b \<and> P ())"
  by (simp add: ledger_assert_def)

lemma delivers_if: "delivers P (if b then r else s) = (if b then delivers P r else delivers P s)"
  by simp

lemma delivers_mono: "delivers P r \<Longrightarrow> (\<And>x. P x \<Longrightarrow> Q x) \<Longrightarrow> delivers Q r"
  by (cases r) simp_all

lemma delivers_OkI: "(\<And>f. r \<noteq> Fault f) \<Longrightarrow> (\<And>x. r = Ok x \<Longrightarrow> P x) \<Longrightarrow> delivers P r"
  by (cases r) auto

lemma deliversD: "delivers P r \<Longrightarrow> r = Ok x \<Longrightarrow> P x"
  by simp

lemma delivers_no_fault: "delivers P r \<Longrightarrow> r \<noteq> Fault f"
  by auto

section \<open>Lists\<close>

lemma drop_overwritten: "length xs \<le> n \<Longrightarrow> drop n (xs @ drop (length xs) ys) = drop n ys"
  by simp

end
