(* ===== verification/Constants.thy ===== *)
theory Constants
  imports Prelude
begin

text \<open>
  \<^verbatim>\<open>src/src/constants.h\<close>, the length constants of \<^verbatim>\<open>src/src/nimiq_utils.h\<close> and
  \<^verbatim>\<open>src/src/error_macros.c\<close>. Enum types whose variables only ever hold their constants are
  datatypes; enum types that the code reads directly from a request byte
  (account types, staking data types, hash algorithms, transaction version) can hold any byte, so
  their constants are \<open>u8\<close> values. Lengths of strings include the terminator, as in the code.
\<close>

section \<open>Lengths\<close>

definition MAX_SAFE_LUNA_AMOUNT :: u64 where
  "MAX_SAFE_LUNA_AMOUNT = 9007199254740991"

text \<open>\<open>sizeof\<close> of a string literal: its characters and the terminator.\<close>

definition sizeof :: "string \<Rightarrow> nat" where
  "sizeof s = length s + 1"

definition STRING_LENGTH_WITH_SUFFIX :: "nat \<Rightarrow> string \<Rightarrow> nat" where
  "STRING_LENGTH_WITH_SUFFIX length_a suffix = length_a - 1 + sizeof suffix"

definition STRING_LENGTH_YES_NO :: nat where
  "STRING_LENGTH_YES_NO = max (sizeof ''Yes'') (sizeof ''No'')"

definition STRING_LENGTH_UINT8 :: nat where
  "STRING_LENGTH_UINT8 = sizeof ''255''"

definition STRING_LENGTH_UINT32 :: nat where
  "STRING_LENGTH_UINT32 = sizeof ''4294967295''"

definition STRING_LENGTH_NIM_AMOUNT :: nat where
  "STRING_LENGTH_NIM_AMOUNT = sizeof ''90071992547.40991''"

definition STRING_LENGTH_NIM_AMOUNT_WITH_TICKER :: nat where
  "STRING_LENGTH_NIM_AMOUNT_WITH_TICKER = STRING_LENGTH_WITH_SUFFIX STRING_LENGTH_NIM_AMOUNT '' NIM''"

definition STRING_LENGTH_USER_FRIENDLY_ADDRESS :: nat where
  "STRING_LENGTH_USER_FRIENDLY_ADDRESS = sizeof ''NQ07 0000 0000 0000 0000 0000 0000 0000 0000''"

definition MAX_BIP32_PATH_LENGTH :: nat where
  "MAX_BIP32_PATH_LENGTH = 10"

definition CASHLINK_MAGIC_NUMBER :: "u8 list" where
  "CASHLINK_MAGIC_NUMBER = [0x00, 0x82, 0x80, 0x92, 0x87]"

definition CASHLINK_MAGIC_NUMBER_LENGTH :: u16 where
  "CASHLINK_MAGIC_NUMBER_LENGTH = 5"

definition LENGTH_NORMAL_TX_DATA_MAX :: u16 where
  "LENGTH_NORMAL_TX_DATA_MAX = 64"

definition STRING_LENGTH_NORMAL_TX_DATA_MAX :: nat where
  "STRING_LENGTH_NORMAL_TX_DATA_MAX = unat LENGTH_NORMAL_TX_DATA_MAX * 2 + 1"

definition HTLC_TIMEOUT_SOON_THRESHOLD :: u32 where
  "HTLC_TIMEOUT_SOON_THRESHOLD = 60 * 24 * 31 * 2"

definition MAX_RAW_TX :: nat where
  "MAX_RAW_TX = 188"

definition MAX_PRINTABLE_MESSAGE_LENGTH :: nat where
  "MAX_PRINTABLE_MESSAGE_LENGTH = 160"

lemmas length_defs =
  sizeof_def STRING_LENGTH_WITH_SUFFIX_def STRING_LENGTH_YES_NO_def STRING_LENGTH_UINT8_def
  STRING_LENGTH_UINT32_def STRING_LENGTH_NIM_AMOUNT_def STRING_LENGTH_NIM_AMOUNT_WITH_TICKER_def
  STRING_LENGTH_USER_FRIENDLY_ADDRESS_def STRING_LENGTH_NORMAL_TX_DATA_MAX_def
  LENGTH_NORMAL_TX_DATA_MAX_def

section \<open>Flags\<close>

definition TX_FLAG_CONTRACT_CREATION :: u8 where
  "TX_FLAG_CONTRACT_CREATION = push_bit 0 1"

definition TX_FLAG_SIGNALING :: u8 where
  "TX_FLAG_SIGNALING = push_bit 1 1"

definition MESSAGE_FLAG_PREFER_DISPLAY_TYPE_HEX :: u8 where
  "MESSAGE_FLAG_PREFER_DISPLAY_TYPE_HEX = push_bit 0 1"

definition MESSAGE_FLAG_PREFER_DISPLAY_TYPE_HASH :: u8 where
  "MESSAGE_FLAG_PREFER_DISPLAY_TYPE_HASH = push_bit 1 1"

lemma flag_values:
  "TX_FLAG_CONTRACT_CREATION = 1" "TX_FLAG_SIGNALING = 2"
  "MESSAGE_FLAG_PREFER_DISPLAY_TYPE_HEX = 1" "MESSAGE_FLAG_PREFER_DISPLAY_TYPE_HASH = 2"
  by (simp_all add: TX_FLAG_CONTRACT_CREATION_def TX_FLAG_SIGNALING_def
      MESSAGE_FLAG_PREFER_DISPLAY_TYPE_HEX_def MESSAGE_FLAG_PREFER_DISPLAY_TYPE_HASH_def)

section \<open>Enums read from request bytes\<close>

type_synonym transaction_version_t = u8

definition TRANSACTION_VERSION_LEGACY :: transaction_version_t where
  "TRANSACTION_VERSION_LEGACY = 0"

definition TRANSACTION_VERSION_ALBATROSS :: transaction_version_t where
  "TRANSACTION_VERSION_ALBATROSS = 1"

type_synonym account_type_t = u8

definition ACCOUNT_TYPE_BASIC :: account_type_t where "ACCOUNT_TYPE_BASIC = 0"
definition ACCOUNT_TYPE_VESTING :: account_type_t where "ACCOUNT_TYPE_VESTING = 1"
definition ACCOUNT_TYPE_HTLC :: account_type_t where "ACCOUNT_TYPE_HTLC = 2"
definition ACCOUNT_TYPE_STAKING :: account_type_t where "ACCOUNT_TYPE_STAKING = 3"

type_synonym hash_algorithm_t = u8

definition HASH_ALGORITHM_BLAKE2B :: hash_algorithm_t where "HASH_ALGORITHM_BLAKE2B = 1"
definition HASH_ALGORITHM_ARGON2D :: hash_algorithm_t where "HASH_ALGORITHM_ARGON2D = 2"
definition HASH_ALGORITHM_SHA256 :: hash_algorithm_t where "HASH_ALGORITHM_SHA256 = 3"
definition HASH_ALGORITHM_SHA512 :: hash_algorithm_t where "HASH_ALGORITHM_SHA512 = 4"

type_synonym staking_incoming_data_type_t = u8

definition CREATE_VALIDATOR :: staking_incoming_data_type_t where "CREATE_VALIDATOR = 0"
definition UPDATE_VALIDATOR :: staking_incoming_data_type_t where "UPDATE_VALIDATOR = 1"
definition DEACTIVATE_VALIDATOR :: staking_incoming_data_type_t where "DEACTIVATE_VALIDATOR = 2"
definition REACTIVATE_VALIDATOR :: staking_incoming_data_type_t where "REACTIVATE_VALIDATOR = 3"
definition RETIRE_VALIDATOR :: staking_incoming_data_type_t where "RETIRE_VALIDATOR = 4"
definition CREATE_STAKER :: staking_incoming_data_type_t where "CREATE_STAKER = 5"
definition ADD_STAKE :: staking_incoming_data_type_t where "ADD_STAKE = 6"
definition UPDATE_STAKER :: staking_incoming_data_type_t where "UPDATE_STAKER = 7"
definition SET_ACTIVE_STAKE :: staking_incoming_data_type_t where "SET_ACTIVE_STAKE = 8"
definition RETIRE_STAKE :: staking_incoming_data_type_t where "RETIRE_STAKE = 9"

type_synonym staking_outgoing_data_type_t = u8

definition DELETE_VALIDATOR :: staking_outgoing_data_type_t where "DELETE_VALIDATOR = 0"
definition REMOVE_STAKE :: staking_outgoing_data_type_t where "REMOVE_STAKE = 1"

lemmas version_defs = TRANSACTION_VERSION_LEGACY_def TRANSACTION_VERSION_ALBATROSS_def

lemmas account_type_defs =
  ACCOUNT_TYPE_BASIC_def ACCOUNT_TYPE_VESTING_def ACCOUNT_TYPE_HTLC_def ACCOUNT_TYPE_STAKING_def

lemmas hash_algorithm_defs =
  HASH_ALGORITHM_BLAKE2B_def HASH_ALGORITHM_ARGON2D_def HASH_ALGORITHM_SHA256_def
  HASH_ALGORITHM_SHA512_def

lemmas staking_type_defs =
  CREATE_VALIDATOR_def UPDATE_VALIDATOR_def DEACTIVATE_VALIDATOR_def REACTIVATE_VALIDATOR_def
  RETIRE_VALIDATOR_def CREATE_STAKER_def ADD_STAKE_def UPDATE_STAKER_def SET_ACTIVE_STAKE_def
  RETIRE_STAKE_def DELETE_VALIDATOR_def REMOVE_STAKE_def

section \<open>Enums the app assigns itself\<close>

datatype transaction_type_t =
    TRANSACTION_TYPE_NORMAL
  | TRANSACTION_TYPE_VESTING_CREATION
  | TRANSACTION_TYPE_HTLC_CREATION
  | TRANSACTION_TYPE_STAKING_INCOMING
  | TRANSACTION_TYPE_STAKING_OUTGOING

datatype transaction_label_type_t =
    TRANSACTION_LABEL_TYPE_REGULAR_TRANSACTION
  | TRANSACTION_LABEL_TYPE_CASHLINK
  | TRANSACTION_LABEL_TYPE_VESTING_CREATION
  | TRANSACTION_LABEL_TYPE_HTLC_CREATION
  | TRANSACTION_LABEL_TYPE_STAKING_CREATE_STAKER
  | TRANSACTION_LABEL_TYPE_STAKING_ADD_STAKE
  | TRANSACTION_LABEL_TYPE_STAKING_UPDATE_STAKER
  | TRANSACTION_LABEL_TYPE_STAKING_SET_ACTIVE_STAKE
  | TRANSACTION_LABEL_TYPE_STAKING_RETIRE_STAKE
  | TRANSACTION_LABEL_TYPE_STAKING_REMOVE_STAKE

datatype message_display_type_t =
    MESSAGE_DISPLAY_TYPE_ASCII
  | MESSAGE_DISPLAY_TYPE_HEX
  | MESSAGE_DISPLAY_TYPE_HASH

section \<open>Errors and status words\<close>

datatype error_t =
    ERROR_NONE
  | ERROR_TRUE
  | ERROR_UNEXPECTED
  | ERROR_READ
  | ERROR_INVALID_LENGTH
  | ERROR_INCORRECT_DATA
  | ERROR_NOT_SUPPORTED
  | ERROR_CRYPTOGRAPHY

datatype sw_t =
    SW_OK
  | SW_DENY
  | SW_INCORRECT_DATA
  | SW_NOT_SUPPORTED
  | SW_WRONG_P1P2
  | SW_WRONG_DATA_LENGTH
  | SW_INS_NOT_SUPPORTED
  | SW_CLA_NOT_SUPPORTED
  | SW_KEEP_ALIVE
  | SW_BAD_STATE
  | SW_CRYPTOGRAPHY_FAIL

fun sw_code :: "sw_t \<Rightarrow> u16" where
  "sw_code SW_OK = 0x9000"
| "sw_code SW_DENY = 0x6985"
| "sw_code SW_INCORRECT_DATA = 0x6A80"
| "sw_code SW_NOT_SUPPORTED = 0x6A82"
| "sw_code SW_WRONG_P1P2 = 0x6A86"
| "sw_code SW_WRONG_DATA_LENGTH = 0x6A87"
| "sw_code SW_INS_NOT_SUPPORTED = 0x6D00"
| "sw_code SW_CLA_NOT_SUPPORTED = 0x6E00"
| "sw_code SW_KEEP_ALIVE = 0x6E02"
| "sw_code SW_BAD_STATE = 0xB007"
| "sw_code SW_CRYPTOGRAPHY_FAIL = 0xB008"

lemma sw_code_inject: "sw_code s = sw_code t \<longleftrightarrow> s = t"
  by (cases s; cases t) simp_all

text \<open>
  \<^verbatim>\<open>error_to_sw\<close>: the default branch (\<^verbatim>\<open>ERROR_TRUE\<close>, \<^verbatim>\<open>ERROR_UNEXPECTED\<close>) exits the app in an
  assertion that always fails.
\<close>

fun error_to_sw :: "error_t \<Rightarrow> (sw_t, sw_t) result" where
  "error_to_sw ERROR_READ = Ok SW_WRONG_DATA_LENGTH"
| "error_to_sw ERROR_INVALID_LENGTH = Ok SW_WRONG_DATA_LENGTH"
| "error_to_sw ERROR_INCORRECT_DATA = Ok SW_INCORRECT_DATA"
| "error_to_sw ERROR_NOT_SUPPORTED = Ok SW_NOT_SUPPORTED"
| "error_to_sw ERROR_CRYPTOGRAPHY = Ok SW_CRYPTOGRAPHY_FAIL"
| "error_to_sw ERROR_NONE = Ok SW_OK"
| "error_to_sw e = andthen (ledger_assert False) (\<lambda>_. Ok SW_BAD_STATE)"

end
