(* ===== verification/Printing.thy ===== *)
theory Printing
  imports Constants
begin

text \<open>
  Printing: the \<^verbatim>\<open>snprintf\<close> conversions the code uses, \<^verbatim>\<open>print_hex\<close>, \<^verbatim>\<open>is_printable_ascii\<close> and
  \<^verbatim>\<open>parse_amount\<close> of \<^verbatim>\<open>src/src/nimiq_utils.c\<close>. Characters are HOL characters; a C string is
  the list of its characters before the terminator, a char array is the list of all its elements.
  The lemmas give the exact text each function prints, its length, and that the text determines
  the printed value.
\<close>

section \<open>Characters and arrays\<close>

definition NUL :: char where
  "NUL = CHR 0x00"

definition char_of_byte :: "u8 \<Rightarrow> char" where
  "char_of_byte b = char_of (unat b)"

definition c_string :: "string \<Rightarrow> string" where
  "c_string arr = takeWhile (\<lambda>c. c \<noteq> NUL) arr"

text \<open>Writing characters into an array at an index; outside the array it is a fault.\<close>

definition poke :: "nat \<Rightarrow> string \<Rightarrow> string \<Rightarrow> ('e, string) result" where
  "poke i cs arr =
     (if i + length cs \<le> length arr then Ok (take i arr @ cs @ drop (i + length cs) arr)
      else Fault Out_of_bounds)"

text \<open>\<^verbatim>\<open>snprintf\<close> into an array of \<open>n\<close> characters: at most \<open>n - 1\<close> of the text, and a terminator.\<close>

definition snprintf :: "nat \<Rightarrow> string \<Rightarrow> string" where
  "snprintf n text = take (n - 1) text"

definition snprintf_at :: "nat \<Rightarrow> nat \<Rightarrow> string \<Rightarrow> string \<Rightarrow> ('e, string) result" where
  "snprintf_at i n text arr = poke i (snprintf n text @ [NUL]) arr"

section \<open>Conversions\<close>

definition digit_char :: "nat \<Rightarrow> char" where
  "digit_char d = char_of (48 + d)"

text \<open>\<^verbatim>\<open>%u\<close> and, for non-negative values, \<^verbatim>\<open>%d\<close>.\<close>

fun dec :: "nat \<Rightarrow> string" where
  "dec n = (if n < 10 then [digit_char n] else dec (n div 10) @ [digit_char (n mod 10)])"

declare dec.simps [simp del]

text \<open>\<^verbatim>\<open>%02d\<close>, for non-negative values.\<close>

definition dec02 :: "nat \<Rightarrow> string" where
  "dec02 n = (if n < 10 then digit_char 0 # dec n else dec n)"

definition hex_char :: "nat \<Rightarrow> char" where
  "hex_char d = (if d < 10 then char_of (48 + d) else char_of (55 + d))"

text \<open>\<^verbatim>\<open>%02X\<close> of a byte.\<close>

definition hex02 :: "u8 \<Rightarrow> string" where
  "hex02 b = [hex_char (unat b div 16), hex_char (unat b mod 16)]"

section \<open>print_hex and is_printable_ascii\<close>

text \<open>
  \<^verbatim>\<open>data\<close> is the list of the \<^verbatim>\<open>data_length\<close> bytes at the C pointer. Note that for no data at all
  nothing is written to \<open>out\<close>, not even a terminator.
\<close>

fun print_hex_loop :: "nat \<Rightarrow> u8 list \<Rightarrow> string \<Rightarrow> (error_t, string) result" where
  "print_hex_loop i [] out = Ok out"
| "print_hex_loop i (b # data) out =
     andthen (snprintf_at (i * 2) 3 (hex02 b) out) (print_hex_loop (Suc i) data)"

definition print_hex :: "u8 list \<Rightarrow> string \<Rightarrow> nat \<Rightarrow> (error_t, string) result" where
  "print_hex data out out_length =
     andthen (check (out_length < length data * 2 + 1) ERROR_INVALID_LENGTH) (\<lambda>_.
     print_hex_loop 0 data out)"

fun is_printable_ascii :: "u8 list \<Rightarrow> bool" where
  "is_printable_ascii [] = True"
| "is_printable_ascii (b # data) = (if b < 32 \<or> b > 126 then False else is_printable_ascii data)"

section \<open>parse_amount\<close>

text \<open>
  The digit loop. \<open>buffer\<close> is the part of the C buffer written so far, so the index \<^verbatim>\<open>i\<close> at the
  loop head is its length; \<open>put\<close> is the write \<^verbatim>\<open>buffer[i] = c\<close>.
\<close>

definition put :: "string \<Rightarrow> char \<Rightarrow> (error_t, string) result" where
  "put buffer c =
     (if length buffer < STRING_LENGTH_NIM_AMOUNT then Ok (buffer @ [c]) else Fault Out_of_bounds)"

function amount_loop :: "u64 \<Rightarrow> string \<Rightarrow> (error_t, string) result" where
  "amount_loop dVal buffer =
     (if dVal > 0 \<or> length buffer < 7 then
        andthen (put buffer (if dVal > 0 then digit_char (unat (dVal mod 10)) else CHR ''0''))
          (\<lambda>buffer'.
        andthen (if length buffer = 4 then put buffer' CHR ''.'' else Ok buffer') (\<lambda>buffer''.
        andthen (ledger_assert (length buffer'' - 1 < STRING_LENGTH_NIM_AMOUNT)) (\<lambda>_.
        amount_loop (if dVal > 0 then dVal div 10 else dVal) buffer'')))
      else Ok buffer)"
  by pat_completeness auto
termination
proof (relation "measure (\<lambda>(d, b). unat d + (7 - length b))", goal_cases)
  case (2 dVal buffer buffer' buffer'' u)
  then have longer: "length buffer'' > length buffer"
    by (auto simp: put_def split: if_splits)
  show ?case
  proof (cases "dVal > 0")
    case True
    then have "unat (dVal div 10) < unat dVal"
      by (simp add: unat_div word_gt_0 unat_gt_0)
    with longer True show ?thesis by simp
  next
    case False
    with 2 longer show ?thesis by auto
  qed
qed simp

declare amount_loop.simps [simp del]

text \<open>The loop that strips trailing zeros, counting \<^verbatim>\<open>j\<close> down from the number of characters.\<close>

fun strip_zeros :: "string \<Rightarrow> nat \<Rightarrow> nat" where
  "strip_zeros out 0 = 0"
| "strip_zeros out (Suc j) = (if out ! j \<noteq> CHR ''0'' then Suc j else strip_zeros out j)"

definition parse_amount :: "u64 \<Rightarrow> string option \<Rightarrow> (error_t, string) result" where
  "parse_amount amount ticker =
     andthen (check (amount > MAX_SAFE_LUNA_AMOUNT) ERROR_INCORRECT_DATA) (\<lambda>_.
     andthen (amount_loop amount []) (\<lambda>buffer.
     let out = rev buffer;
         j = strip_zeros out (length out);
         j = (if j > 0 \<and> out ! (j - 1) = CHR ''.'' then j - 1 else j)
     in case ticker of
          Some t \<Rightarrow>
            andthen (check (j + 1 + length t + 1 > STRING_LENGTH_NIM_AMOUNT_WITH_TICKER)
              ERROR_INCORRECT_DATA) (\<lambda>_.
            Ok (take j out @ '' '' @ t))
        | None \<Rightarrow> Ok (take j out)))"

section \<open>Decimal numbers\<close>

definition dec_val :: "string \<Rightarrow> nat" where
  "dec_val s = foldl (\<lambda>n c. n * 10 + (of_char c - 48)) 0 s"

definition is_digit :: "char \<Rightarrow> bool" where
  "is_digit c = (48 \<le> (of_char c :: nat) \<and> (of_char c :: nat) \<le> 57)"

lemma of_char_digit_char [simp]: "d < 10 \<Longrightarrow> (of_char (digit_char d) :: nat) = 48 + d"
  by (simp add: digit_char_def)

lemma is_digit_digit_char [simp]: "d < 10 \<Longrightarrow> is_digit (digit_char d)"
  by (simp add: is_digit_def)

lemma digit_char_0 [simp]: "digit_char 0 = CHR ''0''"
  by (simp add: digit_char_def char_of_eq_iff)

lemma is_digit_not [simp]: "\<not> is_digit CHR ''.''" "\<not> is_digit NUL" "\<not> is_digit CHR '' ''"
  by (simp_all add: is_digit_def NUL_def)

lemma digit_char_inject: "d < 10 \<Longrightarrow> e < 10 \<Longrightarrow> digit_char d = digit_char e \<longleftrightarrow> d = e"
  by (metis of_char_digit_char add_left_cancel)

lemma dec_val_Nil [simp]: "dec_val [] = 0"
  by (simp add: dec_val_def)

lemma dec_val_snoc [simp]: "dec_val (s @ [c]) = dec_val s * 10 + (of_char c - 48)"
  by (simp add: dec_val_def)

lemma dec_val_append: "dec_val (s @ t) = dec_val s * 10 ^ length t + dec_val t"
proof (induction t rule: rev_induct)
  case (snoc c t)
  then show ?case by (simp add: append_assoc [symmetric] algebra_simps del: append_assoc)
qed simp

lemma dec_val_single [simp]: "dec_val [c] = of_char c - 48"
  using dec_val_snoc [of "[]" c] by simp

lemma dec_small: "n < 10 \<Longrightarrow> dec n = [digit_char n]"
  by (simp add: dec.simps [of n])

lemma dec_big: "10 \<le> n \<Longrightarrow> dec n = dec (n div 10) @ [digit_char (n mod 10)]"
  by (simp add: dec.simps [of n])

lemma dec_val_dec [simp]: "dec_val (dec n) = n"
proof (induction n rule: dec.induct)
  case (1 n)
  then show ?case by (cases "n < 10") (simp_all add: dec_small dec_big not_less)
qed

lemma dec_inject: "dec m = dec n \<longleftrightarrow> m = n"
  by (metis dec_val_dec)

lemma dec_nonempty [simp]: "dec n \<noteq> []"
  by (simp add: dec.simps [of n])

lemma dec_digits: "\<forall>c \<in> set (dec n). is_digit c"
proof (induction n rule: dec.induct)
  case (1 n)
  then show ?case by (cases "n < 10") (simp_all add: dec_small dec_big not_less)
qed

lemma length_dec: "n < 10 ^ k \<Longrightarrow> 0 < k \<Longrightarrow> length (dec n) \<le> k"
proof (induction k arbitrary: n)
  case (Suc k)
  show ?case
  proof (cases "n < 10")
    case False
    with Suc.prems have "0 < k" by (cases k) simp_all
    moreover have "n div 10 < 10 ^ k" using Suc.prems by (simp add: div_less_iff_less_mult mult.commute)
    ultimately show ?thesis using Suc.IH [of "n div 10"] False by (simp add: dec_big not_less)
  qed (simp add: dec_small)
qed simp

lemma length_dec_u8: "length (dec (unat (x :: u8))) \<le> 3"
  using unat_bounds(1) [of x] by (intro length_dec) simp_all

lemma length_dec_u32: "length (dec (unat (x :: u32))) \<le> 10"
  using unat_bounds(3) [of x] by (intro length_dec) simp_all

lemma c_string_no_NUL: "NUL \<notin> set s \<Longrightarrow> c_string (s @ NUL # t) = s"
  unfolding c_string_def by (subst takeWhile_append2) auto

section \<open>Hexadecimal\<close>

lemma of_char_hex_char: "d < 16 \<Longrightarrow> (of_char (hex_char d) :: nat) = (if d < 10 then 48 + d else 55 + d)"
  by (simp add: hex_char_def)

lemma hex_char_inject:
  assumes "d < 16" "e < 16"
  shows "hex_char d = hex_char e \<longleftrightarrow> d = e"
proof
  assume "hex_char d = hex_char e"
  then have "(of_char (hex_char d) :: nat) = of_char (hex_char e)" by (rule arg_cong)
  with assms show "d = e" by (simp add: of_char_hex_char split: if_splits)
qed simp

lemma hex02_inject: "hex02 a = hex02 b \<longleftrightarrow> a = b"
proof
  assume "hex02 a = hex02 b"
  moreover have "unat a < 256" "unat b < 256"
    by (rule unat_bounds)+
  ultimately have "unat a div 16 = unat b div 16" "unat a mod 16 = unat b mod 16"
    by (simp_all add: hex02_def hex_char_inject less_mult_imp_div_less)
  then have "unat a = unat b" by (metis div_mult_mod_eq)
  then show "a = b" by (simp add: word_unat_eq_iff)
qed simp

definition hex_string :: "u8 list \<Rightarrow> string" where
  "hex_string data = concat (map hex02 data)"

lemma length_hex02 [simp]: "length (hex02 b) = 2"
  by (simp add: hex02_def)

lemma length_hex_string [simp]: "length (hex_string data) = 2 * length data"
  by (induction data) (simp_all add: hex_string_def)

lemma hex_string_inject: "hex_string xs = hex_string ys \<longleftrightarrow> xs = ys"
proof (induction xs arbitrary: ys)
  case Nil
  then show ?case by (cases ys) (simp_all add: hex_string_def hex02_def)
next
  case (Cons x xs)
  then show ?case
    by (cases ys)
       (auto simp: hex_string_def hex02_inject append_eq_append_conv dest: arg_cong [where f = length])
qed

lemma hex_char_not_NUL: "d < 16 \<Longrightarrow> hex_char d \<noteq> NUL"
  using of_char_hex_char [of d] by (auto simp: NUL_def split: if_splits)

lemma hex_string_no_NUL: "NUL \<notin> set (hex_string data)"
proof -
  have "unat b div 16 < 16" for b :: u8
    using unat_bounds(1) [of b] by (simp add: less_mult_imp_div_less)
  then have "NUL \<notin> set (hex02 b)" for b
    using hex_char_not_NUL [of "unat b div 16"] hex_char_not_NUL [of "unat b mod 16"]
    by (auto simp: hex02_def)
  then show ?thesis by (auto simp: hex_string_def)
qed

lemma print_hex_loop_writes:
  assumes "data \<noteq> []" "2 * (i + length data) + 1 \<le> length out"
  shows "print_hex_loop i data out =
    Ok (take (2 * i) out @ hex_string data @ NUL # drop (2 * (i + length data) + 1) out)"
  using assms
proof (induction data arbitrary: i out)
  case (Cons b data)
  let ?out = "take (2 * i) out @ hex02 b @ NUL # drop (Suc (Suc (Suc (2 * i)))) out"
  have poke: "snprintf_at (i * 2) 3 (hex02 b) out = (Ok ?out :: (error_t, string) result)"
    using Cons.prems
    by (simp add: snprintf_at_def poke_def snprintf_def mult.commute hex02_def)
  show ?case
  proof (cases "data = []")
    case True
    with poke show ?thesis by (simp add: hex_string_def)
  next
    case False
    have len: "length ?out = length out" using Cons.prems by simp
    have "print_hex_loop (Suc i) data ?out =
        Ok (take (2 * Suc i) ?out @ hex_string data @ NUL # drop (2 * (Suc i + length data) + 1) ?out)"
      using Cons.prems len False by (intro Cons.IH) simp_all
    moreover have "take (2 * Suc i) ?out = take (2 * i) out @ hex02 b"
      using Cons.prems by (simp add: min_absorb2)
    moreover have "drop (2 * (Suc i + length data) + 1) ?out = drop (2 * (i + length (b # data)) + 1) out"
    proof -
      let ?pre = "take (2 * i) out @ hex02 b @ [NUL]"
      have pre: "length ?pre = 2 * i + 3" and out: "?out = ?pre @ drop (2 * i + 3) out"
        using Cons.prems by (simp_all add: numeral_3_eq_3)
      have dr: "drop n (?pre @ drop (2 * i + 3) out) = drop n out" if "2 * i + 3 \<le> n" for n
        using drop_overwritten [of ?pre n out] that pre by (simp only:)
      show ?thesis unfolding out by (subst dr) simp_all
    qed
    ultimately show ?thesis using poke by (simp add: hex_string_def)
  qed
qed simp

text \<open>
  What \<^verbatim>\<open>print_hex\<close> leaves in the array: for at least one byte the hex string of the data, for no
  bytes the old contents.
\<close>

lemma print_hex_result:
  assumes "length data * 2 + 1 \<le> out_length" "out_length \<le> length out"
  shows "print_hex data out out_length =
    Ok (if data = [] then out else hex_string data @ NUL # drop (2 * length data + 1) out)"
  using assms print_hex_loop_writes [of data 0 out]
  by (simp add: print_hex_def check_def mult.commute)

lemma c_string_print_hex:
  assumes "data \<noteq> []" "length data * 2 + 1 \<le> out_length" "out_length \<le> length out"
    and "print_hex data out out_length = Ok out'"
  shows "c_string out' = hex_string data"
  using assms by (simp add: print_hex_result) (auto intro: c_string_no_NUL [OF hex_string_no_NUL])

lemma delivers_print_hex [delivers_intros]:
  assumes "out_length \<le> length out"
    and "\<And>out'. length out' = length out \<Longrightarrow> length data * 2 + 1 \<le> out_length \<Longrightarrow>
      (data \<noteq> [] \<Longrightarrow> c_string out' = hex_string data) \<Longrightarrow> P out'"
  shows "delivers P (print_hex data out out_length)"
proof (cases "length data * 2 + 1 \<le> out_length")
  case True
  let ?r = "if data = [] then out else hex_string data @ NUL # drop (2 * length data + 1) out"
  have r: "print_hex data out out_length = Ok ?r"
    by (rule print_hex_result [OF True assms(1)])
  have "P ?r"
    using True assms(1) c_string_no_NUL [OF hex_string_no_NUL]
    by (intro assms(2)) auto
  with r show ?thesis by simp
next
  case False
  then show ?thesis by (simp add: print_hex_def check_def)
qed

section \<open>Printable ASCII\<close>

lemma is_printable_ascii_iff:
  "is_printable_ascii data \<longleftrightarrow> (\<forall>b \<in> set data. 32 \<le> unat b \<and> unat b \<le> 126)"
  by (induction data) (auto simp: word_less_nat_alt word_le_nat_alt not_less)

lemma char_of_byte_inject: "char_of_byte a = char_of_byte b \<longleftrightarrow> a = b"
proof
  assume "char_of_byte a = char_of_byte b"
  then have "(of_char (char_of_byte a) :: nat) = of_char (char_of_byte b)" by simp
  then show "a = b"
    using unat_bounds(1) [of a] unat_bounds(1) [of b]
    by (simp add: char_of_byte_def word_unat_eq_iff)
qed simp

lemma map_char_of_byte_inject: "map char_of_byte xs = map char_of_byte ys \<longleftrightarrow> xs = ys"
  by (rule inj_map_eq_map) (simp add: inj_def char_of_byte_inject)

lemma char_of_byte_NUL: "char_of_byte b = NUL \<longleftrightarrow> b = 0"
  using char_of_byte_inject [of b 0] by (simp add: char_of_byte_def NUL_def char_of_eq_iff)

lemma printable_no_NUL: "is_printable_ascii data \<Longrightarrow> NUL \<notin> set (map char_of_byte data)"
  by (auto simp: is_printable_ascii_iff char_of_byte_NUL [symmetric] dest!: sym [of NUL])
     (auto simp: char_of_byte_NUL)

section \<open>Amounts\<close>

text \<open>The text \<^verbatim>\<open>parse_amount\<close> prints for an amount of \<open>n\<close> luna, and the luna a text stands for.\<close>

definition strip :: "string \<Rightarrow> string" where
  "strip s = rev (dropWhile (\<lambda>c. c = CHR ''0'') (rev s))"

definition pad5 :: "nat \<Rightarrow> string" where
  "pad5 n = map (\<lambda>k. digit_char (n div 10 ^ k mod 10)) [4, 3, 2, 1, 0]"

definition amount_string :: "nat \<Rightarrow> string" where
  "amount_string n = dec (n div 100000) @
     (if strip (pad5 n) = [] then [] else CHR ''.'' # strip (pad5 n))"

definition luna_of :: "string \<Rightarrow> nat" where
  "luna_of s =
     (let whole = takeWhile (\<lambda>c. c \<noteq> CHR ''.'') s; frac = tl (dropWhile (\<lambda>c. c \<noteq> CHR ''.'') s)
      in dec_val whole * 100000 + dec_val frac * 10 ^ (5 - length frac))"

lemma dec_val_strip: "dec_val (strip s) * 10 ^ (length s - length (strip s)) = dec_val s"
  and length_strip: "length (strip s) \<le> length s"
proof -
  have "dec_val (strip s) * 10 ^ (length s - length (strip s)) = dec_val s \<and> length (strip s) \<le> length s"
  proof (induction s rule: rev_induct)
    case (snoc c s)
    then show ?case by (auto simp: strip_def Suc_diff_le)
  qed (simp add: strip_def)
  then show "dec_val (strip s) * 10 ^ (length s - length (strip s)) = dec_val s"
    and "length (strip s) \<le> length s" by simp_all
qed

lemma dec_val_pad5: "dec_val (pad5 n) = n mod 100000"
proof -
  have split: "m mod (10 * k) = m div 10 mod k * 10 + m mod 10" for m k :: nat
    by (simp add: mod_mult2_eq)
  have "dec_val (pad5 n) = ((((n div 10000 mod 10) * 10 + n div 1000 mod 10) * 10 +
      n div 100 mod 10) * 10 + n div 10 mod 10) * 10 + n mod 10"
    by (simp add: pad5_def dec_val_def)
  also have "\<dots> = n mod 100000"
    using split [of n 10000] split [of "n div 10" 1000] split [of "n div 100" 100]
      split [of "n div 1000" 10]
    by (simp add: div_mult2_eq [symmetric])
  finally show ?thesis .
qed

lemma length_pad5 [simp]: "length (pad5 n) = 5"
  by (simp add: pad5_def)

lemma no_dot_dec: "CHR ''.'' \<notin> set (dec n)"
  using dec_digits [of n] is_digit_not by auto

lemma luna_of_amount_string [simp]: "luna_of (amount_string n) = n"
proof -
  let ?f = "strip (pad5 n)"
  have tw: "takeWhile (\<lambda>c. c \<noteq> CHR ''.'') (dec m @ CHR ''.'' # s) = dec m"
    "dropWhile (\<lambda>c. c \<noteq> CHR ''.'') (dec m @ CHR ''.'' # s) = CHR ''.'' # s"
    "takeWhile (\<lambda>c. c \<noteq> CHR ''.'') (dec m) = dec m" "dropWhile (\<lambda>c. c \<noteq> CHR ''.'') (dec m) = []"
    for m s
    using no_dot_dec [of m] by (auto simp: takeWhile_append dropWhile_append)
  have frac: "dec_val ?f * 10 ^ (5 - length ?f) = n mod 100000"
    using dec_val_strip [of "pad5 n"] by (simp add: dec_val_pad5)
  show ?thesis
  proof (cases "?f = []")
    case True
    with frac have "n mod 100000 = 0" by simp
    then have "n div 100000 * 100000 = n" using div_mult_mod_eq [of n 100000] by simp
    with True show ?thesis by (simp add: amount_string_def luna_of_def tw)
  next
    case False
    with frac show ?thesis by (simp add: amount_string_def luna_of_def Let_def tw)
  qed
qed

lemma amount_string_inject: "amount_string m = amount_string n \<longleftrightarrow> m = n"
  by (metis luna_of_amount_string)

text \<open>One iteration of the digit loop; before the decimal separator is due it writes one digit.\<close>

lemma amount_loop_step:
  assumes "length buffer \<noteq> 4" "length buffer < 18" "0 < dVal \<or> length buffer < 7"
  shows "amount_loop dVal buffer =
    amount_loop (dVal div 10) (buffer @ [digit_char (unat dVal mod 10)])"
proof (cases "dVal = 0")
  case True
  then show ?thesis
    using assms by (simp add: amount_loop.simps [of 0 buffer] put_def length_defs)
next
  case False
  then have "0 < dVal" by (simp add: word_gt_0)
  then show ?thesis
    using assms by (simp add: amount_loop.simps [of dVal buffer] put_def length_defs unat_mod)
qed

lemma amount_loop_separator:
  assumes "length buffer = 4"
  shows "amount_loop dVal buffer =
    amount_loop (dVal div 10) (buffer @ [digit_char (unat dVal mod 10), CHR ''.''])"
proof (cases "dVal = 0")
  case True
  then show ?thesis
    using assms by (simp add: amount_loop.simps [of 0 buffer] put_def length_defs)
next
  case False
  then have "0 < dVal" by (simp add: word_gt_0)
  then show ?thesis
    using assms by (simp add: amount_loop.simps [of dVal buffer] put_def length_defs unat_mod)
qed

lemma amount_loop_done: "7 \<le> length buffer \<Longrightarrow> amount_loop 0 buffer = Ok buffer"
  by (simp add: amount_loop.simps)

lemma amount_loop_whole:
  assumes "6 \<le> length buffer" "length buffer = 6 \<or> 0 < dVal"
    and "length buffer + length (dec (unat dVal)) \<le> 18"
  shows "amount_loop dVal buffer = Ok (buffer @ rev (dec (unat dVal)))"
  using assms
proof (induction "unat dVal" arbitrary: dVal buffer rule: less_induct)
  case less
  have div: "unat (dVal div 10) = unat dVal div 10" by (simp add: unat_div)
  have "0 < length (dec (unat dVal))" by simp
  then have step: "amount_loop dVal buffer =
      amount_loop (dVal div 10) (buffer @ [digit_char (unat dVal mod 10)])"
    using less.prems by (intro amount_loop_step) linarith+
  show ?case
  proof (cases "unat dVal < 10")
    case True
    then have "dVal div 10 = 0" using div by (simp add: word_unat_eq_iff)
    with step True less.prems(1) show ?thesis by (simp add: amount_loop_done dec_small)
  next
    case False
    then have "dec (unat dVal) = dec (unat (dVal div 10)) @ [digit_char (unat dVal mod 10)]"
      using div by (simp add: dec_big)
    moreover have "unat (dVal div 10) < unat dVal" using False div by simp
    moreover have "0 < dVal div 10" using False div by (simp add: word_less_nat_alt)
    ultimately show ?thesis using less step by simp
  qed
qed

lemma amount_loop_result:
  assumes "unat amount < 10 ^ 17"
  shows "amount_loop amount [] = Ok (rev (dec (unat amount div 100000) @ CHR ''.'' # pad5 (unat amount)))"
proof -
  let ?n = "unat amount" and ?d = "\<lambda>k. digit_char (unat amount div 10 ^ k mod 10)"
  let ?w = "amount div 10 div 10 div 10 div 10 div 10"
  have w: "unat ?w = ?n div 100000" by (simp add: unat_div div_mult2_eq [symmetric])
  have "?n div 100000 < 10 ^ 12" using assms by (simp add: less_mult_imp_div_less)
  then have len: "length (dec (unat ?w)) \<le> 12" using w by (intro length_dec) simp_all
  have "amount_loop amount [] = amount_loop ?w [?d 0, ?d 1, ?d 2, ?d 3, ?d 4, CHR ''.'']"
    by (simp add: amount_loop_step amount_loop_separator unat_div div_mult2_eq [symmetric])
  also have "\<dots> = Ok ([?d 0, ?d 1, ?d 2, ?d 3, ?d 4, CHR ''.''] @ rev (dec (unat ?w)))"
    using len by (intro amount_loop_whole) simp_all
  finally show ?thesis using w by (simp add: pad5_def)
qed

lemma strip_zeros_le: "strip_zeros out j \<le> j"
  by (induction j) simp_all

lemma dec_if_le: "j \<le> n \<Longrightarrow> (if b then j - 1 else j) \<le> (n :: nat)"
  by (cases b) simp_all

lemma take_strip_zeros: "j \<le> length out \<Longrightarrow> take (strip_zeros out j) out = strip (take j out)"
proof (induction j)
  case (Suc j)
  then show ?case by (auto simp: strip_def take_Suc_conv_app_nth)
qed (simp add: strip_def)

lemma strip_append:
  "strip (s @ t) = (if strip t = [] then strip s else s @ strip t)"
  by (simp add: strip_def dropWhile_append)

lemma strip_dot: "strip (s @ CHR ''.'' # t) = s @ CHR ''.'' # strip t"
  using strip_append [of "s @ [CHR ''.'']" t] strip_append [of s "[CHR ''.'']"]
  by (auto simp: strip_def split: if_splits)

lemma set_strip: "set (strip s) \<subseteq> set s"
  by (auto simp: strip_def dest: set_dropWhileD)

lemma no_dot_strip_pad5: "CHR ''.'' \<notin> set (strip (pad5 n))"
proof -
  have "\<forall>c \<in> set (pad5 n). is_digit c" by (simp add: pad5_def)
  then show ?thesis using set_strip [of "pad5 n"] is_digit_not(1) by blast
qed

lemma parse_amount_strip:
  assumes "out = w @ CHR ''.'' # f" "CHR ''.'' \<notin> set w" "CHR ''.'' \<notin> set (strip f)"
    and "j = strip_zeros out (length out)"
  shows "take (if j > 0 \<and> out ! (j - 1) = CHR ''.'' then j - 1 else j) out =
    w @ (if strip f = [] then [] else CHR ''.'' # strip f)"
proof -
  have t: "take j out = w @ CHR ''.'' # strip f"
    using assms take_strip_zeros [of "length out" out] by (simp add: strip_dot)
  have "j \<le> length out" using assms(4) strip_zeros_le by simp
  then have j: "j = length w + 1 + length (strip f)"
    using arg_cong [OF t, of length] by simp
  then have last: "out ! (j - 1) = last (take j out)"
    using \<open>j \<le> length out\<close> by (simp add: take_Suc_conv_app_nth)
  show ?thesis
  proof (cases "strip f = []")
    case True
    with t last j have "out ! (j - 1) = CHR ''.''" by simp
    then show ?thesis using True j assms(1) by simp
  next
    case False
    with t last have "out ! (j - 1) = last (strip f)" by simp
    then have "out ! (j - 1) \<noteq> CHR ''.''" using False assms(3) last_in_set by metis
    then show ?thesis using False t by simp
  qed
qed

lemma max_amount_bound:
  assumes "amount \<le> MAX_SAFE_LUNA_AMOUNT"
  shows "unat amount \<le> 9007199254740991"
  using assms by (simp add: MAX_SAFE_LUNA_AMOUNT_def word_le_nat_alt)

lemma length_amount_string:
  assumes "n \<le> 9007199254740991"
  shows "length (amount_string n) \<le> 17"
proof -
  have "n div 100000 < 10 ^ 11" using assms by (simp add: less_mult_imp_div_less)
  then have "length (dec (n div 100000)) \<le> 11" by (intro length_dec) simp_all
  then show ?thesis using length_strip [of "pad5 n"] by (auto simp: amount_string_def)
qed

text \<open>The whole behaviour of \<^verbatim>\<open>parse_amount\<close>.\<close>

lemma parse_amount_eq:
  "parse_amount amount ticker =
    (if amount > MAX_SAFE_LUNA_AMOUNT then Err ERROR_INCORRECT_DATA
     else case ticker of
       None \<Rightarrow> Ok (amount_string (unat amount))
     | Some t \<Rightarrow>
         if length (amount_string (unat amount)) + length t + 2 > STRING_LENGTH_NIM_AMOUNT_WITH_TICKER
         then Err ERROR_INCORRECT_DATA else Ok (amount_string (unat amount) @ '' '' @ t))"
proof (cases "amount > MAX_SAFE_LUNA_AMOUNT")
  case True
  then show ?thesis by (simp add: parse_amount_def)
next
  case False
  then have "unat amount < 10 ^ 17" using max_amount_bound [of amount] by (simp add: not_less)
  note loop = amount_loop_result [OF this]
  define out where "out = dec (unat amount div 100000) @ CHR ''.'' # pad5 (unat amount)"
  define j0 where "j0 = strip_zeros out (length out)"
  define j where "j = (if j0 > 0 \<and> out ! (j0 - 1) = CHR ''.'' then j0 - 1 else j0)"
  have printed: "take j out = amount_string (unat amount)"
    unfolding j_def amount_string_def
    by (rule parse_amount_strip [OF out_def no_dot_dec no_dot_strip_pad5 j0_def])
  have "j \<le> length out"
    unfolding j_def by (rule dec_if_le) (simp add: j0_def strip_zeros_le)
  then have j: "length (amount_string (unat amount)) = j"
    using arg_cong [OF printed, of length] by simp
  have "parse_amount amount ticker = (case ticker of
      Some t \<Rightarrow> andthen (check (j + 1 + length t + 1 > STRING_LENGTH_NIM_AMOUNT_WITH_TICKER)
        ERROR_INCORRECT_DATA) (\<lambda>_. Ok (take j out @ '' '' @ t))
    | None \<Rightarrow> Ok (take j out))"
    using False loop [folded out_def]
    by (simp only: parse_amount_def check_simps andthen_simps rev_rev_ident Let_def
        j0_def [symmetric] j_def [symmetric] cong: option.case_cong)
  then show ?thesis
    using False by (simp add: printed j check_def split: option.split)
qed

lemma parse_amount_NIM:
  "parse_amount amount (Some ''NIM'') =
    (if amount > MAX_SAFE_LUNA_AMOUNT then Err ERROR_INCORRECT_DATA
     else Ok (amount_string (unat amount) @ '' NIM''))"
  using max_amount_bound [of amount] length_amount_string [of "unat amount"]
  by (auto simp: parse_amount_eq length_defs not_less)

lemma delivers_parse_amount [delivers_intros]:
  assumes "amount \<le> MAX_SAFE_LUNA_AMOUNT \<Longrightarrow> P (amount_string (unat amount) @ '' NIM'')"
  shows "delivers P (parse_amount amount (Some ''NIM''))"
  using assms by (simp add: parse_amount_NIM not_less)

section \<open>The contract of a printing function\<close>

text \<open>
  What the display relies on: the printed text fits its C string field with the terminator,
  contains no terminator itself, and determines the printed value.
\<close>

locale printer =
  fixes print :: "'a \<Rightarrow> (error_t, string) result"
    and printable :: "'a \<Rightarrow> bool"
    and text_of :: "'a \<Rightarrow> string"
    and capacity :: nat
  assumes print_eq: "printable x \<Longrightarrow> print x = Ok (text_of x)"
    and fits: "printable x \<Longrightarrow> length (text_of x) < capacity"
    and no_terminator: "printable x \<Longrightarrow> NUL \<notin> set (text_of x)"
    and text_inject: "printable x \<Longrightarrow> printable y \<Longrightarrow> text_of x = text_of y \<Longrightarrow> x = y"
begin

lemma same_text:
  "printable x \<Longrightarrow> printable y \<Longrightarrow> print x = Ok s \<Longrightarrow> print y = Ok s \<Longrightarrow> x = y"
  using text_inject by (simp add: print_eq)

lemma printed:
  assumes "printable x" "print x = Ok s"
  shows "length s < capacity \<and> c_string (s @ NUL # t) = s \<and> snprintf capacity s = s"
  using assms fits [of x] no_terminator [of x]
  by (auto simp: print_eq c_string_no_NUL snprintf_def)

lemma delivers_print: "printable x \<Longrightarrow> P (text_of x) \<Longrightarrow> delivers P (print x)"
  by (simp add: print_eq)

end

lemma amount_string_digits: "set (amount_string n) \<subseteq> {c. is_digit c} \<union> {CHR ''.''}"
proof -
  have "\<forall>c \<in> set (pad5 n). is_digit c" by (simp add: pad5_def)
  then show ?thesis
    using set_strip [of "pad5 n"] dec_digits [of "n div 100000"] by (auto simp: amount_string_def)
qed

interpretation amount: printer "\<lambda>amount. parse_amount amount (Some ''NIM'')"
  "\<lambda>amount. amount \<le> MAX_SAFE_LUNA_AMOUNT" "\<lambda>amount. amount_string (unat amount) @ '' NIM''"
  STRING_LENGTH_NIM_AMOUNT_WITH_TICKER
proof (unfold_locales, goal_cases)
  case (1 x)
  then show ?case by (simp add: parse_amount_NIM)
next
  case (2 x)
  then show ?case using length_amount_string [OF max_amount_bound [of x]] by (simp add: length_defs)
next
  case (3 x)
  have "NUL \<noteq> CHR ''.''" "NUL \<notin> set '' NIM''" by (simp_all add: NUL_def)
  then show ?case using amount_string_digits [of "unat x"] is_digit_not(2) by auto
next
  case (4 x y)
  then show ?case by (simp add: amount_string_inject word_unat_eq_iff)
qed

section \<open>Properties\<close>

text \<open>
  C37: Amounts. For every 64 bit amount up to the largest safe integer, and for no other,
  \<open>parse_amount\<close> succeeds; the text fits its field, holds no terminator, and read back as a decimal
  number of NIM with five fractional digits it is exactly the amount. No digit is lost or added by
  the digit loop, the stripping of zeros or the separator.
\<close>

theorem amount_text_is_amount:
  "(parse_amount amount (Some ''NIM'') = Err ERROR_INCORRECT_DATA \<and> 2 ^ 53 - 1 < unat amount) \<or>
   (\<exists>s. parse_amount amount (Some ''NIM'') = Ok (s @ '' NIM'') \<and> luna_of s = unat amount \<and>
      length (s @ '' NIM'') < STRING_LENGTH_NIM_AMOUNT_WITH_TICKER \<and> NUL \<notin> set (s @ '' NIM'') \<and>
      unat amount \<le> 2 ^ 53 - 1)"
proof (cases "amount \<le> MAX_SAFE_LUNA_AMOUNT")
  case True
  show ?thesis
    using amount.fits [OF True] amount.no_terminator [OF True] max_amount_bound [OF True] True
    by (intro disjI2 exI [of _ "amount_string (unat amount)"]) (simp add: parse_amount_NIM)
next
  case False
  then show ?thesis by (simp add: parse_amount_NIM MAX_SAFE_LUNA_AMOUNT_def word_less_nat_alt not_le)
qed

text \<open>
  C38: Hexadecimal output. If the output array has room, \<open>print_hex\<close> writes two characters per byte
  and a terminator and nothing else, and the text determines the bytes; if it has not, nothing is
  written. For no bytes at all the array is left as it was, without a terminator.
\<close>

theorem print_hex_writes_exactly:
  assumes "out_length \<le> length out"
  shows "print_hex data out out_length =
    (if out_length < length data * 2 + 1 then Err ERROR_INVALID_LENGTH
     else if data = [] then Ok out
     else Ok (hex_string data @ NUL # drop (2 * length data + 1) out)) \<and>
    (\<forall>data'. hex_string data' = hex_string data \<longrightarrow> data' = data)"
proof (cases "out_length < length data * 2 + 1")
  case True
  then show ?thesis by (auto simp: print_hex_def hex_string_inject)
next
  case False
  then show ?thesis using print_hex_result [of data out_length out] assms by (auto simp: hex_string_inject)
qed

theorem print_hex_writes_exactly_witness:
  "print_hex [] (replicate 9 CHR ''x'') 9 = Ok (replicate 9 CHR ''x'')"
  using print_hex_writes_exactly [of 9 "replicate 9 CHR ''x''" "[]"] by simp

end
