(* ===== verification/Buffer.thy ===== *)
theory Buffer
  imports Constants "HOL-Library.Monad_Syntax"
begin

text \<open>
  The buffer readers of \<^verbatim>\<open>src/src/nimiq_utils.c\<close>. A C pointer into the buffer being parsed is an
  offset into the list of bytes that is the buffer, \<open>None\<close> is \<^verbatim>\<open>NULL\<close>. A reader takes the pair of
  \<^verbatim>\<open>in_out_buffer\<close> and \<^verbatim>\<open>in_out_buffer_length\<close> as a cursor and returns the value read and the
  advanced cursor; returning \<^verbatim>\<open>false\<close> is \<open>Err ()\<close>. Dereferencing \<^verbatim>\<open>NULL\<close> or reading past the end
  of the buffer is a fault.

  The lemmas show that each reader consumes exactly its width from the front of the remaining
  bytes, decodes them big endian, fails exactly when there are too few of them, and never faults.
  The contract is the locale \<open>reader\<close>; each fixed-width reader interprets it.
\<close>

section \<open>Pointers and cursors\<close>

type_synonym ptr = "nat option"
type_synonym cursor = "ptr \<times> u16"

definition deref :: "u8 list \<Rightarrow> ptr \<Rightarrow> nat \<Rightarrow> ('e, u8) result" where
  "deref mem p i = (case p of
     None \<Rightarrow> Fault Null_dereference
   | Some off \<Rightarrow> if off + i < length mem then Ok (mem ! (off + i)) else Fault Out_of_bounds)"

definition bytes_at :: "u8 list \<Rightarrow> ptr \<Rightarrow> nat \<Rightarrow> ('e, u8 list) result" where
  "bytes_at mem p n = (case p of
     None \<Rightarrow> Fault Null_dereference
   | Some off \<Rightarrow> if off + n \<le> length mem then Ok (take n (drop off mem)) else Fault Out_of_bounds)"

section \<open>The readers\<close>

definition read_sub_buffer :: "u16 \<Rightarrow> cursor \<Rightarrow> (unit, ptr \<times> cursor) result" where
  "read_sub_buffer sub_buffer_length cur = (case cur of (buffer, buffer_length) \<Rightarrow>
     if sub_buffer_length = 0 then Ok (None, cur)
     else case buffer of
       None \<Rightarrow> Err ()
     | Some off \<Rightarrow>
         if buffer_length < sub_buffer_length then Err ()
         else Ok (Some off,
                  (Some (off + unat sub_buffer_length), buffer_length - sub_buffer_length)))"

definition read_u8 :: "u8 list \<Rightarrow> cursor \<Rightarrow> (unit, u8 \<times> cursor) result" where
  "read_u8 mem cur =
     andthen (read_sub_buffer 1 cur) (\<lambda>(uint8_pointer, cur).
     andthen (deref mem uint8_pointer 0) (\<lambda>b. Ok (b, cur)))"

definition read_u16 :: "u8 list \<Rightarrow> cursor \<Rightarrow> (unit, u16 \<times> cursor) result" where
  "read_u16 mem cur =
     andthen (read_u8 mem cur) (\<lambda>(a, cur).
     andthen (read_u8 mem cur) (\<lambda>(b, cur).
     Ok (push_bit 8 (ucast a) OR ucast b, cur)))"

definition read_u32 :: "u8 list \<Rightarrow> cursor \<Rightarrow> (unit, u32 \<times> cursor) result" where
  "read_u32 mem cur =
     andthen (read_u16 mem cur) (\<lambda>(a, cur).
     andthen (read_u16 mem cur) (\<lambda>(b, cur).
     Ok (push_bit 16 (ucast a) OR ucast b, cur)))"

definition read_u64 :: "u8 list \<Rightarrow> cursor \<Rightarrow> (unit, u64 \<times> cursor) result" where
  "read_u64 mem cur =
     andthen (read_u32 mem cur) (\<lambda>(a, cur).
     andthen (read_u32 mem cur) (\<lambda>(b, cur).
     Ok (push_bit 32 (ucast a) OR ucast b, cur)))"

definition read_bool :: "u8 list \<Rightarrow> cursor \<Rightarrow> (unit, bool \<times> cursor) result" where
  "read_bool mem cur =
     andthen (read_u8 mem cur) (\<lambda>(uint8_value, cur). Ok (uint8_value \<noteq> 0, cur))"

text \<open>Single-byte varints only; the continuation bit of the byte must be clear.\<close>

definition read_serde_uvarint :: "u8 \<Rightarrow> u8 list \<Rightarrow> cursor \<Rightarrow> (unit, u32 \<times> cursor) result" where
  "read_serde_uvarint max_bits mem cur =
     andthen (check (max_bits < 7) ()) (\<lambda>_.
     andthen (read_u8 mem cur) (\<lambda>(b, cur).
     andthen (check (b AND 0x80 \<noteq> 0) ()) (\<lambda>_.
     Ok (ucast b, cur))))"

definition read_serde_vec_u8 ::
    "u8 list \<Rightarrow> cursor \<Rightarrow> (unit, (ptr \<times> u16) \<times> cursor) result" where
  "read_serde_vec_u8 mem cur =
     andthen (read_serde_uvarint 16 mem cur) (\<lambda>(data_length, cur).
     andthen (read_sub_buffer (ucast data_length) cur) (\<lambda>(out_data, cur).
     Ok ((out_data, ucast data_length), cur)))"

text \<open>The loop of \<^verbatim>\<open>read_bip32_path\<close>: one \<open>u32\<close> per iteration, in order.\<close>

fun read_u32s :: "nat \<Rightarrow> u8 list \<Rightarrow> cursor \<Rightarrow> (unit, u32 list \<times> cursor) result" where
  "read_u32s 0 mem cur = Ok ([], cur)"
| "read_u32s (Suc n) mem cur =
     andthen (read_u32 mem cur) (\<lambda>(x, cur).
     andthen (read_u32s n mem cur) (\<lambda>(xs, cur). Ok (x # xs, cur)))"

definition read_bip32_path ::
    "u8 list \<Rightarrow> cursor \<Rightarrow> (unit, (u32 list \<times> u8) \<times> cursor) result" where
  "read_bip32_path mem cur =
     andthen (read_u8 mem cur) (\<lambda>(path_length, cur).
     andthen (check (path_length < 1 \<or> unat path_length > MAX_BIP32_PATH_LENGTH) ()) (\<lambda>_.
     andthen (read_u32s (unat path_length) mem cur) (\<lambda>(path, cur).
     Ok ((path, path_length), cur))))"

section \<open>The remaining bytes of a cursor\<close>

text \<open>
  A cursor is well formed if the bytes it says remain lie inside the buffer; a \<^verbatim>\<open>NULL\<close> cursor has
  length zero.
\<close>

fun wf_cursor :: "u8 list \<Rightarrow> cursor \<Rightarrow> bool" where
  "wf_cursor mem (None, n) = (n = 0)"
| "wf_cursor mem (Some off, n) = (off + unat n \<le> length mem)"

fun view :: "u8 list \<Rightarrow> cursor \<Rightarrow> u8 list" where
  "view mem (None, n) = []"
| "view mem (Some off, n) = take (unat n) (drop off mem)"

fun advance :: "nat \<Rightarrow> cursor \<Rightarrow> cursor" where
  "advance w (None, n) = (None, n)"
| "advance w (Some off, n) = (Some (off + w), n - of_nat w)"

lemma cursor_cases [case_names Null Buffer]:
  assumes "\<And>n. c = (None, n) \<Longrightarrow> P" and "\<And>off n. c = (Some off, n :: u16) \<Longrightarrow> P"
  shows P
  using assms by (cases c; cases "fst c") auto

lemma length_view: "wf_cursor mem c \<Longrightarrow> length (view mem c) = unat (snd c)"
  by (cases c rule: cursor_cases) simp_all

lemma view_Nil_iff: "wf_cursor mem c \<Longrightarrow> view mem c = [] \<longleftrightarrow> snd c = 0"
  using length_view [of mem c] by (auto simp: unat_eq_0)

lemma length_view_le: "length (view mem c) \<le> unat (snd c)"
  by (cases c rule: cursor_cases) simp_all

lemma length_view_less: "length (view mem c) < 65536"
proof -
  have "unat (snd c) < 2 ^ 16" using unsigned_less [of "snd c"] by simp
  then show ?thesis using length_view_le [of mem c] by simp
qed

lemma unat_diff_of_nat:
  fixes n :: "'l::len word"
  assumes "w \<le> unat n"
  shows "unat (n - of_nat w) = unat n - w"
proof -
  have w: "unat (of_nat w :: 'l word) = w"
    using assms by (meson le_unat_uoi)
  have "(of_nat w :: 'l word) \<le> n" using assms w by (simp add: word_le_nat_alt)
  then show ?thesis by (simp add: unat_sub w)
qed

lemma wf_advance: "wf_cursor mem c \<Longrightarrow> w \<le> length (view mem c) \<Longrightarrow> wf_cursor mem (advance w c)"
  by (cases c rule: cursor_cases) (auto simp: unat_diff_of_nat)

lemma view_advance:
  "wf_cursor mem c \<Longrightarrow> w \<le> length (view mem c) \<Longrightarrow> view mem (advance w c) = drop w (view mem c)"
  by (cases c rule: cursor_cases)
     (auto simp: unat_diff_of_nat drop_take add.commute)

lemma length_advance:
  "c = (Some off, n) \<Longrightarrow> wf_cursor mem c \<Longrightarrow> w \<le> length (view mem c) \<Longrightarrow>
   unat (snd (advance w c)) = unat n - w"
  by (auto simp: unat_diff_of_nat)

lemma advance_advance: "advance v (advance w c) = advance (w + v) c"
  by (cases c rule: cursor_cases) (simp_all add: algebra_simps)

lemma fst_advance_eq_None [simp]: "fst (advance w c) = None \<longleftrightarrow> fst c = None"
  by (cases c rule: cursor_cases) simp_all

section \<open>Contract of a sub-buffer read\<close>

lemma read_sub_buffer_zero [simp]: "read_sub_buffer 0 c = Ok (None, c)"
  by (simp add: read_sub_buffer_def split: prod.split)

lemma read_sub_buffer_spec:
  assumes "wf_cursor mem c" "n \<noteq> 0"
  shows "read_sub_buffer n c =
    (if unat n \<le> length (view mem c) then Ok (fst c, advance (unat n) c) else Err ())"
proof (cases c rule: cursor_cases)
  case (Null m)
  then show ?thesis using assms by (auto simp: read_sub_buffer_def word_gt_0 unat_gt_0)
next
  case (Buffer off m)
  then show ?thesis using assms
    by (auto simp: read_sub_buffer_def word_less_nat_alt not_less)
qed

lemma bytes_at_cursor:
  assumes "wf_cursor mem c" "n \<le> length (view mem c)" "0 < n"
  shows "bytes_at mem (fst c) n = Ok (take n (view mem c))"
  using assms
  by (cases c rule: cursor_cases) (auto simp: bytes_at_def min_absorb1)

section \<open>Contract of the fixed-width readers\<close>

text \<open>
  The contract of a reader: from a well-formed cursor it takes \<open>width\<close> bytes off the front of the
  remaining bytes and decodes them, or fails when there are fewer. Everything the parsers need of
  a reader follows from this one law.
\<close>

locale reader =
  fixes read :: "u8 list \<Rightarrow> cursor \<Rightarrow> (unit, 'a \<times> cursor) result"
    and width :: nat
    and decode :: "u8 list \<Rightarrow> 'a"
  assumes read_eq: "wf_cursor mem c \<Longrightarrow> read mem c =
      (if width \<le> length (view mem c) then Ok (decode (take width (view mem c)), advance width c)
       else Err ())"
begin

lemma delivers_read:
  assumes "wf_cursor mem c"
  shows "delivers (\<lambda>(x, c'). wf_cursor mem c' \<and> width \<le> length (view mem c) \<and>
      x = decode (take width (view mem c)) \<and> c' = advance width c \<and>
      view mem c' = drop width (view mem c)) (read mem c)"
  using assms by (simp add: read_eq wf_advance view_advance)

lemma never_faults: "wf_cursor mem c \<Longrightarrow> read mem c \<noteq> Fault f"
  by (simp add: read_eq)

lemma read_prefix:
  assumes "wf_cursor mem c" and "view mem c = bs @ rest" and "length bs = width"
  shows "read mem c = Ok (decode bs, advance width c) \<and> wf_cursor mem (advance width c) \<and>
    view mem (advance width c) = rest"
  using assms by (simp add: read_eq wf_advance view_advance)

lemma read_OkD:
  assumes "wf_cursor mem c" and "read mem c = Ok (x, c')"
  shows "wf_cursor mem c'" and "view mem c = take width (view mem c) @ view mem c'"
    and "width \<le> length (view mem c)" and "x = decode (take width (view mem c))"
    and "c' = advance width c"
  using assms by (auto simp: read_eq wf_advance view_advance split: if_splits)

lemma read_too_short: "wf_cursor mem c \<Longrightarrow> length (view mem c) < width \<Longrightarrow> read mem c = Err ()"
  by (simp add: read_eq)

end

text \<open>Two readers in sequence are a reader of the sum of their widths.\<close>

lemma reader_pair:
  assumes "reader r v d" and "reader s w e"
  shows "reader (\<lambda>mem c. andthen (r mem c) (\<lambda>(a, c). andthen (s mem c) (\<lambda>(b, c). Ok (f a b, c))))
    (v + w) (\<lambda>bs. f (d (take v bs)) (e (drop v bs)))"
proof (unfold_locales, goal_cases)
  case (1 mem c)
  show ?case
  proof (cases "v \<le> length (view mem c)")
    case True
    with 1 have "wf_cursor mem (advance v c)" and "view mem (advance v c) = drop v (view mem c)"
      by (simp_all add: wf_advance view_advance)
    with True 1 show ?thesis
      by (auto simp: reader.read_eq [OF assms(1)] reader.read_eq [OF assms(2)]
          advance_advance drop_take min_absorb1 split_beta)
  next
    case False
    with 1 show ?thesis by (simp add: reader.read_eq [OF assms(1)])
  qed
qed

lemma reader_decode_cong:
  assumes "reader r w d" and "\<And>bs. length bs = w \<Longrightarrow> d bs = e bs"
  shows "reader r w e"
  using assms by (auto simp: reader_def min_absorb2)

section \<open>Big-endian numbers\<close>

definition be_val :: "u8 list \<Rightarrow> nat" where
  "be_val bs = foldl (\<lambda>n b. n * 256 + unat b) 0 bs"

fun be_bytes :: "nat \<Rightarrow> nat \<Rightarrow> u8 list" where
  "be_bytes 0 n = []"
| "be_bytes (Suc w) n = be_bytes w (n div 256) @ [of_nat n]"

lemma length_be_bytes [simp]: "length (be_bytes w n) = w"
  by (induction w arbitrary: n) simp_all

lemma be_val_Nil [simp]: "be_val [] = 0"
  by (simp add: be_val_def)

lemma be_val_snoc [simp]: "be_val (bs @ [b]) = be_val bs * 256 + unat b"
  by (simp add: be_val_def)

lemma be_val_append: "be_val (xs @ ys) = be_val xs * 256 ^ length ys + be_val ys"
proof (induction ys rule: rev_induct)
  case (snoc y ys)
  then show ?case by (simp add: append_assoc [symmetric] algebra_simps del: append_assoc)
qed simp

lemma be_val_single [simp]: "be_val [b] = unat b"
  using be_val_snoc [of "[]" b] by simp

lemma be_val_less: "be_val bs < 256 ^ length bs"
proof (induction bs rule: rev_induct)
  case (snoc b bs)
  have "unat b < 256" using unsigned_less [of b] by simp
  with snoc show ?case by simp
qed simp

lemma be_val_be_bytes: "be_val (be_bytes w n) = n mod 256 ^ w"
proof (induction w arbitrary: n)
  case (Suc w)
  have "unat (of_nat n :: u8) = n mod 256" by (simp add: unat_of_nat)
  with Suc show ?case by (simp add: mod_mult2_eq)
qed simp

lemma be_val_inject: "length xs = length ys \<Longrightarrow> be_val xs = be_val ys \<Longrightarrow> xs = ys"
proof (induction xs arbitrary: ys rule: rev_induct)
  case (snoc x xs)
  then obtain zs z where ys: "ys = zs @ [z]"
    by (cases ys rule: rev_cases) simp_all
  have eq: "be_val xs * 256 + unat x = be_val zs * 256 + unat z"
    using snoc.prems ys by simp
  moreover have "unat x < 256" "unat z < 256"
    using unsigned_less [of x] unsigned_less [of z] by simp_all
  ultimately have "be_val xs = be_val zs"
    using div_mult_self3 [of 256 "be_val xs" "unat x"] div_mult_self3 [of 256 "be_val zs" "unat z"]
    by simp
  with eq snoc ys show ?case by (simp add: word_unat_eq_iff)
qed simp

lemma join_words:
  fixes a b :: "'l::len word"
  shows "push_bit LENGTH('l) (ucast a :: 'm::len word) OR ucast b =
    of_nat (unat a * 2 ^ LENGTH('l) + unat b)"
proof -
  have "push_bit LENGTH('l) (ucast a :: 'm word) AND ucast b = 0"
    by (rule bit_eqI) (auto simp: bit_simps dest: bit_imp_le_length)
  then have "push_bit LENGTH('l) (ucast a :: 'm word) OR ucast b =
      push_bit LENGTH('l) (ucast a :: 'm word) + ucast b"
    by (simp add: disjunctive_add_eq_or)
  also have "\<dots> = of_nat (unat a * 2 ^ LENGTH('l) + unat b)"
    by (simp add: push_bit_eq_mult)
  finally show ?thesis .
qed

text \<open>A big-endian word reader: the contract of the integer readers.\<close>

locale be_reader = reader read width "\<lambda>bs. of_nat (be_val bs)"
  for read :: "u8 list \<Rightarrow> cursor \<Rightarrow> (unit, 'l::len word \<times> cursor) result" and width :: nat +
  assumes bits: "LENGTH('l) = 8 * width"
begin

lemma unat_of_be_val: "length bs = width \<Longrightarrow> unat (of_nat (be_val bs) :: 'l word) = be_val bs"
  using be_val_less [of bs] by (simp add: unat_of_nat bits power_mult)

lemma read_encoded:
  assumes "wf_cursor mem c" and "view mem c = be_bytes width (unat (x :: 'l word)) @ rest"
  shows "read mem c = Ok (x, advance width c) \<and> wf_cursor mem (advance width c) \<and>
    view mem (advance width c) = rest"
proof -
  have "unat x < 256 ^ width" using unsigned_less [of x] by (simp add: bits power_mult)
  then have "of_nat (be_val (be_bytes width (unat x))) = x" by (simp add: be_val_be_bytes)
  then show ?thesis using read_prefix [OF assms] by simp
qed

lemma read_OkE:
  assumes "wf_cursor mem c" and "read mem c = Ok (x, c')"
  shows "wf_cursor mem c' \<and> view mem c = be_bytes width (unat x) @ view mem c'"
proof -
  let ?a = "take width (view mem c)"
  have len: "length ?a = width"
    using read_OkD(3) [OF assms] by simp
  then have "be_val (be_bytes width (be_val ?a)) = be_val ?a"
    using be_val_less [of ?a] by (simp add: be_val_be_bytes)
  then have "be_bytes width (be_val ?a) = ?a"
    using len by (intro be_val_inject) simp_all
  moreover have "unat x = be_val ?a"
    unfolding read_OkD(4) [OF assms] by (rule unat_of_be_val [OF len])
  ultimately show ?thesis using read_OkD(1,2) [OF assms] by simp
qed

lemma run:
  assumes "wf_cursor mem c" "view mem c = be_bytes width (unat (x :: 'l word)) @ rest"
    and "\<And>c'. wf_cursor mem c' \<Longrightarrow> view mem c' = rest \<Longrightarrow> k x c' = r"
  shows "andthen (or_error (read mem c) e) (\<lambda>(x, c). k x c) = r"
  using read_encoded [OF assms(1,2)] assms(3) by simp

lemma run_elim:
  assumes "andthen (or_error (read mem c) e) (\<lambda>(x, c). k x c) = Ok r" "wf_cursor mem c"
  obtains x c' where "wf_cursor mem c'" "view mem c = be_bytes width (unat x) @ view mem c'"
    "k x c' = Ok r"
proof -
  obtain x c' where "read mem c = Ok (x, c')" "k x c' = Ok r"
    using assms(1) by (auto simp: andthen_eq_Ok)
  with read_OkE [OF assms(2) this(1)] show thesis by (intro that [of c' x]) simp_all
qed

lemma read_determines:
  assumes "wf_cursor mem c" "read mem c = Ok (x, c')" "wf_cursor mem' d" "read mem' d = Ok (x, d')"
  shows "take width (view mem c) = take width (view mem' d)"
proof -
  let ?a = "take width (view mem c)" and ?b = "take width (view mem' d)"
  have len: "length ?a = width" "length ?b = width"
    using read_OkD(3) [OF assms(1,2)] read_OkD(3) [OF assms(3,4)] by simp_all
  have "(of_nat (be_val ?a) :: 'l word) = of_nat (be_val ?b)"
    using read_OkD(4) [OF assms(1,2)] read_OkD(4) [OF assms(3,4)] by (simp only:)
  then have "unat (of_nat (be_val ?a) :: 'l word) = unat (of_nat (be_val ?b) :: 'l word)"
    by (rule arg_cong)
  then have "be_val ?a = be_val ?b"
    by (simp only: unat_of_be_val len)
  then show ?thesis using len by (intro be_val_inject) simp_all
qed

end

lemma be_reader_pair:
  fixes r :: "u8 list \<Rightarrow> cursor \<Rightarrow> (unit, 'l::len word \<times> cursor) result"
  assumes "be_reader r w" and "LENGTH('m::len) = 2 * LENGTH('l)"
  shows "be_reader (\<lambda>mem c. andthen (r mem c) (\<lambda>(a, c). andthen (r mem c) (\<lambda>(b, c).
      Ok (push_bit LENGTH('l) (ucast a) OR ucast b :: 'm word, c)))) (2 * w)"
proof -
  let ?f = "\<lambda>(a :: 'l word) (b :: 'l word). push_bit LENGTH('l) (ucast a) OR ucast b :: 'm word"
  have r: "reader r w (\<lambda>bs. of_nat (be_val bs))" and len: "LENGTH('l) = 8 * w"
    using assms(1) by (simp_all add: be_reader_def be_reader_axioms_def)
  have "reader (\<lambda>mem c. andthen (r mem c) (\<lambda>(a, c). andthen (r mem c) (\<lambda>(b, c). Ok (?f a b, c))))
      (2 * w) (\<lambda>bs. of_nat (be_val bs))"
  proof (rule reader_decode_cong [OF reader_pair [OF r r, of ?f, folded mult_2]])
    fix bs :: "u8 list"
    assume "length bs = 2 * w"
    then have val: "be_val bs = be_val (take w bs) * 2 ^ LENGTH('l) + be_val (drop w bs)"
      using be_val_append [of "take w bs" "drop w bs"] by (simp add: len power_mult)
    have "be_val (take w bs) < 2 ^ LENGTH('l)" "be_val (drop w bs) < 2 ^ LENGTH('l)"
      using be_val_less [of "take w bs"] be_val_less [of "drop w bs"] \<open>length bs = 2 * w\<close>
      by (simp_all add: len power_mult)
    then have "unat (of_nat (be_val (take w bs)) :: 'l word) = be_val (take w bs)"
      and "unat (of_nat (be_val (drop w bs)) :: 'l word) = be_val (drop w bs)"
      by (simp_all add: unat_of_nat)
    with val show "?f (of_nat (be_val (take w bs))) (of_nat (be_val (drop w bs))) =
        of_nat (be_val bs)"
      by (simp only: join_words)
  qed
  then show ?thesis
    using assms(2) len by (simp add: be_reader_def be_reader_axioms_def)
qed

section \<open>The code's readers meet their contracts\<close>

interpretation r8: be_reader read_u8 1
proof (unfold_locales, goal_cases)
  case (1 mem c)
  show ?case
  proof (cases c rule: cursor_cases)
    case (Null n)
    then show ?thesis by (simp add: read_u8_def read_sub_buffer_def)
  next
    case (Buffer off n)
    with 1 have len: "off + unat n \<le> length mem" by simp
    show ?thesis
    proof (cases "n = 0")
      case True
      with Buffer show ?thesis by (simp add: read_u8_def read_sub_buffer_def)
    next
      case False
      then have "0 < unat n" by (simp add: unat_gt_0)
      with len have "off < length mem" by simp
      moreover from this have "Suc 0 \<le> length mem - off" by simp
      moreover from \<open>off < length mem\<close> \<open>0 < unat n\<close> have "take 1 (take (unat n) (drop off mem)) = [mem ! off]"
        by (simp add: take_Suc hd_drop_conv_nth min_def)
      ultimately show ?thesis using Buffer len False
        by (simp add: read_u8_def read_sub_buffer_def deref_def word_less_nat_alt min_def)
    qed
  qed
qed simp

interpretation r16: be_reader read_u16 2
  using be_reader_pair [OF r8.be_reader_axioms, where 'm = 16] by (simp add: read_u16_def [abs_def])

interpretation r32: be_reader read_u32 4
  using be_reader_pair [OF r16.be_reader_axioms, where 'm = 32] by (simp add: read_u32_def [abs_def])

interpretation r64: be_reader read_u64 8
  using be_reader_pair [OF r32.be_reader_axioms, where 'm = 64] by (simp add: read_u64_def [abs_def])

section \<open>Sub-buffers as cursors of their own\<close>

text \<open>
  The pointer returned for a sub-buffer together with its length is again a well-formed cursor:
  this is how the parsers hand the recipient data and the sender data on.
\<close>

lemma read_sub_buffer_OkD:
  assumes "wf_cursor mem c" and "read_sub_buffer n c = Ok (p, c')"
  shows "wf_cursor mem c'" and "wf_cursor mem (p, n)"
    and "view mem c = view mem (p, n) @ view mem c'" and "length (view mem (p, n)) = unat n"
    and "p = None \<longleftrightarrow> n = 0"
proof -
  have "wf_cursor mem c' \<and> wf_cursor mem (p, n) \<and> view mem c = view mem (p, n) @ view mem c' \<and>
      length (view mem (p, n)) = unat n \<and> (p = None \<longleftrightarrow> n = 0)"
  proof (cases "n = 0")
    case True
    with assms show ?thesis by simp
  next
    case False
    with assms have le: "unat n \<le> length (view mem c)" and p: "p = fst c"
      and c': "c' = advance (unat n) c"
      by (auto simp: read_sub_buffer_spec split: if_splits)
    from False have "0 < unat n" by (simp add: unat_gt_0)
    with le obtain off m where c: "c = (Some off, m)"
      by (cases c rule: cursor_cases) simp_all
    have "wf_cursor mem (p, n)" "view mem (p, n) = take (unat n) (view mem c)"
      using c p le assms(1) by auto
    moreover have "view mem c = take (unat n) (view mem c) @ drop (unat n) (view mem c)"
      by simp
    ultimately show ?thesis
      using le c' p c False wf_advance [OF assms(1) le] view_advance [OF assms(1) le]
      by (simp del: view.simps append_take_drop_id)
  qed
  then show "wf_cursor mem c'" and "wf_cursor mem (p, n)"
    and "view mem c = view mem (p, n) @ view mem c'" and "length (view mem (p, n)) = unat n"
    and "p = None \<longleftrightarrow> n = 0"
    by blast+
qed

lemma read_sub_buffer_prefix:
  assumes "wf_cursor mem c" and "view mem c = bs @ rest" and "length bs = unat n"
  obtains p c' where "read_sub_buffer n c = Ok (p, c')" "wf_cursor mem c'" "view mem c' = rest"
    "wf_cursor mem (p, n)" "view mem (p, n) = bs"
proof -
  have "\<exists>p c'. read_sub_buffer n c = Ok (p, c')"
    using assms by (cases "n = 0") (simp_all add: read_sub_buffer_spec)
  then obtain p c' where r: "read_sub_buffer n c = Ok (p, c')" by blast
  note D = read_sub_buffer_OkD [OF assms(1) r]
  have "view mem (p, n) @ view mem c' = bs @ rest" using assms(2) D(3) by simp
  with D(4) assms(3) have "view mem (p, n) = bs \<and> view mem c' = rest" by simp
  with r D show thesis by (intro that) auto
qed

lemma bytes_at_view:
  assumes "wf_cursor mem (p, n)" and "p \<noteq> None"
  shows "bytes_at mem p (unat n) = Ok (view mem (p, n))"
  using assms by (auto simp: bytes_at_def)

lemma bytes_at_eq:
  "wf_cursor mem (p, n) \<Longrightarrow> p \<noteq> None \<Longrightarrow> view mem (p, n) = bs \<Longrightarrow> m = unat n \<Longrightarrow> bytes_at mem p m = Ok bs"
  using bytes_at_view [of mem p n] by (auto simp: bytes_at_def)

section \<open>Memory safety of every reader\<close>

lemma delivers_read_sub_buffer [delivers_intros]:
  assumes "wf_cursor mem c"
    and "\<And>p c'. wf_cursor mem c' \<Longrightarrow> wf_cursor mem (p, n) \<Longrightarrow> (p = None \<longleftrightarrow> n = 0) \<Longrightarrow> P (p, c')"
  shows "delivers P (read_sub_buffer n c)"
proof (rule delivers_OkI)
  fix f show "read_sub_buffer n c \<noteq> Fault f"
    by (auto simp: read_sub_buffer_def split: prod.splits option.splits)
next
  fix x assume "read_sub_buffer n c = Ok x"
  with read_sub_buffer_OkD [OF assms(1)] assms(2) show "P x" by (cases x) blast
qed

lemma delivers_bytes_at [delivers_intros]:
  assumes "wf_cursor mem (p, n)" and "p \<noteq> None" and "k = unat n"
    and "length (view mem (p, n)) = k \<Longrightarrow> P (view mem (p, n))"
  shows "delivers P (bytes_at mem p k)"
  using assms by (auto simp: bytes_at_def)

lemma delivers_ints [delivers_intros]:
  assumes "wf_cursor mem c"
  shows "(\<And>x c'. wf_cursor mem c' \<Longrightarrow> P8 (x, c')) \<Longrightarrow> delivers P8 (read_u8 mem c)"
    and "(\<And>x c'. wf_cursor mem c' \<Longrightarrow> P16 (x, c')) \<Longrightarrow> delivers P16 (read_u16 mem c)"
    and "(\<And>x c'. wf_cursor mem c' \<Longrightarrow> P32 (x, c')) \<Longrightarrow> delivers P32 (read_u32 mem c)"
    and "(\<And>x c'. wf_cursor mem c' \<Longrightarrow> P64 (x, c')) \<Longrightarrow> delivers P64 (read_u64 mem c)"
  using r8.delivers_read [OF assms] r16.delivers_read [OF assms] r32.delivers_read [OF assms]
    r64.delivers_read [OF assms]
  by (auto elim!: delivers_mono)

lemma delivers_read_bool [delivers_intros]:
  assumes "wf_cursor mem c" and "\<And>x c'. wf_cursor mem c' \<Longrightarrow> P (x, c')"
  shows "delivers P (read_bool mem c)"
  using assms by (auto simp: read_bool_def intro!: delivers_intros)

lemma unat_ucast_less_128:
  assumes "b AND 0x80 = (0 :: u8)"
  shows "unat (ucast b :: u32) < 128"
proof -
  have "b = take_bit 7 b"
  proof (rule bit_eqI)
    fix i assume "possible_bit TYPE(u8) i"
    moreover have "\<not> bit b 7"
      using assms bit_and_iff [of b 128 7] by simp
    ultimately show "bit b i = bit (take_bit 7 b) i"
      by (auto simp: bit_take_bit_iff not_less numeral_eq_Suc less_Suc_eq le_less)
  qed
  then have "unat b < 2 ^ 7"
    by (metis take_bit_nat_less_exp unsigned_take_bit_eq)
  then show ?thesis by (simp add: unsigned_ucast_eq take_bit_nat_eq_self)
qed

lemma delivers_read_serde_uvarint [delivers_intros]:
  assumes "wf_cursor mem c" and "\<And>x c'. wf_cursor mem c' \<Longrightarrow> unat x < 128 \<Longrightarrow> P (x, c')"
  shows "delivers P (read_serde_uvarint k mem c)"
  using assms
  by (auto simp: read_serde_uvarint_def intro!: delivers_intros assms(2)
      unat_ucast_less_128 unat_ucast_less_128 [simplified])

lemma delivers_read_serde_vec_u8 [delivers_intros]:
  assumes "wf_cursor mem c"
    and "\<And>p n c'. wf_cursor mem c' \<Longrightarrow> wf_cursor mem (p, n) \<Longrightarrow> (p = None \<longleftrightarrow> n = 0) \<Longrightarrow>
      unat n < 128 \<Longrightarrow> P ((p, n), c')"
  shows "delivers P (read_serde_vec_u8 mem c)"
  using assms
  by (auto simp: read_serde_vec_u8_def intro!: delivers_intros
      simp: unsigned_ucast_eq take_bit_nat_eq_self)

lemma delivers_read_u32s [delivers_intros]:
  assumes "wf_cursor mem c" and "\<And>xs c'. wf_cursor mem c' \<Longrightarrow> length xs = n \<Longrightarrow> P (xs, c')"
  shows "delivers P (read_u32s n mem c)"
  using assms
proof (induction n arbitrary: c P)
  case (Suc n)
  then show ?case
    by (auto intro!: delivers_intros Suc.IH)
qed simp

lemma delivers_read_bip32_path [delivers_intros]:
  assumes "wf_cursor mem c"
    and "\<And>path n c'. wf_cursor mem c' \<Longrightarrow> length path = unat n \<Longrightarrow> 1 \<le> length path \<Longrightarrow>
      length path \<le> MAX_BIP32_PATH_LENGTH \<Longrightarrow> P ((path, n), c')"
  shows "delivers P (read_bip32_path mem c)"
  using assms
  by (auto simp: read_bip32_path_def not_less word_le_nat_alt Suc_le_eq unat_gt_0
      intro!: delivers_intros)

section \<open>Stepping through a parser\<close>

text \<open>
  Rules in continuation style for the parsers, which are chains of reads with a custom error.
  The rules of \<open>reads\<close> run a parser on bytes known to start with an encoded value; those of
  \<open>read_elims\<close> recover the encoded value from a successful run.
\<close>

named_theorems reads \<open>running a read on an encoded value\<close>
named_theorems read_elims \<open>the value behind a successful read\<close>

lemma be_bytes_1 [simp]: "be_bytes (Suc 0) (unat b) = [b]"
  by simp

lemma reads_u8 [reads]:
  assumes "wf_cursor mem c" "view mem c = b # rest"
    and "\<And>c'. wf_cursor mem c' \<Longrightarrow> view mem c' = rest \<Longrightarrow> k b c' = r"
  shows "andthen (or_error (read_u8 mem c) e) (\<lambda>(x, c). k x c) = r"
  using assms by (intro r8.run [of mem c b rest]) simp_all

lemmas reads_ints [reads] = r16.run r32.run r64.run

lemma reads_bool [reads]:
  assumes "wf_cursor mem c" "view mem c = b # rest"
    and "\<And>c'. wf_cursor mem c' \<Longrightarrow> view mem c' = rest \<Longrightarrow> k (b \<noteq> 0) c' = r"
  shows "andthen (or_error (read_bool mem c) e) (\<lambda>(x, c). k x c) = r"
  using assms r8.read_encoded [OF assms(1), of b rest] by (simp add: read_bool_def)

lemma reads_sub_buffer:
  assumes "wf_cursor mem c" "view mem c = bs @ rest" "length bs = unat n"
    and "\<And>p c'. wf_cursor mem c' \<Longrightarrow> view mem c' = rest \<Longrightarrow> wf_cursor mem (p, n) \<Longrightarrow>
      view mem (p, n) = bs \<Longrightarrow> p = None \<longleftrightarrow> n = 0 \<Longrightarrow> k p c' = r"
  shows "andthen (or_error (read_sub_buffer n c) e) (\<lambda>(p, c). k p c) = r"
proof -
  obtain p c' where "read_sub_buffer n c = Ok (p, c')" "wf_cursor mem c'" "view mem c' = rest"
    "wf_cursor mem (p, n)" "view mem (p, n) = bs"
    by (rule read_sub_buffer_prefix [OF assms(1-3)])
  with read_sub_buffer_OkD(5) [OF assms(1)] assms(4) show ?thesis by simp
qed

lemma reads_bytes_at [reads]:
  assumes "wf_cursor mem (p, n)" "view mem (p, n) = bs" "p \<noteq> None" "m = unat n" "k bs = r"
  shows "andthen (bytes_at mem p m) k = r"
  using assms by (simp add: bytes_at_view [OF assms(1,3)] del: view.simps)

lemma read_elims_u8 [read_elims]:
  assumes "andthen (or_error (read_u8 mem c) e) (\<lambda>(x, c). k x c) = Ok r" "wf_cursor mem c"
  obtains x c' where "wf_cursor mem c'" "view mem c = x # view mem c'" "k x c' = Ok r"
proof (rule r8.run_elim [OF assms])
  fix x c'
  assume "wf_cursor mem c'" "view mem c = be_bytes 1 (unat x) @ view mem c'" "k x c' = Ok r"
  then show thesis by (intro that [of c' x]) simp_all
qed

lemmas read_elims_ints [read_elims] = r16.run_elim r32.run_elim r64.run_elim

lemma read_elims_bool [read_elims]:
  assumes "andthen (or_error (read_bool mem c) e) (\<lambda>(x, c). k x c) = Ok r" "wf_cursor mem c"
  obtains x c' where "wf_cursor mem c'" "view mem c = x # view mem c'" "k (x \<noteq> 0) c' = Ok r"
  using assms r8.read_OkE [OF assms(2)] by (auto simp: andthen_eq_Ok read_bool_def)

lemma read_elims_sub_buffer:
  assumes "andthen (or_error (read_sub_buffer n c) e) (\<lambda>(p, c). k p c) = Ok r" "wf_cursor mem c"
  obtains p c' where "wf_cursor mem c'" "wf_cursor mem (p, n)" "length (view mem (p, n)) = unat n"
    "p = None \<longleftrightarrow> n = 0" "view mem c = view mem (p, n) @ view mem c'" "k p c' = Ok r"
proof -
  obtain p c' where "read_sub_buffer n c = Ok (p, c')" "k p c' = Ok r"
    using assms(1) by (auto simp: andthen_eq_Ok)
  with read_sub_buffer_OkD [OF assms(2) this(1)] show thesis by (intro that [of c' p])
qed

lemma read_elims_check [read_elims]:
  assumes "andthen (check b e) k = Ok r"
  obtains "\<not> b" "k () = Ok r"
  using assms by (auto simp: andthen_eq_Ok)

lemma read_elims_bytes_at [read_elims]:
  assumes "andthen (bytes_at mem p m) k = Ok r" "wf_cursor mem (p, n)" "m = unat n"
  obtains "p \<noteq> None" "k (view mem (p, n)) = Ok r"
  using assms bytes_at_view [OF assms(2)]
  by (cases p) (auto simp: andthen_eq_Ok bytes_at_def split: if_splits)

lemma check_end:
  "andthen (check (snd c \<noteq> 0) e) k = Ok r \<Longrightarrow> wf_cursor mem c \<Longrightarrow> view mem c = []"
  by (auto simp: andthen_eq_Ok view_Nil_iff)

text \<open>A vector of at most 127 bytes has a single-byte length.\<close>

lemma and_0x80_iff: "b AND 0x80 = (0 :: u8) \<longleftrightarrow> unat b < 128"
proof
  assume "b AND 0x80 = 0"
  from unat_ucast_less_128 [OF this] show "unat b < 128"
    by (simp add: unsigned_ucast_eq take_bit_nat_eq_self unat_bounds(1) [THEN less_trans])
next
  assume "unat b < 128"
  then have "take_bit 7 b = b"
    by (simp add: word_unat_eq_iff unsigned_take_bit_eq take_bit_nat_eq_self)
  then have "\<not> bit b 7" by (metis bit_take_bit_iff less_irrefl)
  have "b AND push_bit 7 w = 0" for w
  proof (rule bit_eqI)
    fix n assume "possible_bit TYPE(u8) n"
    then have "n < 8" by simp
    then have "n = 7" if "7 \<le> n" using that by simp
    then show "bit (b AND push_bit 7 w) n = bit 0 n"
      using \<open>\<not> bit b 7\<close> by (auto simp: bit_simps)
  qed
  from this [of 1] show "b AND 0x80 = 0" by (simp add: push_bit_eq_mult)
qed

lemma u16_of_u32_of_u8: "(ucast (ucast (b :: u8) :: u32) :: u16) = ucast b"
  by (intro bit_eqI) (auto simp: bit_simps)

lemma unat_u16_of_u8: "unat (ucast (b :: u8) :: u16) = unat b"
  by (simp add: unsigned_ucast_eq take_bit_nat_eq_self unat_bounds(1) [THEN less_trans])

lemma u8_of_unat: "of_nat (unat (b :: u8)) = b"
  by simp

lemma reads_serde_vec_u8:
  assumes "wf_cursor mem c" "view mem c = of_nat (length bs) # bs @ rest" "length bs < 128"
    and "\<And>p n c'. wf_cursor mem c' \<Longrightarrow> view mem c' = rest \<Longrightarrow> wf_cursor mem (p, n) \<Longrightarrow>
      view mem (p, n) = bs \<Longrightarrow> k (p, n) c' = r"
  shows "andthen (or_error (read_serde_vec_u8 mem c) e) (\<lambda>(v, c). k v c) = r"
proof -
  let ?n = "of_nat (length bs) :: u8"
  have n: "unat ?n = length bs" using assms(3) by (simp add: unat_of_nat)
  then have "?n AND 0x80 = 0" using assms(3) by (simp add: and_0x80_iff)
  moreover have "unat (ucast ?n :: u16) = length bs"
    using n by (simp only: unat_u16_of_u8)
  ultimately show ?thesis
    unfolding read_serde_vec_u8_def read_serde_uvarint_def flatten_simps u16_of_u32_of_u8
    apply simp
    apply (rule reads_u8 [OF assms(1,2)])
    apply (simp only: simp_thms check_simps andthen_simps)
    apply (rule reads_sub_buffer [where mem = mem and bs = bs and rest = rest], assumption, assumption)
     apply simp
    apply (simp add: assms(4))
    done
qed

lemma read_elims_serde_vec_u8:
  assumes "andthen (or_error (read_serde_vec_u8 mem c) e) (\<lambda>(v, c). k v c) = Ok r" "wf_cursor mem c"
  obtains p n bs c' where "wf_cursor mem c'" "length bs < 128" "wf_cursor mem (p, n)"
    "view mem (p, n) = bs" "view mem c = of_nat (length bs) # bs @ view mem c'" "k (p, n) c' = Ok r"
proof -
  show thesis
    apply (insert assms, unfold read_serde_vec_u8_def read_serde_uvarint_def flatten_simps u16_of_u32_of_u8)
    apply (elim read_elims, assumption)
    apply (erule read_elims_sub_buffer [where mem = mem], assumption)
    subgoal for b c' p c''
      apply (rule that [of c'' "view mem (p, ucast b)" p "ucast b"])
      by (simp_all only: and_0x80_iff unat_u16_of_u8 u8_of_unat append_Cons append_assoc not_not)
    done
qed

section \<open>Properties\<close>

text \<open>
  C39: The integer readers are one big-endian decoder at three widths: on a well-formed cursor they
  take exactly two, four or eight bytes and return the number these form, or fail when fewer
  remain; they never read outside the buffer, and every value is read back from its encoding.
\<close>

theorem integers_are_read_big_endian:
  assumes "wf_cursor mem c"
  shows "read_u16 mem c = (if 2 \<le> length (view mem c)
      then Ok (of_nat (be_val (take 2 (view mem c))), advance 2 c) else Err ()) \<and>
    read_u32 mem c = (if 4 \<le> length (view mem c)
      then Ok (of_nat (be_val (take 4 (view mem c))), advance 4 c) else Err ()) \<and>
    read_u64 mem c = (if 8 \<le> length (view mem c)
      then Ok (of_nat (be_val (take 8 (view mem c))), advance 8 c) else Err ()) \<and>
    (\<forall>x rest. view mem c = be_bytes 8 (unat x) @ rest \<longrightarrow> read_u64 mem c = Ok (x, advance 8 c))"
  using r16.read_eq [OF assms] r32.read_eq [OF assms] r64.read_eq [OF assms]
    r64.read_encoded [OF assms] by blast

theorem integers_are_read_big_endian_witness:
  "read_u32 [9, 0, 0, 1, 2, 5] (Some 1, 5) = Ok (258, (Some 5, 1))"
  using integers_are_read_big_endian [of "[9, 0, 0, 1, 2, 5]" "(Some 1, 5)"]
  by (simp add: be_val_def)

lemma read_u32s_run:
  assumes "wf_cursor mem c" "view mem c = concat (map (\<lambda>x. be_bytes 4 (unat x)) path) @ rest"
  shows "\<exists>c'. read_u32s (length path) mem c = Ok (path, c') \<and> wf_cursor mem c' \<and> view mem c' = rest"
  using assms
proof (induction path arbitrary: c)
  case (Cons x path)
  then have "view mem c = be_bytes 4 (unat x) @ concat (map (\<lambda>x. be_bytes 4 (unat x)) path) @ rest"
    by simp
  from r32.read_encoded [OF Cons.prems(1) this] Cons.IH [of "advance 4 c"] show ?case by auto
qed simp

lemma read_bip32_path_encoded:
  assumes "wf_cursor mem c" "1 \<le> length path" "length path \<le> MAX_BIP32_PATH_LENGTH"
    and "view mem c = of_nat (length path) # concat (map (\<lambda>x. be_bytes 4 (unat x)) path) @ rest"
  shows "\<exists>c'. read_bip32_path mem c = Ok ((path, of_nat (length path)), c') \<and> wf_cursor mem c' \<and> view mem c' = rest"
proof -
  let ?n = "of_nat (length path) :: u8"
  have n: "unat ?n = length path" using assms(3) by (simp add: unat_of_nat MAX_BIP32_PATH_LENGTH_def)
  have r8: "read_u8 mem c = Ok (?n, advance 1 c)" "wf_cursor mem (advance 1 c)"
      "view mem (advance 1 c) = concat (map (\<lambda>x. be_bytes 4 (unat x)) path) @ rest"
    using r8.read_prefix [OF assms(1), of "[?n]"] assms(4) by simp_all
  moreover have "\<not> (?n < 1 \<or> unat ?n > MAX_BIP32_PATH_LENGTH)"
    using assms(2,3) n by (auto simp: word_less_nat_alt)
  ultimately show ?thesis
    using read_u32s_run [OF r8(2,3)] n by (auto simp: read_bip32_path_def)
qed

lemma be_bytes_4:
  "be_bytes 4 n = [of_nat (n div 256 div 256 div 256), of_nat (n div 256 div 256), of_nat (n div 256), of_nat n]"
proof -
  have "(4 :: nat) = Suc (Suc (Suc (Suc 0)))" by simp
  then show ?thesis by (simp only: be_bytes.simps append.simps)
qed

text \<open>
  C40: Derivation paths. A path of 1 to 10 components, written as its length and its big-endian
  components, is read back as it is and exactly its bytes are used up; a length of 0 or above 10 is
  refused, so the components always fit the array of 10.
\<close>

theorem bip32_path_is_read_back:
  assumes "wf_cursor mem c"
  shows "(\<forall>path rest. view mem c = of_nat (length path) # concat (map (\<lambda>x. be_bytes 4 (unat x)) path) @ rest \<and>
        1 \<le> length path \<and> length path \<le> 10 \<longrightarrow>
      (\<exists>c'. read_bip32_path mem c = Ok ((path, of_nat (length path)), c') \<and> view mem c' = rest)) \<and>
    (\<forall>path n c'. read_bip32_path mem c = Ok ((path, n), c') \<longrightarrow>
      length path = unat n \<and> 1 \<le> length path \<and> length path \<le> MAX_BIP32_PATH_LENGTH)"
proof (intro conjI allI impI)
  fix path :: "u32 list" and rest
  assume a: "view mem c = of_nat (length path) # concat (map (\<lambda>x. be_bytes 4 (unat x)) path) @ rest \<and>
    1 \<le> length path \<and> length path \<le> 10"
  show "\<exists>c'. read_bip32_path mem c = Ok ((path, of_nat (length path)), c') \<and> view mem c' = rest"
    using read_bip32_path_encoded [OF assms, of path rest] a by (auto simp: MAX_BIP32_PATH_LENGTH_def)
next
  fix path n c'
  assume a: "read_bip32_path mem c = Ok ((path, n), c')"
  have "delivers (\<lambda>((path, n), c'). length path = unat n \<and> 1 \<le> length path \<and> length path \<le> MAX_BIP32_PATH_LENGTH)
      (read_bip32_path mem c)"
    using assms by (intro delivers_read_bip32_path) simp_all
  from deliversD [OF this a]
  show "length path = unat n" "1 \<le> length path" "length path \<le> MAX_BIP32_PATH_LENGTH" by simp_all
qed

theorem bip32_path_is_read_back_witness:
  "\<exists>c'. read_bip32_path [2, 128, 0, 0, 44, 0, 0, 0, 7, 1] (Some 0, 10) = Ok (([0x8000002C, 7], 2), c')"
proof -
  show ?thesis
    using bip32_path_is_read_back [THEN conjunct1, rule_format,
        of "[2, 128, 0, 0, 44, 0, 0, 0, 7, 1]" "(Some 0, 10)" "[0x8000002C, 7]" "[1]"]
    by (auto simp: be_bytes_4)
qed

end
