(* ===== verification/Base32.thy ===== *)
theory Base32
  imports Printing Buffer
begin

text \<open>
  \<^verbatim>\<open>src/src/base32.c\<close>: the base32 encoder behind user-friendly addresses. The C \<^verbatim>\<open>int\<close>
  that collects the input bits is never masked, so it is a 32-bit word here and its left shifts wrap.
  The lemmas compare the encoder with a specification by numbers: the printed digits are the
  base-32 digits of the big-endian number the bytes stand for.
\<close>

section \<open>The encoder\<close>

definition base32_alphabet :: string where
  "base32_alphabet = ''0123456789ABCDEFGHJKLMNPQRSTUVXY''"

definition byte_at :: "u8 list \<Rightarrow> nat \<Rightarrow> ('e, u8) result" where
  "byte_at data i = (if i < length data then Ok (data ! i) else Fault Out_of_bounds)"

text \<open>The refill at the head of the loop body: the next byte, or zero bits at the end.\<close>

definition base32_refill ::
    "u8 list \<Rightarrow> nat \<Rightarrow> u32 \<Rightarrow> nat \<Rightarrow> nat \<Rightarrow> (error_t, u32 \<times> nat \<times> nat) result" where
  "base32_refill data len buffer nxt bitsLeft =
     (if bitsLeft < 5 then
        if nxt < len then
          andthen (byte_at data nxt) (\<lambda>b.
          Ok (push_bit 8 buffer OR (ucast b AND 0xFF), nxt + 1, bitsLeft + 8))
        else let pad = 5 - bitsLeft in Ok (push_bit pad buffer, nxt, bitsLeft + pad)
      else Ok (buffer, nxt, bitsLeft))"

text \<open>
  The main loop. \<open>result\<close> holds the characters written so far, so \<^verbatim>\<open>count\<close> is its length; the loop
  condition keeps it within \<open>buf_size\<close>. It returns the characters and \<^verbatim>\<open>quantum\<close>.
\<close>

definition next_quantum :: "nat \<Rightarrow> nat" where
  "next_quantum quantum = (let quantum = quantum - 1 in if quantum = 0 then 8 else quantum)"

function base32_loop ::
    "u8 list \<Rightarrow> nat \<Rightarrow> nat \<Rightarrow> string \<Rightarrow> nat \<Rightarrow> u32 \<Rightarrow> nat \<Rightarrow> nat \<Rightarrow> (error_t, string \<times> nat) result" where
  "base32_loop data len buf_size result quantum buffer nxt bitsLeft =
     (if length result < buf_size \<and> (bitsLeft > 0 \<or> nxt < len) then
        andthen (base32_refill data len buffer nxt bitsLeft) (\<lambda>(buffer, nxt, bitsLeft).
          let index = 0x1F AND signed_drop_bit (bitsLeft - 5) buffer in
          base32_loop data len buf_size (result @ [base32_alphabet ! unat index])
            (next_quantum quantum) buffer nxt (bitsLeft - 5))
      else Ok (result, quantum))"
  by pat_completeness auto
termination
  by (relation "measure (\<lambda>(data, len, buf_size, result, _). buf_size - length result)") auto

declare base32_loop.simps [simp del]

text \<open>The padding loop, entered with \<^verbatim>\<open>quantum\<close> missing characters.\<close>

fun base32_pad :: "nat \<Rightarrow> nat \<Rightarrow> string \<Rightarrow> string" where
  "base32_pad 0 buf_size result = result"
| "base32_pad (Suc quantum) buf_size result =
     (if length result < buf_size then base32_pad quantum buf_size (result @ ''='') else result)"

definition base32_encode :: "u8 list \<Rightarrow> int \<Rightarrow> nat \<Rightarrow> (error_t, string) result" where
  "base32_encode data len buf_size =
     andthen (check (len < 0 \<or> len > 2 ^ 28) ERROR_INVALID_LENGTH) (\<lambda>_.
     andthen
       (if len > 0 then
          andthen (byte_at data 0) (\<lambda>b.
          andthen (base32_loop data (nat len) buf_size [] 8 (ucast b) 1 8) (\<lambda>(result, quantum).
          Ok (if quantum \<noteq> 8 then base32_pad quantum buf_size result else result)))
        else Ok []) (\<lambda>result.
     andthen (check (length result \<ge> buf_size) ERROR_INVALID_LENGTH) (\<lambda>_.
     Ok result)))"

section \<open>Specification by numbers\<close>

text \<open>The base-32 digits of a number, most significant first, \<open>k\<close> of them.\<close>

fun quintets :: "nat \<Rightarrow> nat \<Rightarrow> nat list" where
  "quintets 0 n = []"
| "quintets (Suc k) n = quintets k (n div 32) @ [n mod 32]"

definition base32_digits :: "u8 list \<Rightarrow> nat" where
  "base32_digits data = (8 * length data + 4) div 5"

definition base32_string :: "u8 list \<Rightarrow> string" where
  "base32_string data =
     (let k = base32_digits data
      in map (\<lambda>d. base32_alphabet ! d) (quintets k (be_val data * 2 ^ (5 * k - 8 * length data))))"

lemma length_quintets [simp]: "length (quintets k n) = k"
  by (induction k arbitrary: n) simp_all

lemma quintets_less: "d \<in> set (quintets k n) \<Longrightarrow> d < 32"
  by (induction k arbitrary: n) auto

lemma quintets_mod: "quintets k (n mod 32 ^ k) = quintets k n"
proof (induction k arbitrary: n)
  case (Suc k)
  have "n mod 32 ^ Suc k = 32 * (n div 32 mod 32 ^ k) + n mod 32"
    using mod_mult2_eq [of n 32 "32 ^ k"] by simp
  with Suc [of "n div 32"] show ?case by simp
qed simp

lemma quintets_inject:
  "m < 32 ^ k \<Longrightarrow> n < 32 ^ k \<Longrightarrow> quintets k m = quintets k n \<longleftrightarrow> m = n"
proof (induction k arbitrary: m n)
  case (Suc k)
  have "m div 32 < 32 ^ k" "n div 32 < 32 ^ k"
    using Suc.prems by (simp_all add: less_mult_imp_div_less mult.commute)
  then show ?case using Suc.IH by simp (metis div_mult_mod_eq)
qed simp

lemma alphabet_inject:
  "d < 32 \<Longrightarrow> e < 32 \<Longrightarrow> base32_alphabet ! d = base32_alphabet ! e \<longleftrightarrow> d = e"
proof -
  assume "d < 32" "e < 32"
  moreover have "distinct base32_alphabet" "length base32_alphabet = 32"
    by (simp_all add: base32_alphabet_def)
  ultimately show ?thesis by (simp add: nth_eq_iff_index_eq)
qed

lemma map_alphabet_inject:
  assumes "\<forall>d \<in> set xs. d < 32" "\<forall>d \<in> set ys. d < 32"
  shows "map (\<lambda>d. base32_alphabet ! d) xs = map (\<lambda>d. base32_alphabet ! d) ys \<longleftrightarrow> xs = ys"
  using assms
proof (induction xs arbitrary: ys)
  case (Cons x xs)
  then show ?case by (cases ys) (auto simp: alphabet_inject)
qed auto

lemma length_base32_string [simp]: "length (base32_string data) = base32_digits data"
  by (simp add: base32_string_def Let_def)

lemma base32_digits_bounds:
  "8 * length data \<le> 5 * base32_digits data" "5 * base32_digits data < 8 * length data + 5"
  unfolding base32_digits_def by linarith+

lemma base32_string_inject:
  assumes "length xs = length ys"
  shows "base32_string xs = base32_string ys \<longleftrightarrow> xs = ys"
proof
  assume eq: "base32_string xs = base32_string ys"
  let ?k = "base32_digits xs" and ?p = "5 * base32_digits xs - 8 * length xs"
  have k: "base32_digits ys = ?k" using assms by (simp add: base32_digits_def)
  have bound: "be_val zs * 2 ^ ?p < 32 ^ ?k" if "length zs = length xs" for zs
  proof -
    have "be_val zs * 2 ^ ?p < 256 ^ length zs * 2 ^ ?p"
      using be_val_less [of zs] by simp
    also have "\<dots> = 2 ^ (8 * length xs + ?p)"
      using that by (simp add: power_add power_mult)
    also have "8 * length xs + ?p = 5 * ?k"
      using base32_digits_bounds [of xs] by simp
    finally show ?thesis by (simp add: power_mult)
  qed
  have "quintets ?k (be_val xs * 2 ^ ?p) = quintets ?k (be_val ys * 2 ^ ?p)"
    using eq assms by (simp add: base32_string_def Let_def k map_alphabet_inject quintets_less)
  with bound [of xs] bound [of ys] assms have "be_val xs = be_val ys"
    by (simp add: quintets_inject)
  with assms show "xs = ys" by (rule be_val_inject)
qed simp

section \<open>The encoder meets the specification\<close>

lemma index_value:
  assumes "k + 5 \<le> 32"
  shows "unat (0x1F AND signed_drop_bit k (of_nat V :: u32)) = V div 2 ^ k mod 32"
proof -
  have m: "(0x1F :: u32) = mask 5" by (simp add: mask_eq_exp_minus_1)
  have "0x1F AND signed_drop_bit k (of_nat V :: u32) = take_bit 5 (drop_bit k (of_nat V))"
    using assms unfolding m by (intro bit_eqI) (auto simp: bit_simps min_def)
  then have "unat (0x1F AND signed_drop_bit k (of_nat V :: u32)) =
      take_bit 5 (drop_bit k (take_bit 32 V))"
    by (simp add: unsigned_take_bit_eq unsigned_drop_bit_eq unsigned_of_nat)
  also have "\<dots> = take_bit 5 (drop_bit k V)"
    using assms by (simp add: drop_bit_take_bit min_absorb1)
  finally show ?thesis by (simp add: take_bit_eq_mod drop_bit_eq_div)
qed

lemma refill_value:
  "push_bit 8 (of_nat V :: u32) OR (ucast (b :: u8) AND 0xFF) = of_nat (V * 256 + unat b)"
proof -
  have "0xFF = (mask 8 :: u32)" by (simp add: mask_eq_exp_minus_1)
  moreover have "ucast b AND mask 8 = (ucast b :: u32)"
    by (intro bit_eqI) (auto simp: bit_simps dest: bit_imp_le_length)
  ultimately have m: "ucast b AND 0xFF = (ucast b :: u32)" by (simp only:)
  have "push_bit 8 (of_nat V :: u32) AND ucast b = 0"
    by (rule bit_eqI) (auto simp: bit_simps dest: bit_imp_le_length)
  then have "push_bit 8 (of_nat V :: u32) OR ucast b = push_bit 8 (of_nat V) + ucast b"
    by (simp add: disjunctive_add_eq_or)
  also have "\<dots> = of_nat (V * 256 + unat b)"
    by (simp add: push_bit_eq_mult)
  finally show ?thesis by (simp only: m)
qed

lemma be_val_take_Suc: "i < length bs \<Longrightarrow> be_val (take (Suc i) bs) = be_val (take i bs) * 256 + unat (bs ! i)"
  by (simp add: take_Suc_conv_app_nth)

text \<open>
  One iteration with at least five bits in the buffer emits the next quintet of the number \<open>V\<close>.
\<close>

lemma quintet_step:
  assumes "5 \<le> b" "b \<le> 32" "i = 0x1F AND signed_drop_bit (b - 5) (of_nat V :: u32)"
  shows "quintets k (V div 2 ^ b) @ [unat i] = quintets (Suc k) (V div 2 ^ (b - 5))"
proof -
  have "(2 :: nat) ^ b = 2 ^ (b - 5) * 32"
    using power_add [of "2 :: nat" "b - 5" 5] assms(1) by simp
  then have "V div 2 ^ b = V div 2 ^ (b - 5) div 32" by (simp add: div_mult2_eq)
  moreover have "unat i = V div 2 ^ (b - 5) mod 32"
    unfolding assms(3) using assms(1,2) by (intro index_value) simp
  ultimately show ?thesis by simp
qed

lemma emit_step:
  assumes "5 \<le> b" "b \<le> 32" "i = 0x1F AND signed_drop_bit (b - 5) (of_nat V :: u32)"
    and "result = map (\<lambda>d. base32_alphabet ! d) (quintets (length result) (V div 2 ^ b))"
    and "result' = result @ [base32_alphabet ! unat i]"
  shows "result' =
    map (\<lambda>d. base32_alphabet ! d) (quintets (length result') (V div 2 ^ (b - 5)))"
proof -
  have "result' = map (\<lambda>d. base32_alphabet ! d) (quintets (length result) (V div 2 ^ b) @ [unat i])"
    using assms(4,5) by simp
  also have "quintets (length result) (V div 2 ^ b) @ [unat i] =
      quintets (length result') (V div 2 ^ (b - 5))"
    using quintet_step [OF assms(1-3), of "length result"] assms(5) by simp
  finally show ?thesis .
qed

lemma next_quantum_mod: "next_quantum (8 - k mod 8) = 8 - Suc k mod 8"
  by (auto simp: next_quantum_def mod_Suc)

lemma base32_loop_step:
  assumes "base32_refill data len buffer nxt bitsLeft = Ok (W, n, b)"
    and "length result < buf_size" "bitsLeft > 0 \<or> nxt < len"
  shows "base32_loop data len buf_size result quantum buffer nxt bitsLeft =
    base32_loop data len buf_size
      (result @ [base32_alphabet ! unat (0x1F AND signed_drop_bit (b - 5) W)])
      (next_quantum quantum) W n (b - 5)"
  using assms by (subst base32_loop.simps) (simp add: Let_def)

lemma base32_loop_done:
  "base32_loop data len buf_size result quantum buffer len 0 = Ok (result, quantum)"
  by (subst base32_loop.simps) simp

lemma base32_loop_result:
  assumes "nxt \<le> length data" "5 * length result + bitsLeft = 8 * nxt" "bitsLeft \<le> 8"
    and "buffer = of_nat (be_val (take nxt data))"
    and "result = map (\<lambda>d. base32_alphabet ! d)
      (quintets (length result) (be_val (take nxt data) div 2 ^ bitsLeft))"
    and "quantum = 8 - length result mod 8" "base32_digits data \<le> buf_size"
  shows "base32_loop data (length data) buf_size result quantum buffer nxt bitsLeft =
    Ok (base32_string data, 8 - base32_digits data mod 8)"
  using assms
proof (induction "base32_digits data - length result" arbitrary: result quantum buffer nxt bitsLeft
    rule: less_induct)
  case less
  note D = base32_digits_bounds [of data]
  let ?V = "be_val (take nxt data)" and ?a = "\<lambda>d. base32_alphabet ! d"
  consider (finished) "nxt = length data" "bitsLeft = 0"
    | (pad) "nxt = length data" "0 < bitsLeft" "bitsLeft < 5"
    | (refill) "nxt < length data" "bitsLeft < 5"
    | (emit) "5 \<le> bitsLeft"
    using less.prems(1) by linarith
  then show ?case
  proof cases
    case finished
    with less.prems(2) D have "length result = base32_digits data" by linarith
    with finished less.prems(2) have k: "length result = base32_digits data"
      "5 * base32_digits data = 8 * length data" by simp_all
    from finished have "base32_loop data (length data) buf_size result quantum buffer nxt bitsLeft =
        Ok (result, quantum)" by (simp only: base32_loop_done)
    moreover have "result = base32_string data"
      using less.prems(5) finished k by (simp add: base32_string_def)
    ultimately show ?thesis using less.prems(6) k by simp
  next
    case pad
    with less.prems(2) D have "Suc (length result) = base32_digits data" by linarith
    with pad less.prems(2) have k: "Suc (length result) = base32_digits data"
      "5 * base32_digits data - 8 * length data = 5 - bitsLeft" by linarith+
    let ?p = "5 - bitsLeft" and ?W = "be_val data * 2 ^ (5 - bitsLeft)"
    have W: "?V div 2 ^ bitsLeft = ?W div 2 ^ 5"
      using pad power_add [of "2 :: nat" bitsLeft ?p]
        div_mult_mult2 [of "2 ^ ?p" "be_val data" "2 ^ bitsLeft"] by simp
    have r: "base32_refill data (length data) buffer nxt bitsLeft = Ok (of_nat ?W, nxt, 5)"
      using pad less.prems(4) by (simp add: base32_refill_def push_bit_eq_mult)
    let ?r' = "result @ [?a (unat (0x1F AND signed_drop_bit (5 - 5) (of_nat ?W :: u32)))]"
    have "?r' = map ?a (quintets (length ?r') (?W div 2 ^ (5 - 5)))"
      using less.prems(5) [unfolded W] by (intro emit_step [OF _ _ refl _ refl]) simp_all
    also have "\<dots> = base32_string data"
      by (simp add: k base32_string_def Let_def)
    finally have "?r' = base32_string data" .
    moreover have "next_quantum quantum = 8 - base32_digits data mod 8"
      unfolding less.prems(6) next_quantum_mod k(1) ..
    moreover have "length result < buf_size" using k less.prems(7) by simp
    ultimately show ?thesis
      using base32_loop_step [OF r, of result buf_size quantum] pad
      by (simp only: base32_loop_done simp_thms diff_self_eq_0)
  next
    case refill
    let ?V' = "be_val (take (Suc nxt) data)"
    have V': "?V' = ?V * 256 + unat (data ! nxt)"
      using refill(1) by (rule be_val_take_Suc)
    have r: "base32_refill data (length data) buffer nxt bitsLeft = Ok (of_nat ?V', Suc nxt, bitsLeft + 8)"
      using refill less.prems(4) refill_value [of ?V "data ! nxt"]
      by (simp add: base32_refill_def byte_at_def V')
    have W: "?V div 2 ^ bitsLeft = ?V' div 2 ^ (bitsLeft + 8)"
      using unat_bounds(1) [of "data ! nxt"] V' by (simp add: power_add div_mult2_eq mult.commute [of _ 256])
    let ?r' = "result @ [?a (unat (0x1F AND signed_drop_bit (bitsLeft + 8 - 5) (of_nat ?V' :: u32)))]"
    have r': "?r' = map ?a (quintets (length ?r') (?V' div 2 ^ (bitsLeft + 8 - 5)))"
      using less.prems(3) less.prems(5) [unfolded W]
      by (intro emit_step [OF _ _ refl _ refl]) simp_all
    have len: "length result < base32_digits data"
      using refill less.prems(2) D by linarith
    have "base32_loop data (length data) buf_size ?r' (next_quantum quantum) (of_nat ?V') (Suc nxt)
        (bitsLeft + 8 - 5) = Ok (base32_string data, 8 - base32_digits data mod 8)"
      using refill less.prems(2,3,6,7) r' diff_less_mono2 [OF lessI len]
      by (intro less.hyps) (simp_all add: next_quantum_mod)
    then show ?thesis
      using base32_loop_step [OF r, of result buf_size quantum] refill len less.prems(7) by simp
  next
    case emit
    have r: "base32_refill data (length data) buffer nxt bitsLeft = Ok (of_nat ?V, nxt, bitsLeft)"
      using emit less.prems(4) by (simp add: base32_refill_def)
    let ?r' = "result @ [?a (unat (0x1F AND signed_drop_bit (bitsLeft - 5) (of_nat ?V :: u32)))]"
    have r': "?r' = map ?a (quintets (length ?r') (?V div 2 ^ (bitsLeft - 5)))"
      using emit less.prems(3,5) by (intro emit_step [OF _ _ refl _ refl]) simp_all
    have len: "length result < base32_digits data"
      using emit less.prems(1,2) D by linarith
    have "base32_loop data (length data) buf_size ?r' (next_quantum quantum) (of_nat ?V) nxt
        (bitsLeft - 5) = Ok (base32_string data, 8 - base32_digits data mod 8)"
      using emit less.prems(1,2,3,6,7) r' diff_less_mono2 [OF lessI len]
      by (intro less.hyps) (simp_all add: next_quantum_mod)
    then show ?thesis
      using base32_loop_step [OF r, of result buf_size quantum] emit len less.prems(7) by simp
  qed
qed

text \<open>The padding to a multiple of eight characters.\<close>

definition base32_padding :: "u8 list \<Rightarrow> string" where
  "base32_padding data = replicate ((8 - base32_digits data mod 8) mod 8) CHR ''=''"

lemma base32_pad_result:
  "length result + q \<le> buf_size \<Longrightarrow> base32_pad q buf_size result = result @ replicate q CHR ''=''"
  by (induction q buf_size result rule: base32_pad.induct) simp_all

lemma base32_encode_eq:
  assumes "length data \<le> 2 ^ 28" "base32_digits data + length (base32_padding data) < buf_size"
  shows "base32_encode data (int (length data)) buf_size = Ok (base32_string data @ base32_padding data)"
proof (cases "data = []")
  case True
  with assms show ?thesis
    by (simp add: base32_encode_def base32_string_def base32_digits_def base32_padding_def check_def)
next
  case False
  then have b: "be_val (take 1 data) = unat (data ! 0)"
    by (cases data) simp_all
  have "base32_loop data (length data) buf_size [] 8 (ucast (data ! 0)) 1 8 =
      Ok (base32_string data, 8 - base32_digits data mod 8)"
    using False assms(2) unat_bounds(1) [of "data ! 0"] b
    by (intro base32_loop_result) (auto simp: Suc_le_eq)
  then show ?thesis
    using False assms
    by (auto simp: base32_encode_def byte_at_def base32_padding_def check_def base32_pad_result)
qed

text \<open>Twenty bytes, the length of an address, need no padding.\<close>

lemma base32_encode_address:
  assumes "length data = 20"
  shows "base32_encode data 20 33 = Ok (base32_string data)"
    and "length (base32_string data) = 32" "set (base32_string data) \<subseteq> set base32_alphabet"
proof -
  have k: "base32_digits data = 32" using assms by (simp add: base32_digits_def)
  then have p: "base32_padding data = []" by (simp add: base32_padding_def)
  show "base32_encode data 20 33 = Ok (base32_string data)"
    using base32_encode_eq [of data 33] assms k p by simp
  show "length (base32_string data) = 32" using k by simp
  have "base32_alphabet ! d \<in> set base32_alphabet" if "d < 32" for d
    using that by (intro nth_mem) (simp add: base32_alphabet_def)
  then show "set (base32_string data) \<subseteq> set base32_alphabet"
    using quintets_less by (fastforce simp: base32_string_def Let_def)
qed

section \<open>Properties\<close>

text \<open>
  C35: The bit-shifting encoder is positional notation: it writes the number that the bytes form,
  big endian, in base 32 with the alphabet as digits, padded to whole digits and with the padding
  characters of the standard; for every input up to the length limit and every buffer with room.
\<close>

theorem base32_is_positional_notation:
  assumes "length data \<le> 2 ^ 28" "base32_digits data + length (base32_padding data) < buf_size"
  shows "base32_encode data (int (length data)) buf_size = Ok (base32_string data @ base32_padding data)"
  using assms by (rule base32_encode_eq)

theorem base32_is_positional_notation_witness:
  "base32_encode [255, 1] 2 10 = Ok (base32_string [255, 1] @ ''===='')"
proof -
  have k: "base32_digits [255, 1] = 4" by (simp add: base32_digits_def)
  have "replicate 4 c = [c, c, c, c]" for c :: char by (simp add: numeral_eq_Suc)
  then have p: "base32_padding [255, 1] = ''===='' " by (simp add: base32_padding_def k)
  show ?thesis
    using base32_is_positional_notation [of "[255, 1]" 10] by (simp add: k p)
qed

text \<open>C36: The encoding of data of a given length determines the data.\<close>

theorem base32_determines_data:
  assumes "length xs = length ys" "length ys \<le> 2 ^ 28"
    and "base32_digits xs + length (base32_padding xs) < buf_size"
    and "base32_encode xs (int (length xs)) buf_size = base32_encode ys (int (length ys)) buf_size"
  shows "xs = ys"
proof -
  have "base32_digits xs = base32_digits ys" "base32_padding xs = base32_padding ys"
    using assms(1) by (simp_all add: base32_digits_def base32_padding_def)
  then have "base32_string xs = base32_string ys"
    using assms base32_encode_eq [of xs buf_size] base32_encode_eq [of ys buf_size] by simp
  then show ?thesis using base32_string_inject [OF assms(1)] by simp
qed

theorem base32_determines_data_witness:
  "base32_encode [255] 1 10 \<noteq> base32_encode [254] 1 10"
  using base32_determines_data [of "[255]" "[254]" 10]
  by (auto simp: base32_digits_def base32_padding_def)

end
