(* ===== verification/Address.thy ===== *)
theory Address
  imports Base32
begin

text \<open>
  Addresses: \<^verbatim>\<open>iban_check\<close>, \<^verbatim>\<open>print_address\<close>, \<^verbatim>\<open>public_key_to_address\<close> and
  \<^verbatim>\<open>print_public_key_as_address\<close> of \<^verbatim>\<open>src/src/nimiq_utils.c\<close>. The BLAKE2b hash of the device's
  library is the parameter \<open>blake2b\<close>; \<open>None\<close> is a failure of the library.

  The lemmas show that the check digits make the IBAN remainder 1 modulo 97, that the piecewise
  remainder computation equals the remainder of the whole number, that no array bound is exceeded
  except for one read past \<^verbatim>\<open>total_number\<close>, which happens in every call and whose value does not
  matter, and that a printed address determines the address.
\<close>

section \<open>iban_check\<close>

definition code_of :: "char \<Rightarrow> nat" where
  "code_of c = of_char c"

text \<open>The conversion to a number-only string, with \<^verbatim>\<open>counter\<close> the next index of \<^verbatim>\<open>total_number\<close>.\<close>

fun iban_to_number :: "string \<Rightarrow> nat \<Rightarrow> string \<Rightarrow> (error_t, string) result" where
  "iban_to_number [] counter total_number = Ok total_number"
| "iban_to_number (c # address) counter total_number =
     andthen (ledger_assert (counter < 70)) (\<lambda>_.
     if code_of c \<ge> 48 \<and> code_of c \<le> 57 then
       andthen (poke counter [c] total_number) (iban_to_number address (counter + 1))
     else if code_of c \<ge> 65 \<and> code_of c \<le> 90 then
       andthen (snprintf_at counter 3 (dec (code_of c - 55)) total_number)
         (iban_to_number address (counter + 2))
     else if code_of c \<ge> 97 \<and> code_of c \<le> 122 then
       andthen (snprintf_at counter 3 (dec (code_of c - 87)) total_number)
         (iban_to_number address (counter + 2))
     else Err ERROR_INCORRECT_DATA)"

text \<open>The inner loop over \<^verbatim>\<open>partial_number\<close>, which stops at a string terminator.\<close>

fun partial_value :: "int \<Rightarrow> string \<Rightarrow> int" where
  "partial_value partial_uint [] = partial_uint"
| "partial_value partial_uint (c # cs) =
     (if c \<noteq> NUL then partial_value (10 * partial_uint + (int (code_of c) - 48)) cs
      else partial_uint)"

text \<open>Reading \<open>n\<close> characters of an array from an index on.\<close>

definition peek :: "nat \<Rightarrow> nat \<Rightarrow> string \<Rightarrow> ('e, string) result" where
  "peek i n arr = (if i + n \<le> length arr then Ok (take n (drop i arr)) else Fault Out_of_bounds)"

text \<open>
  The modulo loop, with the number of remaining iterations. \<^verbatim>\<open>memory\<close> is \<^verbatim>\<open>total_number\<close> followed by
  the bytes behind it in memory.
\<close>

fun iban_modulo ::
    "nat \<Rightarrow> string \<Rightarrow> string \<Rightarrow> nat \<Rightarrow> nat \<Rightarrow> nat \<Rightarrow> (error_t, nat) result" where
  "iban_modulo 0 memory partial_number counter offset mod97 = Ok mod97"
| "iban_modulo (Suc n) memory partial_number counter offset mod97 =
     andthen (peek counter (9 - offset) memory) (\<lambda>piece.
     andthen (poke offset piece partial_number) (\<lambda>partial_number.
     let mod97 = nat (partial_value 0 (take 9 partial_number) mod 97) in
     andthen (snprintf_at 0 3 (dec02 mod97) partial_number) (\<lambda>partial_number.
     iban_modulo n memory partial_number (counter + (9 - offset)) 2 mod97)))"

text \<open>
  The last iteration copies \<^verbatim>\<open>total_number[65]\<close> to \<^verbatim>\<open>total_number[71]\<close>, one character past the
  array. The parameter says what is there: with \<open>None\<close> the array ends where C declares it to end and
  the read is a fault like every other one outside an array; with \<open>Some c\<close> the byte behind the array
  can be read and holds \<open>c\<close>.
\<close>

definition iban_check_mem :: "char option \<Rightarrow> string \<Rightarrow> (error_t, string) result" where
  "iban_check_mem beyond base32 =
     andthen (peek 0 (min 36 32) base32) (\<lambda>base32.
     andthen (iban_to_number (base32 @ ''NQ00'') 0 (replicate 71 NUL)) (\<lambda>total_number.
     let memory = total_number @ (case beyond of None \<Rightarrow> [] | Some c \<Rightarrow> [c]) in
     andthen (iban_modulo 10 memory (replicate 10 NUL) 0 0 0) (\<lambda>mod97.
     Ok (snprintf 3 (dec02 (98 - mod97))))))"

text \<open>
  With the bounds of the array every call would end in a fault (\<open>iban_check_None\<close> below). The rest of
  the development therefore takes that one byte to be readable. Its content is then irrelevant
  (\<open>iban_check_Some\<close>); \<open>iban_check\<close> takes it to be zero.
\<close>

definition iban_check :: "string \<Rightarrow> (error_t, string) result" where
  "iban_check = iban_check_mem (Some NUL)"

section \<open>Addresses\<close>

text \<open>The loop that inserts the spaces, from group \<open>i\<close> on with \<open>n\<close> groups left.\<close>

fun address_groups :: "string \<Rightarrow> nat \<Rightarrow> nat \<Rightarrow> string" where
  "address_groups after_base32 i 0 = []"
| "address_groups after_base32 i (Suc n) =
     '' '' @ take 4 (drop (i * 4) after_base32) @ address_groups after_base32 (Suc i) n"

definition print_address :: "u8 list \<Rightarrow> (error_t, string) result" where
  "print_address addr =
     andthen (base32_encode addr 20 33) (\<lambda>after_base32.
     andthen (iban_check after_base32) (\<lambda>check_digits.
     Ok (''NQ'' @ check_digits @ address_groups after_base32 0 8)))"

definition public_key_to_address ::
    "(u8 list \<Rightarrow> u8 list option) \<Rightarrow> u8 list \<Rightarrow> (error_t, u8 list) result" where
  "public_key_to_address blake2b public_key =
     (case blake2b public_key of
        None \<Rightarrow> Err ERROR_CRYPTOGRAPHY
      | Some blake2b_hash \<Rightarrow> Ok (take 20 blake2b_hash))"

definition print_public_key_as_address ::
    "(u8 list \<Rightarrow> u8 list option) \<Rightarrow> u8 list \<Rightarrow> (error_t, string) result" where
  "print_public_key_as_address blake2b public_key =
     andthen (public_key_to_address blake2b public_key) (\<lambda>address.
     andthen (print_address address) (\<lambda>s. Ok s))"

section \<open>Specification of the check\<close>

text \<open>
  The IBAN number of a text: letters stand for two digits, A for 10 up to Z for 35; the remainder
  modulo 97 of the decimal number is what validation looks at.
\<close>

definition iban_digits :: "string \<Rightarrow> string" where
  "iban_digits s = concat (map (\<lambda>c. if is_digit c then [c] else dec (code_of c - 55)) s)"

definition iban_remainder :: "string \<Rightarrow> nat" where
  "iban_remainder s = dec_val (iban_digits s) mod 97"

text \<open>An address text is valid if its country code and check digits moved to the end leave 1.\<close>

definition iban_valid :: "string \<Rightarrow> bool" where
  "iban_valid s = (let t = filter (\<lambda>c. c \<noteq> CHR '' '') s in iban_remainder (drop 4 t @ take 4 t) = 1)"

definition is_upper_alnum :: "char \<Rightarrow> bool" where
  "is_upper_alnum c = (is_digit c \<or> (65 \<le> code_of c \<and> code_of c \<le> 90))"

lemma is_upper_alnum_alphabet: "c \<in> set base32_alphabet \<Longrightarrow> is_upper_alnum c"
  by (auto simp: base32_alphabet_def is_upper_alnum_def is_digit_def code_of_def)

lemma iban_digits_simps [simp]:
  "iban_digits [] = []"
  "iban_digits (c # s) = (if is_digit c then [c] else dec (code_of c - 55)) @ iban_digits s"
  "iban_digits (s @ t) = iban_digits s @ iban_digits t"
  by (simp_all add: iban_digits_def)

lemma two_digits: "10 \<le> n \<Longrightarrow> n < 100 \<Longrightarrow> length (dec n) = 2"
  by (simp add: dec_big dec_small)

lemma iban_digits_digits:
  "\<forall>c \<in> set s. is_upper_alnum c \<Longrightarrow> \<forall>c \<in> set (iban_digits s). is_digit c"
  using dec_digits by (induction s) auto

lemma length_iban_digits:
  "\<forall>c \<in> set s. is_upper_alnum c \<Longrightarrow> length (iban_digits s) \<le> 2 * length s"
proof (induction s)
  case (Cons c s)
  then show ?case by (auto simp: is_upper_alnum_def two_digits)
qed simp

lemma iban_digits_all_digits: "\<forall>c \<in> set s. is_digit c \<Longrightarrow> iban_digits s = s"
  by (induction s) simp_all

section \<open>The conversion\<close>

lemma poke_middle:
  "length pre = i \<Longrightarrow> length mid = length cs \<Longrightarrow>
   poke i cs (pre @ mid @ post) = Ok (pre @ cs @ post)"
  by (auto simp: poke_def)

lemma poke_replicate:
  assumes "length pre = i" "length cs + k \<le> n"
  shows "poke i (cs @ replicate k NUL) (pre @ replicate n NUL) =
    Ok (pre @ cs @ replicate (n - length cs) NUL)"
  using assms by (auto simp: poke_def replicate_add [symmetric])

lemma iban_to_number_digit:
  assumes "is_digit c" "length pre < 70"
  shows "iban_to_number (c # s) (length pre) (pre @ replicate (71 - length pre) NUL) =
    iban_to_number s (length (pre @ [c])) ((pre @ [c]) @ replicate (71 - length (pre @ [c])) NUL)"
proof -
  have fits: "length [c] + 0 \<le> 71 - length pre" using assms(2) by simp
  with assms show ?thesis
    by (simp add: is_digit_def code_of_def poke_replicate [OF refl fits, simplified])
qed

lemma iban_to_number_letter:
  assumes "65 \<le> code_of c" "code_of c \<le> 90" "length pre < 69"
  shows "iban_to_number (c # s) (length pre) (pre @ replicate (71 - length pre) NUL) =
    iban_to_number s (length (pre @ dec (code_of c - 55)))
      ((pre @ dec (code_of c - 55)) @ replicate (71 - length (pre @ dec (code_of c - 55))) NUL)"
proof -
  have d: "length (dec (code_of c - 55)) = 2" using assms by (intro two_digits) simp_all
  with assms have fits: "length (dec (code_of c - 55)) + 1 \<le> 71 - length pre" by simp
  with assms d show ?thesis
    by (simp add: snprintf_at_def snprintf_def poke_replicate [OF refl fits, simplified])
qed

text \<open>
  From any point on, the digits of the remaining characters are appended; the terminators that
  \<^verbatim>\<open>snprintf\<close> writes fall on characters that are still zero.
\<close>

lemma iban_to_number_result:
  assumes "\<forall>c \<in> set s. is_upper_alnum c" "length pre + 2 * length s \<le> 68"
  shows "iban_to_number (s @ ''00'') (length pre) (pre @ replicate (71 - length pre) NUL) =
    Ok (pre @ iban_digits s @ ''00'' @ replicate (69 - length pre - length (iban_digits s)) NUL)"
  using assms
proof (induction s arbitrary: pre)
  case Nil
  have 0: "is_digit CHR ''0''" by (simp add: is_digit_def)
  show ?case
    using Nil iban_to_number_digit [OF 0, of pre "''0''"] iban_to_number_digit [OF 0, of "pre @ ''0''" "[]"]
    by simp
next
  case (Cons c s)
  show ?case
  proof (cases "is_digit c")
    case True
    then show ?thesis
      using Cons.IH [of "pre @ [c]"] Cons.prems iban_to_number_digit [OF True, of pre "s @ ''00''"]
      by simp
  next
    case False
    with Cons.prems have up: "65 \<le> code_of c" "code_of c \<le> 90"
      by (auto simp: is_upper_alnum_def)
    then have "length (dec (code_of c - 55)) = 2" by (intro two_digits) simp_all
    then show ?thesis
      using Cons.IH [of "pre @ dec (code_of c - 55)"] Cons.prems False
        iban_to_number_letter [OF up, of pre "s @ ''00''"]
      by simp
  qed
qed

section \<open>The piecewise remainder\<close>

lemma partial_value_digits:
  assumes "\<forall>c \<in> set cs. is_digit c" "z = [] \<or> hd z = NUL"
  shows "partial_value (int p) (cs @ z) = int (p * 10 ^ length cs + dec_val cs)"
  using assms
proof (induction cs arbitrary: p)
  case Nil
  then show ?case by (cases z) simp_all
next
  case (Cons c cs)
  then have c: "48 \<le> code_of c" "c \<noteq> NUL"
    by (auto simp: is_digit_def code_of_def NUL_def)
  then have eq: "10 * int p + (int (code_of c) - 48) = int (p * 10 + (code_of c - 48))" by simp
  have "dec_val (c # cs) = (code_of c - 48) * 10 ^ length cs + dec_val cs"
    using dec_val_append [of "[c]" cs] by (simp add: code_of_def)
  then show ?case
    using Cons.IH [of "p * 10 + (code_of c - 48)"] Cons.prems c(2)
    by (simp only: partial_value.simps append_Cons eq list.set list.size insert_iff ball_simps
        if_True simp_thms) (simp add: algebra_simps)
qed

lemma dec02_digits:
  assumes "n < 100"
  shows "length (dec02 n) = 2" "\<forall>c \<in> set (dec02 n). is_digit c" "dec_val (dec02 n) = n"
proof -
  show "length (dec02 n) = 2" using assms by (auto simp: dec02_def dec_small two_digits)
  show "\<forall>c \<in> set (dec02 n). is_digit c" using dec_digits [of n] by (auto simp: dec02_def is_digit_def)
  show "dec_val (dec02 n) = n"
    using dec_val_append [of "[digit_char 0]" "dec n"] by (simp add: dec02_def)
qed

text \<open>A piece of the number: its digits, followed by nothing or by a terminator.\<close>

lemma number_piece:
  assumes "length ds \<le> 70" "counter \<le> 70"
  obtains z where "take w (drop counter (ds @ replicate (71 - length ds) NUL @ [beyond])) =
      take w (drop counter ds) @ z" "z = [] \<or> hd z = NUL"
proof -
  let ?z = "take (w - length (drop counter ds))
    (drop (counter - length ds) (replicate (71 - length ds) NUL @ [beyond]))"
  have "71 - length ds - (counter - length ds) = Suc (70 - length ds - (counter - length ds))"
    using assms by linarith
  then have "drop (counter - length ds) (replicate (71 - length ds) NUL @ [beyond]) =
      NUL # replicate (70 - length ds - (counter - length ds)) NUL @ [beyond]"
    by (simp only: drop_append drop_replicate length_replicate replicate_Suc append_Cons)
       (simp add: assms)
  then have "?z = [] \<or> hd ?z = NUL"
    by (cases "w - length (drop counter ds)") simp_all
  then show thesis by (intro that [of ?z]) simp_all
qed

lemma mod97_append:
  "(dec_val s :: nat) mod 97 = dec_val t mod 97 \<Longrightarrow> dec_val (s @ u) mod 97 = dec_val (t @ u) mod 97"
  unfolding dec_val_append by (metis mod_add_left_eq mod_mult_left_eq)

lemma iban_modulo_step:
  assumes "length ds \<le> 70" "\<forall>c \<in> set ds. is_digit c" "counter + (9 - offset) \<le> 72" "counter \<le> 70"
    and "length pre = offset" "offset \<le> 2" "length rest = 10 - offset" "\<forall>c \<in> set pre. is_digit c"
    and "dec_val pre mod 97 = dec_val (take counter ds) mod 97"
    and M: "M = dec_val (take (counter + (9 - offset)) ds) mod 97"
  obtains rest' where "length rest' = 8"
    "iban_modulo (Suc n) (ds @ replicate (71 - length ds) NUL @ [beyond]) (pre @ rest) counter offset m =
     iban_modulo n (ds @ replicate (71 - length ds) NUL @ [beyond]) (dec02 M @ rest')
       (counter + (9 - offset)) 2 M"
proof -
  define mem where "mem = ds @ replicate (71 - length ds) NUL @ [beyond]"
  define piece where "piece = take (9 - offset) (drop counter mem)"
  define cs where "cs = pre @ take (9 - offset) (drop counter ds)"
  obtain z where z: "piece = take (9 - offset) (drop counter ds) @ z" "z = [] \<or> hd z = NUL"
    unfolding piece_def mem_def by (rule number_piece [OF assms(1,4)])
  have mem: "length mem = 72" using assms(1) by (simp add: mem_def)
  then have len: "length piece = 9 - offset"
    using assms(3) by (simp add: piece_def)
  have peek: "peek counter (9 - offset) mem = (Ok piece :: (error_t, string) result)"
    using assms(3) mem by (simp only: peek_def if_True piece_def)
  obtain mid x where rest: "rest = mid @ [x]"
    using assms(6,7) by (cases rest rule: rev_cases) simp_all
  then have mid: "length mid = 9 - offset" using assms(6,7) by simp
  have poke: "poke offset piece (pre @ rest) = (Ok (pre @ piece @ [x]) :: (error_t, string) result)"
    unfolding rest by (intro poke_middle) (simp_all only: assms(5) mid len)
  have nine: "take 9 (pre @ piece @ [x]) = cs @ z"
    using assms(5,6) len z(1) by (simp add: cs_def)
  have digits: "\<forall>c \<in> set cs. is_digit c"
    using assms(2,8) by (auto simp: cs_def dest!: in_set_takeD in_set_dropD)
  have "partial_value 0 (cs @ z) = int (dec_val cs)"
    using partial_value_digits [OF digits z(2), of 0] by simp
  moreover have "dec_val cs mod 97 = M"
    using mod97_append [OF assms(9)] M by (simp add: cs_def take_add)
  ultimately have M': "nat (partial_value 0 (take 9 (pre @ piece @ [x])) mod 97) = M"
    unfolding nine by (simp add: nat_mod_as_int)
  have "M < 100" using M by simp
  note D = dec02_digits [OF this]
  define rest' where "rest' = NUL # drop 3 (pre @ piece @ [x])"
  have len': "length (pre @ piece @ [x]) = 10" using len assms(5,6) by simp
  have "snprintf_at 0 3 (dec02 M) (pre @ piece @ [x]) = (Ok (dec02 M @ rest') :: (error_t, string) result)"
    unfolding snprintf_at_def poke_def snprintf_def rest'_def using len' D(1) by simp
  then have "iban_modulo (Suc n) mem (pre @ rest) counter offset m =
      iban_modulo n mem (dec02 M @ rest') (counter + (9 - offset)) 2 M"
    by (simp only: iban_modulo.simps peek poke M' andthen_simps Let_def)
  moreover have "length rest' = 8" using len' by (simp add: rest'_def)
  ultimately show thesis by (intro that [of rest']) (simp_all only: mem_def)
qed

text \<open>Nine more iterations after the first: the counter moves past the end of the number.\<close>

lemma iban_modulo_rest:
  assumes "length ds \<le> 70" "\<forall>c \<in> set ds. is_digit c" "counter + 7 * n = 72"
    and "length rest = 8" "m = dec_val (take counter ds) mod 97"
  shows "iban_modulo n (ds @ replicate (71 - length ds) NUL @ [beyond]) (dec02 m @ rest) counter 2 m =
    Ok (dec_val ds mod 97)"
  using assms
proof (induction n arbitrary: counter rest m)
  case 0
  then show ?case by simp
next
  case (Suc n)
  have "m < 100" using Suc.prems(5) by simp
  note D = dec02_digits [OF this]
  let ?M = "dec_val (take (counter + 7) ds) mod 97"
  have pre: "dec_val (dec02 m) mod 97 = dec_val (take counter ds) mod 97"
    using D(3) Suc.prems(5) by simp
  obtain rest' where "length rest' = 8"
    "iban_modulo (Suc n) (ds @ replicate (71 - length ds) NUL @ [beyond]) (dec02 m @ rest) counter 2 m =
     iban_modulo n (ds @ replicate (71 - length ds) NUL @ [beyond]) (dec02 ?M @ rest') (counter + 7) 2 ?M"
    using iban_modulo_step [of ds counter 2 "dec02 m" rest ?M n beyond m] Suc.prems D pre by auto
  with Suc.IH [of "counter + 7" rest' ?M] Suc.prems show ?case by simp
qed

lemma iban_modulo_result:
  assumes "length ds \<le> 70" "\<forall>c \<in> set ds. is_digit c"
  shows "iban_modulo 10 (ds @ replicate (71 - length ds) NUL @ [beyond]) (replicate 10 NUL) 0 0 0 =
    Ok (dec_val ds mod 97)"
proof -
  let ?M = "dec_val (take 9 ds) mod 97"
  obtain rest' where "length rest' = 8"
    "iban_modulo (Suc 9) (ds @ replicate (71 - length ds) NUL @ [beyond]) ([] @ replicate 10 NUL) 0 0 0 =
     iban_modulo 9 (ds @ replicate (71 - length ds) NUL @ [beyond]) (dec02 ?M @ rest') 9 2 ?M"
    using iban_modulo_step [of ds 0 0 "[]" "replicate 10 NUL" ?M 9 beyond 0] assms by auto
  then show ?thesis
    using iban_modulo_rest [OF assms, of 9 9 rest' ?M beyond] by simp
qed

section \<open>What iban\_check and print\_address return\<close>

definition check_digits :: "string \<Rightarrow> string" where
  "check_digits s = dec02 (98 - iban_remainder (s @ ''NQ00''))"

lemma iban_number:
  assumes "length s = 32" "\<forall>c \<in> set s. is_upper_alnum c"
  obtains ds where "length ds \<le> 70" "\<forall>c \<in> set ds. is_digit c" "iban_digits (s @ ''NQ00'') = ds"
    "iban_to_number (s @ ''NQ00'') 0 (replicate 71 NUL) = Ok (ds @ replicate (71 - length ds) NUL)"
proof -
  let ?t = "s @ ''NQ''" and ?ds = "iban_digits (s @ ''NQ'') @ ''00''"
  have t: "\<forall>c \<in> set ?t. is_upper_alnum c" "length ?t = 34"
    using assms by (simp_all add: is_upper_alnum_def code_of_def)
  have ds: "length ?ds \<le> 70" "\<forall>c \<in> set ?ds. is_digit c" "iban_digits (s @ ''NQ00'') = ?ds"
    using length_iban_digits [OF t(1)] iban_digits_digits [OF t(1)] t(2)
    by (simp_all add: is_digit_def)
  have "iban_to_number (?t @ ''00'') 0 (replicate 71 NUL) = Ok (?ds @ replicate (71 - length ?ds) NUL)"
    using iban_to_number_result [of ?t "[]"] t by simp
  moreover have "?t @ ''00'' = s @ ''NQ00''" by simp
  ultimately have number: "iban_to_number (s @ ''NQ00'') 0 (replicate 71 NUL) =
      Ok (?ds @ replicate (71 - length ?ds) NUL)" by metis
  show thesis by (rule that [OF ds number])
qed

lemma iban_check_Some:
  assumes "length s = 32" "\<forall>c \<in> set s. is_upper_alnum c"
  shows "iban_check_mem (Some beyond) s = Ok (check_digits s)"
proof -
  obtain ds where ds: "length ds \<le> 70" "\<forall>c \<in> set ds. is_digit c" "iban_digits (s @ ''NQ00'') = ds"
    and number: "iban_to_number (s @ ''NQ00'') 0 (replicate 71 NUL) = Ok (ds @ replicate (71 - length ds) NUL)"
    using iban_number [OF assms] .
  have "length (dec02 (98 - dec_val ds mod 97)) = 2" by (rule dec02_digits) simp
  then show ?thesis
    using iban_modulo_result [OF ds(1,2)] number assms(1)
    by (simp add: iban_check_mem_def peek_def check_digits_def iban_remainder_def ds(3) snprintf_def
        del: iban_digits_simps)
qed

text \<open>
  With the array alone, the last round faults, whatever is in the array: nine rounds move the counter
  to 65, and only six of the seven characters copied next are in the array.
\<close>

lemma iban_modulo_round:
  assumes "counter + (9 - offset) \<le> length memory" "length partial_number = 10" "offset \<le> 2"
  obtains partial_number' m where "length partial_number' = 10"
    "iban_modulo (Suc n) memory partial_number counter offset mod97 =
     iban_modulo n memory partial_number' (counter + (9 - offset)) 2 m"
proof -
  define piece where "piece = take (9 - offset) (drop counter memory)"
  define part where "part = take offset partial_number @ piece @ drop 9 partial_number"
  define M where "M = nat (partial_value 0 (take 9 part) mod 97)"
  have len: "length piece = 9 - offset" "length part = 10"
    using assms by (simp_all add: piece_def part_def)
  have "peek counter (9 - offset) memory = (Ok piece :: (error_t, string) result)"
    using assms(1) by (simp add: peek_def piece_def)
  moreover have "poke offset piece partial_number = (Ok part :: (error_t, string) result)"
    using assms(2,3) len(1) by (simp add: poke_def part_def)
  moreover have "M < 100" by (simp add: M_def nat_less_iff)
  from dec02_digits(1) [OF this]
  have "snprintf_at 0 3 (dec02 M) part = (Ok (dec02 M @ NUL # drop 3 part) :: (error_t, string) result)"
    using len(2) by (simp add: snprintf_at_def snprintf_def poke_def)
  ultimately have "iban_modulo (Suc n) memory partial_number counter offset mod97 =
      iban_modulo n memory (dec02 M @ NUL # drop 3 part) (counter + (9 - offset)) 2 M"
    by (simp only: iban_modulo.simps andthen_simps Let_def M_def)
  moreover have "length (dec02 M @ NUL # drop 3 part) = 10"
    using len(2) dec02_digits(1) [OF \<open>M < 100\<close>] by simp
  ultimately show thesis by (intro that)
qed

lemma iban_modulo_fault:
  assumes "length memory = 71" "length partial_number = 10" "counter + 7 * Suc n = 72"
  shows "iban_modulo (Suc n) memory partial_number counter 2 mod97 = Fault Out_of_bounds"
  using assms
proof (induction n arbitrary: counter partial_number mod97)
  case 0
  then show ?case by (simp add: peek_def)
next
  case (Suc n)
  then have "counter + (9 - 2) \<le> length memory" by simp
  from iban_modulo_round [OF this Suc.prems(2) order_refl, of "Suc n" mod97]
  obtain partial_number' m where part: "length partial_number' = 10"
    and run: "iban_modulo (Suc (Suc n)) memory partial_number counter 2 mod97 =
     iban_modulo (Suc n) memory partial_number' (counter + (9 - 2)) 2 m" .
  show ?case
    unfolding run using Suc.prems by (intro Suc.IH part) simp_all
qed

lemma iban_check_None:
  assumes "length s = 32" "\<forall>c \<in> set s. is_upper_alnum c"
  shows "iban_check_mem None s = Fault Out_of_bounds"
proof -
  obtain ds where ds: "length ds \<le> 70"
    and number: "iban_to_number (s @ ''NQ00'') 0 (replicate 71 NUL) = Ok (ds @ replicate (71 - length ds) NUL)"
    using iban_number [OF assms] .
  let ?total = "ds @ replicate (71 - length ds) NUL"
  have total: "length ?total = 71" using ds by simp
  then have "0 + (9 - 0) \<le> length ?total" by simp
  from iban_modulo_round [OF this, of "replicate 10 NUL" 9 0, simplified length_replicate]
  obtain partial_number' m where part: "length partial_number' = 10"
    and run: "iban_modulo (Suc 9) ?total (replicate 10 NUL) 0 0 0 =
      iban_modulo 9 ?total partial_number' (0 + (9 - 0)) 2 m" by blast
  have "iban_modulo (Suc 8) ?total partial_number' 9 2 m = Fault Out_of_bounds"
    by (rule iban_modulo_fault [OF total part]) simp
  then have "iban_modulo 10 ?total (replicate 10 NUL) 0 0 0 = Fault Out_of_bounds"
    using run by (simp del: iban_modulo.simps)
  then show ?thesis
    using number assms(1) by (simp add: iban_check_mem_def peek_def del: iban_modulo.simps)
qed

lemma complement_97:
  assumes "r = x mod 97"
  shows "(x + (98 - r)) mod 97 = (1 :: nat)"
proof -
  obtain q where x: "x = q * 97 + r" using assms div_mult_mod_eq [of x 97] by metis
  moreover have "r < 97" using assms by simp
  ultimately have "x + (98 - r) = 1 + 97 * (q + 1)" by simp
  then show ?thesis by (simp only: mod_mult_self2) simp
qed

lemma check_digits_make_valid:
  "iban_remainder (s @ ''NQ'' @ check_digits s) = 1"
proof -
  define X where "X = dec_val (iban_digits (s @ ''NQ''))"
  define r where "r = iban_remainder (s @ ''NQ00'')"
  have "iban_digits (s @ ''NQ00'') = iban_digits (s @ ''NQ'') @ ''00''"
    by (simp add: is_digit_def)
  moreover have "dec_val ''00'' = 0" by (simp add: dec_val_def)
  ultimately have r: "r = X * 100 mod 97"
    by (simp only: r_def X_def iban_remainder_def dec_val_append) simp
  then have "98 - r < 100" by simp
  from dec02_digits [OF this] have D: "length (check_digits s) = 2"
    "\<forall>c \<in> set (check_digits s). is_digit c" "dec_val (check_digits s) = 98 - r"
    by (simp_all only: check_digits_def r_def)
  have "iban_digits (s @ ''NQ'' @ check_digits s) = iban_digits (s @ ''NQ'') @ check_digits s"
    using D(2) by (simp add: iban_digits_all_digits)
  then have "dec_val (iban_digits (s @ ''NQ'' @ check_digits s)) = X * 100 + (98 - r)"
    by (simp only: dec_val_append D X_def) simp
  then show ?thesis
    using complement_97 [OF r] by (simp only: iban_remainder_def)
qed

definition address_text :: "u8 list \<Rightarrow> string" where
  "address_text addr =
     (let s = base32_string addr in ''NQ'' @ check_digits s @ address_groups s 0 8)"

lemma address_base32_alnum:
  "length addr = 20 \<Longrightarrow> \<forall>c \<in> set (base32_string addr). is_upper_alnum c"
  using base32_encode_address(3) is_upper_alnum_alphabet by blast

lemma print_address_eq: "length addr = 20 \<Longrightarrow> print_address addr = Ok (address_text addr)"
  using iban_check_Some [of "base32_string addr" NUL] base32_encode_address [of addr]
    address_base32_alnum [of addr]
  by (simp add: print_address_def iban_check_def address_text_def Let_def)

text \<open>
  The one access outside an array, for an address: \<open>one_byte_behind\<close> says that the check digits fault
  without the byte behind \<^verbatim>\<open>total_number\<close> and are those of \<open>iban_check\<close> with it, whatever it holds.
\<close>

definition one_byte_behind :: "u8 list \<Rightarrow> bool" where
  "one_byte_behind addr =
     (iban_check_mem None (base32_string addr) = Fault Out_of_bounds \<and>
      (\<forall>c. iban_check_mem (Some c) (base32_string addr) = iban_check (base32_string addr)))"

lemma one_byte_behind: "length addr = 20 \<Longrightarrow> one_byte_behind addr"
  using iban_check_Some [of "base32_string addr"] iban_check_None [of "base32_string addr"]
    base32_encode_address [of addr] address_base32_alnum [of addr]
  by (simp add: one_byte_behind_def iban_check_def)

lemma set_address_groups: "set (address_groups s i n) \<subseteq> insert CHR '' '' (set s)"
  by (induction n arbitrary: i) (auto dest!: in_set_takeD in_set_dropD)

lemma length_address_groups:
  "4 * (i + n) \<le> length s \<Longrightarrow> length (address_groups s i n) = 5 * n"
proof (induction n arbitrary: i)
  case (Suc n)
  then have "4 \<le> length s - i * 4" by simp
  then show ?case using Suc by simp
qed simp

lemma filter_address_groups:
  assumes "CHR '' '' \<notin> set s"
  shows "filter (\<lambda>c. c \<noteq> CHR '' '') (address_groups s i n) = take (4 * n) (drop (4 * i) s)"
proof (induction n arbitrary: i)
  case (Suc n)
  have "filter (\<lambda>c. c \<noteq> CHR '' '') (take 4 (drop (i * 4) s)) = take 4 (drop (i * 4) s)"
    using assms by (auto simp: filter_id_conv dest!: in_set_takeD in_set_dropD)
  moreover have "take (4 * Suc n) (drop (4 * i) s) =
      take 4 (drop (i * 4) s) @ take (4 * n) (drop (4 * Suc i) s)"
    using take_add [of 4 "4 * n" "drop (4 * i) s"] by (simp add: mult.commute add.commute)
  ultimately show ?case using Suc by simp
qed simp

lemma alnum_not: "is_upper_alnum c \<Longrightarrow> c \<noteq> NUL \<and> c \<noteq> CHR '' ''"
  by (auto simp: is_upper_alnum_def is_digit_def code_of_def NUL_def)

lemma check_digits_digits: "length (check_digits s) = 2 \<and> (\<forall>c \<in> set (check_digits s). is_digit c)"
  using dec02_digits [of "98 - iban_remainder (s @ ''NQ00'')"] by (simp add: check_digits_def)

text \<open>Without its spaces an address text is the country code, the check digits and the base32 text.\<close>

lemma filter_address_text:
  assumes "length addr = 20"
  shows "filter (\<lambda>c. c \<noteq> CHR '' '') (address_text addr) =
    ''NQ'' @ check_digits (base32_string addr) @ base32_string addr"
proof -
  have "CHR '' '' \<notin> set (base32_string addr)"
    using address_base32_alnum [OF assms] alnum_not by blast
  moreover have "filter (\<lambda>c. c \<noteq> CHR '' '') (check_digits s) = check_digits s" for s
    using check_digits_digits [of s] is_digit_not(3) by (auto simp: filter_id_conv)
  ultimately show ?thesis
    using filter_address_groups [of "base32_string addr" 0 8] base32_encode_address(2) [OF assms]
    by (simp add: address_text_def Let_def)
qed

lemma address_text_valid: "length addr = 20 \<Longrightarrow> iban_valid (address_text addr)"
  using check_digits_make_valid [of "base32_string addr"] check_digits_digits [of "base32_string addr"]
  by (simp add: iban_valid_def Let_def filter_address_text)

interpretation address: printer print_address "\<lambda>addr. length addr = 20" address_text
  STRING_LENGTH_USER_FRIENDLY_ADDRESS
proof (unfold_locales, goal_cases)
  case (1 x)
  then show ?case by (rule print_address_eq)
next
  case (2 x)
  then show ?case
    using check_digits_digits [of "base32_string x"] base32_encode_address(2) [OF 2]
    by (simp add: address_text_def Let_def length_address_groups length_defs)
next
  case (3 x)
  have "NUL \<notin> set ''NQ ''" by (simp add: NUL_def)
  moreover have "NUL \<notin> set (base32_string x)" using address_base32_alnum [OF 3] alnum_not by blast
  ultimately show ?case
    using set_address_groups [of "base32_string x" 0 8] check_digits_digits [of "base32_string x"]
      is_digit_not(2)
    by (auto simp: address_text_def Let_def)
next
  case (4 x y)
  then have "''NQ'' @ check_digits (base32_string x) @ base32_string x =
      ''NQ'' @ check_digits (base32_string y) @ base32_string y"
    by (metis filter_address_text)
  then have "base32_string x = base32_string y"
    using check_digits_digits [of "base32_string x"] check_digits_digits [of "base32_string y"] by simp
  then show ?case using 4 by (simp add: base32_string_inject)
qed

lemmas delivers_print_address [delivers_intros] = address.delivers_print

lemma delivers_public_key_to_address [delivers_intros]:
  assumes "\<And>k h. blake2b k = Some h \<Longrightarrow> length h = 32"
    and "\<And>h. blake2b k = Some h \<Longrightarrow> length (take 20 h) = 20 \<Longrightarrow> P (take 20 h)"
  shows "delivers P (public_key_to_address blake2b k)"
  using assms by (simp add: public_key_to_address_def split: option.split)

lemma delivers_print_public_key_as_address [delivers_intros]:
  assumes "\<And>k h. blake2b k = Some h \<Longrightarrow> length h = 32"
    and "\<And>h. blake2b k = Some h \<Longrightarrow> P (address_text (take 20 h))"
  shows "delivers P (print_public_key_as_address blake2b k)"
  using assms
  by (auto simp: print_public_key_as_address_def intro!: delivers_intros)

section \<open>Properties\<close>

text \<open>
  C32: User-friendly addresses. \<open>print_address\<close> always succeeds; the text has the 44 characters of
  the field, no terminator inside, and is valid under the IBAN rule (country code and check digits
  moved to the end, letters as two digits, the number leaves 1 modulo 97), although the code only
  computes with nine-digit pieces.
\<close>

theorem printed_address_is_valid:
  assumes "length addr = 20"
  shows "\<exists>s. print_address addr = Ok s \<and> length s = 44 \<and> length s < STRING_LENGTH_USER_FRIENDLY_ADDRESS \<and>
    NUL \<notin> set s \<and> take 2 s = ''NQ'' \<and> iban_valid s"
proof -
  have "length (address_text addr) = 44"
    using check_digits_digits [of "base32_string addr"] base32_encode_address(2) [OF assms]
    by (simp add: address_text_def Let_def length_address_groups)
  moreover have "take 2 (address_text addr) = ''NQ''" by (simp add: address_text_def Let_def)
  ultimately show ?thesis
    using address.print_eq [OF assms] address.no_terminator [OF assms] address_text_valid [OF assms]
    by (simp add: length_defs)
qed

theorem printed_address_is_valid_witness:
  "\<exists>s. print_address (replicate 20 255) = Ok s \<and> length s = 44 \<and> iban_valid s"
  using printed_address_is_valid [of "replicate 20 255"] by auto

text \<open>
  C33: Two addresses print the same text only if they are equal, so an address on the display
  identifies the bytes in the transaction.
\<close>

theorem printed_address_determines_address:
  assumes "length a = 20" "length b = 20" "print_address a = Ok s" "print_address b = Ok s"
  shows "a = b"
  using assms by (rule address.same_text)

theorem printed_address_determines_address_witness:
  "print_address (replicate 20 0) \<noteq> print_address (replicate 20 1)"
proof
  assume eq: "print_address (replicate 20 0) = print_address (replicate 20 1)"
  have p: "print_address (replicate 20 0) = Ok (address_text (replicate 20 0))"
    by (simp add: print_address_eq)
  have "replicate 20 0 = (replicate 20 1 :: u8 list)"
    by (rule printed_address_determines_address [OF _ _ p p [unfolded eq]]) simp_all
  then show False by simp
qed

text \<open>
  C34: The check digit routine is the remainder of the standard, for every base 32 text of 32
  characters. Its last piece reaches one byte past the end of the digit array; the result does not
  depend on what that byte is, but without it the routine never returns: with the bounds of the array
  as declared, every call ends in a read outside of it.
\<close>

theorem iban_check_is_remainder:
  assumes "length s = 32" "\<forall>c \<in> set s. is_upper_alnum c"
  shows "iban_check_mem (Some beyond) s = Ok (dec02 (98 - iban_remainder (s @ ''NQ00''))) \<and>
    iban_check_mem None s = Fault Out_of_bounds"
  using iban_check_Some [OF assms, of beyond] iban_check_None [OF assms] by (simp add: check_digits_def)

theorem iban_check_is_remainder_witness:
  "iban_check_mem (Some (CHR ''9'')) (replicate 32 CHR ''Z'') = Ok (dec02 (98 - iban_remainder (replicate 32 CHR ''Z'' @ ''NQ00''))) \<and>
    iban_check_mem None (replicate 32 CHR ''Z'') = Fault Out_of_bounds"
  using iban_check_is_remainder [of "replicate 32 CHR ''Z''" "CHR ''9''"]
  by (simp add: is_upper_alnum_def code_of_def is_digit_def)

end
