(* ===== verification/Signature_Proof.thy ===== *)
theory Signature_Proof
  imports Buffer
begin

text \<open>
  \<^verbatim>\<open>src/src/signature_proof.c\<close>: signature proofs embedded in staking data. The proof holds
  pointers into the buffer it was read from. The lemmas show that reading a proof takes exactly the
  98 bytes of an Ed25519 proof without flags and with an empty Merkle path, and that the test for
  the empty default proof compares all of them with zero.
\<close>

record signature_proof_t =
  public_key :: ptr
  signature :: ptr
  type_and_flags :: u8
  merkle_path_length :: u8

definition read_signature_proof ::
    "u8 list \<Rightarrow> cursor \<Rightarrow> (unit, signature_proof_t \<times> cursor) result" where
  "read_signature_proof mem cur =
     andthen (or_error (read_u8 mem cur) ()) (\<lambda>(flags, cur).
     andthen (or_error (read_sub_buffer 32 cur) ()) (\<lambda>(pk, cur).
     andthen (or_error (read_u8 mem cur) ()) (\<lambda>(path_length, cur).
     andthen (or_error (read_sub_buffer 64 cur) ()) (\<lambda>(sig, cur).
     andthen (check (flags \<noteq> 0) ()) (\<lambda>_.
     andthen (check (path_length \<noteq> 0) ()) (\<lambda>_.
     Ok (\<lparr>public_key = pk, signature = sig, type_and_flags = flags,
          merkle_path_length = path_length\<rparr>, cur)))))))"

text \<open>A loop that compares the bytes at a pointer with zero, from index \<open>i\<close> on, \<open>n\<close> bytes.\<close>

fun all_zero :: "u8 list \<Rightarrow> ptr \<Rightarrow> nat \<Rightarrow> nat \<Rightarrow> ('e, bool) result" where
  "all_zero mem p i 0 = Ok True"
| "all_zero mem p i (Suc n) =
     andthen (deref mem p i) (\<lambda>b. if b \<noteq> 0 then Ok False else all_zero mem p (Suc i) n)"

definition is_empty_default_signature_proof ::
    "u8 list \<Rightarrow> signature_proof_t \<Rightarrow> ('e, bool) result" where
  "is_empty_default_signature_proof mem sp =
     (if type_and_flags sp \<noteq> 0 \<or> merkle_path_length sp \<noteq> 0 then Ok False
      else andthen (all_zero mem (public_key sp) 0 32) (\<lambda>zero.
        if \<not> zero then Ok False else all_zero mem (signature sp) 0 64))"

section \<open>The empty default proof\<close>

lemma all_zero_iff:
  assumes "off + i + n \<le> length mem"
  shows "all_zero mem (Some off) i n = Ok (take n (drop (off + i) mem) = replicate n 0)"
  using assms
proof (induction n arbitrary: i)
  case (Suc n)
  have "take (Suc n) (drop (off + i) mem) = mem ! (off + i) # take n (drop (off + Suc i) mem)"
    using Suc.prems by (simp add: Cons_nth_drop_Suc [symmetric])
  then show ?case using Suc by (auto simp: deref_def)
qed simp

lemma all_zero_view:
  assumes "wf_cursor mem (p, n)" "p \<noteq> None" "m = unat n"
  shows "all_zero mem p 0 m = Ok (view mem (p, n) = replicate m 0)"
  using assms by (auto simp: all_zero_iff)

definition proof_bytes :: "u8 list \<Rightarrow> u8 list \<Rightarrow> u8 list" where
  "proof_bytes pk sig = 0 # pk @ 0 # sig"

definition proof_at :: "u8 list \<Rightarrow> u8 list \<Rightarrow> u8 list \<Rightarrow> signature_proof_t \<Rightarrow> bool" where
  "proof_at mem pk sig sp =
     (type_and_flags sp = 0 \<and> merkle_path_length sp = 0 \<and>
      public_key sp \<noteq> None \<and> wf_cursor mem (public_key sp, 32) \<and>
      view mem (public_key sp, 32) = pk \<and>
      signature sp \<noteq> None \<and> wf_cursor mem (signature sp, 64) \<and>
      view mem (signature sp, 64) = sig)"

lemma is_empty_default_iff:
  assumes "proof_at mem pk sig sp"
  shows "is_empty_default_signature_proof mem sp =
    (Ok (pk = replicate 32 0 \<and> sig = replicate 64 0) :: ('e, bool) result)"
proof -
  have "all_zero mem (public_key sp) 0 32 = (Ok (pk = replicate 32 0) :: ('e, bool) result)"
    "all_zero mem (signature sp) 0 64 = (Ok (sig = replicate 64 0) :: ('e, bool) result)"
    using assms
    by (simp_all add: proof_at_def all_zero_view [of mem "public_key sp" 32 32]
        all_zero_view [of mem "signature sp" 64 64])
  then show ?thesis using assms by (simp add: is_empty_default_signature_proof_def proof_at_def)
qed

section \<open>Reading a proof\<close>

lemma reads_signature_proof [reads]:
  assumes "wf_cursor mem c" "view mem c = proof_bytes pk sig @ rest" "length pk = 32" "length sig = 64"
    and "\<And>sp c'. wf_cursor mem c' \<Longrightarrow> view mem c' = rest \<Longrightarrow> proof_at mem pk sig sp \<Longrightarrow>
      k sp c' = r"
  shows "andthen (or_error (read_signature_proof mem c) e) (\<lambda>(sp, c). k sp c) = r"
proof -
  have "andthen (or_error (read_signature_proof mem c) e) (\<lambda>(sp, c). k sp c) = r"
    using assms(1-4) unfolding read_signature_proof_def flatten_simps proof_bytes_def
    by (auto simp: proof_at_def check_def intro!: reads reads_sub_buffer [where mem = mem] assms(5)
        simp del: view.simps wf_cursor.simps)
  then show ?thesis .
qed

lemma read_elims_signature_proof [read_elims]:
  assumes "andthen (or_error (read_signature_proof mem c) e) (\<lambda>(sp, c). k sp c) = Ok r"
    "wf_cursor mem c"
  obtains pk sig sp c' where "wf_cursor mem c'" "length pk = 32" "length sig = 64"
    "view mem c = proof_bytes pk sig @ view mem c'" "proof_at mem pk sig sp" "k sp c' = Ok r"
proof -
  show thesis
    by (insert assms, unfold read_signature_proof_def flatten_simps,
        elim read_elims read_elims_sub_buffer [where mem = mem], assumption+)
      (rule that, auto simp: proof_at_def proof_bytes_def simp del: view.simps wf_cursor.simps)
qed

lemma delivers_read_signature_proof [delivers_intros]:
  assumes "wf_cursor mem c"
    and "\<And>pk sig sp c'. wf_cursor mem c' \<Longrightarrow> length pk = 32 \<Longrightarrow> length sig = 64 \<Longrightarrow>
      proof_at mem pk sig sp \<Longrightarrow> P (sp, c')"
  shows "delivers P (read_signature_proof mem c)"
proof (rule delivers_OkI)
  have "delivers (\<lambda>_. True) (read_signature_proof mem c)"
    using assms(1) by (auto simp: read_signature_proof_def intro!: delivers_intros)
  then show "read_signature_proof mem c \<noteq> Fault f" for f by auto
next
  fix x assume "read_signature_proof mem c = Ok x"
  then have "andthen (or_error (read_signature_proof mem c) ()) (\<lambda>(sp, c). Ok (sp, c)) = Ok x"
    by auto
  then show "P x"
    using assms by (elim read_elims_signature_proof) auto
qed

section \<open>Properties\<close>

text \<open>
  C31: Signature proofs. A proof read from a buffer is 98 bytes: a zero type byte, the key, a zero
  path length, the signature; the returned pointers address that key and that signature inside the
  buffer; and the proof counts as the empty default exactly if all 96 of their bytes are zero, so
  no real key or signature is ever replaced by one the device creates.
\<close>

theorem signature_proof_reader_correct:
  assumes "wf_cursor mem c" "read_signature_proof mem c = Ok (sp, c')"
  shows "\<exists>pk sig. length pk = 32 \<and> length sig = 64 \<and> view mem c = proof_bytes pk sig @ view mem c' \<and>
    proof_at mem pk sig sp \<and>
    is_empty_default_signature_proof mem sp = (Ok (pk @ sig = replicate 96 0) :: (unit, bool) result)"
proof -
  have "andthen (or_error (read_signature_proof mem c) ()) (\<lambda>(sp, c). Ok (sp, c)) = Ok (sp, c')"
    using assms(2) by simp
  then obtain pk sig where *: "length pk = 32" "length sig = 64"
    "view mem c = proof_bytes pk sig @ view mem c'" "proof_at mem pk sig sp"
    by (rule read_elims_signature_proof [OF _ assms(1)]) simp
  have "pk @ sig = replicate (32 + 64) 0 \<longleftrightarrow> pk = replicate 32 0 \<and> sig = replicate 64 0"
    unfolding replicate_add using *(1,2) by (intro append_eq_append_conv) simp
  with * is_empty_default_iff [OF *(4)] show ?thesis by (intro exI [of _ pk] exI [of _ sig]) simp
qed

theorem signature_proof_reader_correct_witness:
  "\<exists>pk sig sp c'. read_signature_proof (replicate 100 0) (Some 1, 99) = Ok (sp, c') \<and>
    length pk = 32 \<and> length sig = 64 \<and> proof_at (replicate 100 0) pk sig sp \<and>
    is_empty_default_signature_proof (replicate 100 0) sp = (Ok (pk @ sig = replicate 96 0) :: (unit, bool) result)"
proof -
  have r: "read_signature_proof (replicate 100 0) (Some 1, 99) =
      Ok (\<lparr>public_key = Some 2, signature = Some 35, type_and_flags = 0, merkle_path_length = 0\<rparr>, (Some 99, 1))"
    by (simp add: read_signature_proof_def read_u8_def read_sub_buffer_def deref_def)
  from signature_proof_reader_correct [OF _ r] r show ?thesis by auto
qed

end
