(* ===== verification/Staking.thy ===== *)
theory Staking
  imports Address Signature_Proof
begin

text \<open>
  \<^verbatim>\<open>src/src/nimiq_staking_utils.c\<close>: parsing of the data of incoming and outgoing staking
  transactions. The char arrays of \<^verbatim>\<open>tx_data_staking_incoming_t\<close> are the C strings they hold, its
  anonymous union is a datatype.

  The specification side lists the supported data as a datatype with its serialization and says
  what is displayed for each; the lemmas show that the parser on serialized data computes exactly
  that, errors included, and that whatever it accepts is the serialization of such data.
\<close>

section \<open>Parsed staking data\<close>

datatype staking_specific_t =
    No_staking_specific
  | Create_staker_or_update_staker string "string option"
  | Set_active_stake_or_retire_stake string

record tx_data_staking_incoming_t =
  staking_type :: staking_incoming_data_type_t
  has_validator_or_staker_signature_proof :: bool
  validator_or_staker_signature_proof :: "signature_proof_t option"
  validator_or_staker_address :: string
  staking_specific :: staking_specific_t

definition yes_no :: "bool \<Rightarrow> string" where
  "yes_no b = (if b then ''Yes'' else ''No'')"

section \<open>The parsers\<close>

text \<open>
  The switch on the type. Besides the type specific fields it returns
  \<^verbatim>\<open>effective_validator_or_staker_address\<close>, the bytes it points to.
\<close>

definition parse_staking_switch ::
    "u8 list \<Rightarrow> staking_incoming_data_type_t \<Rightarrow> cursor \<Rightarrow>
     (error_t, (staking_specific_t \<times> u8 list option) \<times> cursor) result" where
  "parse_staking_switch mem t data =
     (if t = CREATE_STAKER \<or> t = UPDATE_STAKER then
        andthen (or_error (read_bool mem data) ERROR_READ) (\<lambda>(hasDelegation, data).
        andthen
          (if hasDelegation then
             andthen (or_error (read_sub_buffer 20 data) ERROR_READ) (\<lambda>(delegation_address_pointer, data).
             andthen (bytes_at mem delegation_address_pointer 20) (\<lambda>a.
             andthen (print_address a) (\<lambda>delegation. Ok (delegation, data))))
           else Ok ('''', data)) (\<lambda>(delegation, data).
        if t = UPDATE_STAKER then
          andthen (or_error (read_bool mem data) ERROR_READ) (\<lambda>(reactivate_all_stake, data).
          Ok ((Create_staker_or_update_staker delegation
                 (Some (yes_no reactivate_all_stake)), None), data))
        else Ok ((Create_staker_or_update_staker delegation None, None), data)))
      else if t = ADD_STAKE then
        andthen (or_error (read_sub_buffer 20 data) ERROR_READ) (\<lambda>(staker, data).
        andthen (bytes_at mem staker 20) (\<lambda>a.
        Ok ((No_staking_specific, Some a), data)))
      else if t = SET_ACTIVE_STAKE \<or> t = RETIRE_STAKE then
        andthen (or_error (read_u64 mem data) ERROR_READ) (\<lambda>(amount, data).
        andthen (parse_amount amount (Some ''NIM'')) (\<lambda>s.
        Ok ((Set_active_stake_or_retire_stake s, None), data)))
      else Err ERROR_NOT_SUPPORTED)"

text \<open>The signature proof at the end of the data of all types but \<^verbatim>\<open>ADD_STAKE\<close>.\<close>

definition parse_staking_proof ::
    "(u8 list \<Rightarrow> u8 list option) \<Rightarrow> u8 list \<Rightarrow> staking_incoming_data_type_t \<Rightarrow> u8 list option \<Rightarrow> cursor \<Rightarrow>
     (error_t, (signature_proof_t option \<times> u8 list option) \<times> cursor) result" where
  "parse_staking_proof blake2b mem t effective data =
     (if t \<noteq> ADD_STAKE then
        andthen (or_error (read_signature_proof mem data) ERROR_READ) (\<lambda>(sp, data).
        andthen (check (type_and_flags sp \<noteq> 0 \<or> merkle_path_length sp \<noteq> 0) ERROR_NOT_SUPPORTED) (\<lambda>_.
        andthen (is_empty_default_signature_proof mem sp) (\<lambda>empty.
        if \<not> empty then
          andthen (bytes_at mem (public_key sp) 32) (\<lambda>pk.
          andthen (public_key_to_address blake2b pk) (\<lambda>a.
          Ok ((Some sp, Some a), data)))
        else Ok ((Some sp, effective), data))))
      else Ok ((None, effective), data))"

definition parse_staking_incoming_data ::
    "(u8 list \<Rightarrow> u8 list option) \<Rightarrow> u8 list \<Rightarrow> transaction_version_t \<Rightarrow> cursor \<Rightarrow> ptr \<Rightarrow>
     (error_t, tx_data_staking_incoming_t) result" where
  "parse_staking_incoming_data blake2b mem version data sender =
     andthen (check (version = TRANSACTION_VERSION_LEGACY) ERROR_INCORRECT_DATA) (\<lambda>_.
     andthen (or_error (read_u8 mem data) ERROR_READ) (\<lambda>(t, data).
     andthen (parse_staking_switch mem t data) (\<lambda>((specific, effective), data).
     andthen (parse_staking_proof blake2b mem t effective data) (\<lambda>((sp, effective), data).
     andthen (check (snd data \<noteq> 0) ERROR_INVALID_LENGTH) (\<lambda>_.
     andthen
       (case effective of
          Some a \<Rightarrow> andthen (bytes_at mem sender 20) (\<lambda>sender_bytes.
            if a \<noteq> sender_bytes then print_address a else Ok '''')
        | None \<Rightarrow> Ok '''') (\<lambda>address.
     Ok \<lparr>staking_type = t, has_validator_or_staker_signature_proof = (t \<noteq> ADD_STAKE),
         validator_or_staker_signature_proof = sp, validator_or_staker_address = address,
         staking_specific = specific\<rparr>))))))"

definition parse_staking_outgoing_data ::
    "u8 list \<Rightarrow> transaction_version_t \<Rightarrow> cursor \<Rightarrow> (error_t, staking_outgoing_data_type_t) result" where
  "parse_staking_outgoing_data mem version sender_data =
     andthen (check (version = TRANSACTION_VERSION_LEGACY) ERROR_INCORRECT_DATA) (\<lambda>_.
     andthen (or_error (read_u8 mem sender_data) ERROR_READ) (\<lambda>(t, sender_data).
     andthen (check (t \<noteq> DELETE_VALIDATOR \<and> t \<noteq> REMOVE_STAKE) ERROR_INCORRECT_DATA) (\<lambda>_.
     andthen (check (snd sender_data \<noteq> 0) ERROR_INVALID_LENGTH) (\<lambda>_.
     Ok t))))"

definition is_staking_contract :: "u8 list \<Rightarrow> ptr \<Rightarrow> ('e, bool) result" where
  "is_staking_contract mem address =
     andthen (all_zero mem address 0 19) (\<lambda>zero.
     if \<not> zero then Ok False else andthen (deref mem address 19) (\<lambda>b. Ok (b = 1)))"

definition is_signaling_transaction_data :: "staking_incoming_data_type_t \<Rightarrow> bool" where
  "is_signaling_transaction_data t =
     (t = UPDATE_VALIDATOR \<or> t = DEACTIVATE_VALIDATOR \<or> t = REACTIVATE_VALIDATOR \<or>
      t = RETIRE_VALIDATOR \<or> t = UPDATE_STAKER \<or> t = SET_ACTIVE_STAKE \<or> t = RETIRE_STAKE)"

section \<open>Specification\<close>

text \<open>
  The supported incoming staking data. The bytes of flags are kept as read, any non-zero byte
  counts as true.
\<close>

datatype staking_data =
    Create_staker u8 "u8 list" "u8 list" "u8 list"
  | Update_staker u8 "u8 list" u8 "u8 list" "u8 list"
  | Add_stake "u8 list"
  | Set_active_stake u64 "u8 list" "u8 list"
  | Retire_stake u64 "u8 list" "u8 list"

fun staking_data_ok :: "staking_data \<Rightarrow> bool" where
  "staking_data_ok (Create_staker b d pk sig) =
     (length d = (if b = 0 then 0 else 20) \<and> length pk = 32 \<and> length sig = 64)"
| "staking_data_ok (Update_staker b d x pk sig) =
     (length d = (if b = 0 then 0 else 20) \<and> length pk = 32 \<and> length sig = 64)"
| "staking_data_ok (Add_stake a) = (length a = 20)"
| "staking_data_ok (Set_active_stake n pk sig) = (length pk = 32 \<and> length sig = 64)"
| "staking_data_ok (Retire_stake n pk sig) = (length pk = 32 \<and> length sig = 64)"

fun staking_data_bytes :: "staking_data \<Rightarrow> u8 list" where
  "staking_data_bytes (Create_staker b d pk sig) = CREATE_STAKER # b # d @ proof_bytes pk sig"
| "staking_data_bytes (Update_staker b d x pk sig) = UPDATE_STAKER # b # d @ x # proof_bytes pk sig"
| "staking_data_bytes (Add_stake a) = ADD_STAKE # a"
| "staking_data_bytes (Set_active_stake n pk sig) =
     SET_ACTIVE_STAKE # be_bytes 8 (unat n) @ proof_bytes pk sig"
| "staking_data_bytes (Retire_stake n pk sig) =
     RETIRE_STAKE # be_bytes 8 (unat n) @ proof_bytes pk sig"

definition delegation_text :: "u8 \<Rightarrow> u8 list \<Rightarrow> string" where
  "delegation_text b d = (if b = 0 then '''' else address_text d)"

text \<open>What is displayed for the data, or the error it is rejected with.\<close>

definition shown_staker :: "u8 list \<Rightarrow> u8 list option \<Rightarrow> string" where
  "shown_staker sender effective =
     (case effective of Some a \<Rightarrow> if a \<noteq> sender then address_text a else '''' | None \<Rightarrow> '''')"

definition staker_of_proof ::
    "(u8 list \<Rightarrow> u8 list option) \<Rightarrow> u8 list \<Rightarrow> u8 list \<Rightarrow> (error_t, u8 list option) result" where
  "staker_of_proof blake2b pk sig =
     (if pk = replicate 32 0 \<and> sig = replicate 64 0 then Ok None
      else andthen (public_key_to_address blake2b pk) (\<lambda>a. Ok (Some a)))"

fun staking_display ::
    "(u8 list \<Rightarrow> u8 list option) \<Rightarrow> u8 list \<Rightarrow> staking_data \<Rightarrow>
     (error_t, staking_incoming_data_type_t \<times> staking_specific_t \<times> string) result" where
  "staking_display blake2b sender (Create_staker b d pk sig) =
     andthen (staker_of_proof blake2b pk sig) (\<lambda>eff.
     Ok (CREATE_STAKER, Create_staker_or_update_staker (delegation_text b d) None, shown_staker sender eff))"
| "staking_display blake2b sender (Update_staker b d x pk sig) =
     andthen (staker_of_proof blake2b pk sig) (\<lambda>eff.
     Ok (UPDATE_STAKER, Create_staker_or_update_staker (delegation_text b d)
           (Some (yes_no (x \<noteq> 0))), shown_staker sender eff))"
| "staking_display blake2b sender (Add_stake a) =
     Ok (ADD_STAKE, No_staking_specific, shown_staker sender (Some a))"
| "staking_display blake2b sender (Set_active_stake n pk sig) =
     andthen (parse_amount n (Some ''NIM'')) (\<lambda>s.
     andthen (staker_of_proof blake2b pk sig) (\<lambda>eff.
     Ok (SET_ACTIVE_STAKE, Set_active_stake_or_retire_stake s, shown_staker sender eff)))"
| "staking_display blake2b sender (Retire_stake n pk sig) =
     andthen (parse_amount n (Some ''NIM'')) (\<lambda>s.
     andthen (staker_of_proof blake2b pk sig) (\<lambda>eff.
     Ok (RETIRE_STAKE, Set_active_stake_or_retire_stake s, shown_staker sender eff)))"

definition displayed_staking ::
    "tx_data_staking_incoming_t \<Rightarrow> staking_incoming_data_type_t \<times> staking_specific_t \<times> string" where
  "displayed_staking out = (staking_type out, staking_specific out, validator_or_staker_address out)"

section \<open>The parser on serialized data\<close>

abbreviation hash_ok :: "(u8 list \<Rightarrow> u8 list option) \<Rightarrow> bool" where
  "hash_ok blake2b \<equiv> \<forall>k h. blake2b k = Some h \<longrightarrow> length h = 32"

lemma staker_of_proof_20:
  "hash_ok blake2b \<Longrightarrow> staker_of_proof blake2b pk sig = Ok (Some a) \<Longrightarrow> length a = 20"
  by (auto simp: staker_of_proof_def public_key_to_address_def andthen_eq_Ok split: if_splits option.splits)

lemma bytes_at_proof:
  "proof_at mem pk sig sp \<Longrightarrow> bytes_at mem (public_key sp) 32 = Ok pk"
  by (auto simp: proof_at_def bytes_at_def)

lemma run_staking_proof:
  assumes "t \<noteq> ADD_STAKE" "wf_cursor mem c" "view mem c = proof_bytes pk sig" "length pk = 32"
    "length sig = 64"
    and "\<And>sp c'. wf_cursor mem c' \<Longrightarrow> view mem c' = [] \<Longrightarrow> proof_at mem pk sig sp \<Longrightarrow>
      andthen (staker_of_proof blake2b pk sig) (\<lambda>eff. k (Some sp) eff c') = r"
  shows "andthen (parse_staking_proof blake2b mem t None c) (\<lambda>((sp, eff), c). k sp eff c) = r"
proof -
  have "andthen (or_error (read_signature_proof mem c) ERROR_READ) (\<lambda>(sp, data).
      andthen (check (type_and_flags sp \<noteq> 0 \<or> merkle_path_length sp \<noteq> 0) ERROR_NOT_SUPPORTED) (\<lambda>_.
      andthen (is_empty_default_signature_proof mem sp) (\<lambda>empty.
      andthen (if \<not> empty then
          andthen (bytes_at mem (public_key sp) 32) (\<lambda>pk.
          andthen (public_key_to_address blake2b pk) (\<lambda>a.
          Ok ((Some sp, Some a), data)))
        else Ok ((Some sp, None), data)) (\<lambda>((sp, eff), c). k sp eff c)))) = r"
  proof (rule reads_signature_proof [of mem c pk sig "[]"], goal_cases)
    case (5 sp c')
    have "andthen (if \<not> (pk = replicate 32 0 \<and> sig = replicate 64 0) then
          andthen (bytes_at mem (public_key sp) 32) (\<lambda>pk.
          andthen (public_key_to_address blake2b pk) (\<lambda>a.
          Ok ((Some sp, Some a), c')))
        else Ok ((Some sp, None), c')) (\<lambda>((sp, eff), c). k sp eff c) =
        andthen (staker_of_proof blake2b pk sig) (\<lambda>eff. k (Some sp) eff c')"
      by (simp add: staker_of_proof_def bytes_at_proof [OF 5(3)] andthen_assoc)
    with assms(6) [OF 5] 5(3) show ?case
      by (simp add: is_empty_default_iff [OF 5(3)] proof_at_def)
  qed (use assms(2-5) in simp_all)
  then show ?thesis
    using assms(1) by (simp add: parse_staking_proof_def flatten_simps)
qed

text \<open>The end of the parser, after the switch.\<close>

lemma print_shown_staker:
  assumes "wf_cursor mem (sender, 20)" "sender \<noteq> None" "view mem (sender, 20) = sb"
    and "\<And>a. eff = Some a \<Longrightarrow> length a = 20"
  shows "(case eff of Some a \<Rightarrow> andthen (bytes_at mem sender 20) (\<lambda>sender_bytes.
        if a \<noteq> sender_bytes then print_address a else Ok '''')
      | None \<Rightarrow> Ok '''') = Ok (shown_staker sb eff)"
proof (cases eff)
  case (Some a)
  have "bytes_at mem sender 20 = (Ok sb :: (error_t, u8 list) result)"
    using assms(1-3) by (auto simp: bytes_at_def)
  then show ?thesis using Some assms(4) by (simp add: shown_staker_def print_address_eq)
qed (simp add: shown_staker_def)

lemma bool_delegation:
  assumes "wf_cursor mem c" "view mem c = b # d @ rest" "length d = (if b = 0 then 0 else 20)"
    and "\<And>c'. wf_cursor mem c' \<Longrightarrow> view mem c' = rest \<Longrightarrow> k (delegation_text b d) c' = r"
  shows "andthen (or_error (read_bool mem c) ERROR_READ) (\<lambda>(hasDelegation, data).
      andthen (if hasDelegation then
             andthen (or_error (read_sub_buffer 20 data) ERROR_READ) (\<lambda>(p, data).
             andthen (bytes_at mem p 20) (\<lambda>a.
             andthen (print_address a) (\<lambda>delegation. Ok (delegation, data))))
           else Ok ('''', data)) (\<lambda>(delegation, data). k delegation data)) = r"
proof (rule reads_bool [OF assms(1,2)], goal_cases)
  case (1 c')
  show ?case
  proof (cases "b = 0")
    case True
    then show ?thesis using assms(3,4) 1 by (simp add: delegation_text_def)
  next
    case False
    with assms(3) have d: "length d = 20" by simp
    have "andthen (or_error (read_sub_buffer 20 c') ERROR_READ) (\<lambda>(p, data).
        andthen (bytes_at mem p 20) (\<lambda>a.
        andthen (print_address a) (\<lambda>delegation. k delegation data))) = r"
    proof (rule reads_sub_buffer [OF 1(1), of d rest], goal_cases)
      case (3 p c')
      then have "bytes_at mem p 20 = (Ok d :: (error_t, u8 list) result)"
        by (intro bytes_at_eq [of mem p 20]) simp_all
      with 3 d False assms(4) show ?case by (simp add: print_address_eq delegation_text_def)
    qed (use 1 d False in simp_all)
    with False show ?thesis by (simp add: flatten_simps)
  qed
qed

lemma signature_view_bytes [simp]:
  "length pk = 32 \<Longrightarrow> length sig = 64 \<Longrightarrow> length (proof_bytes pk sig) = 98"
  by (simp add: proof_bytes_def)

text \<open>
  On the serialization of supported data the parser displays what \<open>staking_display\<close> says, or
  reports the same error.
\<close>

lemma parse_staking_incoming_eq:
  assumes "staking_data_ok d" "hash_ok blake2b" "version \<noteq> TRANSACTION_VERSION_LEGACY"
    and "wf_cursor mem c" "view mem c = staking_data_bytes d"
    and "wf_cursor mem (sender, 20)" "sender \<noteq> None" "view mem (sender, 20) = sb"
  shows "andthen (parse_staking_incoming_data blake2b mem version c sender)
      (\<lambda>out. Ok (displayed_staking out)) = staking_display blake2b sb d"
proof -
  note print = print_shown_staker [OF assms(6-8)]
  note eff20 = staker_of_proof_20 [OF assms(2)]
  let ?tail = "\<lambda>t specific sp effective data.
     andthen (check (snd data \<noteq> 0) ERROR_INVALID_LENGTH) (\<lambda>_.
     andthen (case effective of Some a \<Rightarrow> andthen (bytes_at mem sender 20) (\<lambda>sender_bytes.
            if a \<noteq> sender_bytes then print_address a else Ok '''')
        | None \<Rightarrow> Ok '''') (\<lambda>address. Ok (t, specific, address)))"
  have finish: "andthen (parse_staking_proof blake2b mem t None c') (\<lambda>((sp, effective), data).
      ?tail t specific sp effective data) =
      andthen (staker_of_proof blake2b pk sig) (\<lambda>eff. Ok (t, specific, shown_staker sb eff))"
    if "t \<noteq> ADD_STAKE" "wf_cursor mem c'" "view mem c' = proof_bytes pk sig" "length pk = 32"
      "length sig = 64" for t c' pk sig specific
  proof (rule run_staking_proof [OF that], goal_cases)
    case (1 sp c')
    then have "snd c' = 0" using view_Nil_iff [OF 1(1)] by simp
    show ?case
    proof (rule andthen_cong [OF refl])
      fix eff
      assume "staker_of_proof blake2b pk sig = Ok eff"
      then have "\<And>a. eff = Some a \<Longrightarrow> length a = 20" using eff20 by simp
      from print [OF this] \<open>snd c' = 0\<close>
      show "?tail t specific (Some sp) eff c' = Ok (t, specific, shown_staker sb eff)" by simp
    qed
  qed
  have start: "andthen (parse_staking_incoming_data blake2b mem version c sender)
      (\<lambda>out. Ok (displayed_staking out)) =
     andthen (or_error (read_u8 mem c) ERROR_READ) (\<lambda>(t, data).
     andthen (parse_staking_switch mem t data) (\<lambda>((specific, effective), data).
     andthen (parse_staking_proof blake2b mem t effective data) (\<lambda>((sp, effective), data).
     ?tail t specific sp effective data)))"
    using assms(3) by (simp add: parse_staking_incoming_data_def displayed_staking_def andthen_assoc case_prod_unfold)
  show ?thesis
  proof (cases d)
    case (Create_staker b dl pk sig)
    with assms(1,4,5) show ?thesis
      unfolding start
      apply simp
      apply (rule reads_u8, assumption, assumption)
      apply (simp add: parse_staking_switch_def staking_type_defs flatten_simps)
      apply (rule bool_delegation, assumption, assumption, simp)
      by (rule finish) (simp_all add: staking_type_defs)
  next
    case (Update_staker b dl x pk sig)
    with assms(1,4,5) show ?thesis
      unfolding start
      apply simp
      apply (rule reads_u8, assumption, assumption)
      apply (simp add: parse_staking_switch_def staking_type_defs flatten_simps)
      apply (rule bool_delegation, assumption, assumption, simp)
      apply (rule reads_bool, assumption, assumption)
      by (rule finish) (simp_all add: staking_type_defs)
  next
    case (Add_stake a)
    with assms(1,4,5) show ?thesis
      unfolding start
      apply simp
      apply (rule reads_u8, assumption, assumption)
      apply (simp add: parse_staking_switch_def parse_staking_proof_def staking_type_defs flatten_simps)
      apply (rule reads_sub_buffer [where mem = mem and bs = a and rest = "[]"], assumption)
        apply simp
       apply simp
      apply (rule reads_bytes_at, assumption, assumption)
        apply simp
       apply simp
      using print [of "Some a"] by (simp add: view_Nil_iff andthen_assoc [symmetric])
  next
    case (Set_active_stake n pk sig)
    with assms(1,4,5) show ?thesis
      unfolding start
      apply simp
      apply (rule reads_u8, assumption, assumption)
      apply (simp add: parse_staking_switch_def staking_type_defs flatten_simps)
      apply (rule r64.run [of mem _ n], assumption, assumption)
      apply (rule andthen_cong [OF refl])
      by (rule finish) (simp_all add: staking_type_defs)
  next
    case (Retire_stake n pk sig)
    with assms(1,4,5) show ?thesis
      unfolding start
      apply simp
      apply (rule reads_u8, assumption, assumption)
      apply (simp add: parse_staking_switch_def staking_type_defs flatten_simps)
      apply (rule r64.run [of mem _ n], assumption, assumption)
      apply (rule andthen_cong [OF refl])
      by (rule finish) (simp_all add: staking_type_defs)
  qed
qed

section \<open>Accepted data is serialized data\<close>

lemma staking_proof_elim:
  assumes "andthen (parse_staking_proof blake2b mem t eff c) (\<lambda>((sp, eff), c). k sp eff c) = Ok r"
    "wf_cursor mem c" "t \<noteq> ADD_STAKE"
  obtains pk sig sp eff' c' where "wf_cursor mem c'" "length pk = 32" "length sig = 64"
    "view mem c = proof_bytes pk sig @ view mem c'" "proof_at mem pk sig sp"
    "k (Some sp) eff' c' = Ok r"
proof -
  have "andthen (or_error (read_signature_proof mem c) ERROR_READ) (\<lambda>(sp, data).
      andthen (check (type_and_flags sp \<noteq> 0 \<or> merkle_path_length sp \<noteq> 0) ERROR_NOT_SUPPORTED) (\<lambda>_.
      andthen (is_empty_default_signature_proof mem sp) (\<lambda>empty.
      andthen (if \<not> empty then
          andthen (bytes_at mem (public_key sp) 32) (\<lambda>pk.
          andthen (public_key_to_address blake2b pk) (\<lambda>a.
          Ok ((Some sp, Some a), data)))
        else Ok ((Some sp, eff), data)) (\<lambda>((sp, eff), c). k sp eff c)))) = Ok r"
    using assms(1,3) by (simp add: parse_staking_proof_def flatten_simps)
  then show thesis
    using assms(2)
    by (rule read_elims_signature_proof) (auto simp: andthen_eq_Ok split: if_splits intro: that)
qed

text \<open>Reading the optional delegation backwards.\<close>

lemma delegation_elim:
  assumes "andthen (or_error (read_bool mem c) ERROR_READ) (\<lambda>(hasDelegation, data).
      andthen (if hasDelegation then
             andthen (or_error (read_sub_buffer 20 data) ERROR_READ) (\<lambda>(p, data).
             andthen (bytes_at mem p 20) (\<lambda>a.
             andthen (print_address a) (\<lambda>delegation. Ok (delegation, data))))
           else Ok ('''', data)) (\<lambda>(delegation, data). k delegation data)) = Ok r" "wf_cursor mem c"
  obtains b d s c' where "wf_cursor mem c'" "view mem c = b # d @ view mem c'"
    "length d = (if b = 0 then 0 else 20)" "k s c' = Ok r"
proof -
  obtain b c' where c': "wf_cursor mem c'" "view mem c = b # view mem c'"
    and rest: "andthen (if b \<noteq> 0 then
             andthen (or_error (read_sub_buffer 20 c') ERROR_READ) (\<lambda>(p, data).
             andthen (bytes_at mem p 20) (\<lambda>a.
             andthen (print_address a) (\<lambda>delegation. Ok (delegation, data))))
           else Ok ('''', c')) (\<lambda>(delegation, data). k delegation data) = Ok r"
    by (rule read_elims_bool [OF assms])
  show thesis
  proof (cases "b = 0")
    case True
    with c' rest show ?thesis by (intro that [of c' b "[]"]) simp_all
  next
    case False
    with rest have "andthen (or_error (read_sub_buffer 20 c') ERROR_READ) (\<lambda>(p, data).
        andthen (bytes_at mem p 20) (\<lambda>a.
        andthen (print_address a) (\<lambda>delegation. k delegation data))) = Ok r"
      by (simp add: flatten_simps)
    then obtain p c'' where "wf_cursor mem c''" "length (view mem (p, 20)) = unat (20 :: u16)"
      "view mem c' = view mem (p, 20) @ view mem c''"
      "andthen (bytes_at mem p 20) (\<lambda>a. andthen (print_address a) (\<lambda>delegation. k delegation c'')) = Ok r"
      by (rule read_elims_sub_buffer [OF _ c'(1)])
    moreover from this(4) obtain s where "k s c'' = Ok r" by (auto simp: andthen_eq_Ok)
    ultimately show ?thesis
      using c' False by (intro that [of c'' b "view mem (p, 20)" s]) simp_all
  qed
qed

lemma parse_staking_incoming_sound:
  assumes "parse_staking_incoming_data blake2b mem version c sender = Ok out" "wf_cursor mem c"
  obtains d where "staking_data_ok d" "view mem c = staking_data_bytes d"
    "version \<noteq> TRANSACTION_VERSION_LEGACY"
proof -
  let ?tail = "\<lambda>t specific sp effective data.
     andthen (check (snd data \<noteq> 0) ERROR_INVALID_LENGTH) (\<lambda>_.
     andthen (case effective of Some a \<Rightarrow> andthen (bytes_at mem sender 20) (\<lambda>sender_bytes.
            if a \<noteq> sender_bytes then print_address a else Ok '''')
        | None \<Rightarrow> Ok '''') (\<lambda>address.
     Ok \<lparr>staking_type = t, has_validator_or_staker_signature_proof = (t \<noteq> ADD_STAKE),
         validator_or_staker_signature_proof = sp, validator_or_staker_address = address,
         staking_specific = specific\<rparr>))"

  have v: "version \<noteq> TRANSACTION_VERSION_LEGACY"
    and start: "andthen (or_error (read_u8 mem c) ERROR_READ) (\<lambda>(t, data).
     andthen (parse_staking_switch mem t data) (\<lambda>((specific, effective), data).
     andthen (parse_staking_proof blake2b mem t effective data) (\<lambda>((sp, effective), data).
     ?tail t specific sp effective data))) = Ok out"
    using assms(1) by (auto simp: parse_staking_incoming_data_def andthen_eq_Ok case_prod_unfold)
  obtain t c1 where c1: "wf_cursor mem c1" "view mem c = t # view mem c1"
    and rest: "andthen (parse_staking_switch mem t c1) (\<lambda>((specific, effective), data).
     andthen (parse_staking_proof blake2b mem t effective data) (\<lambda>((sp, effective), data).
     ?tail t specific sp effective data)) = Ok out"
    by (rule read_elims_u8 [OF start assms(2)])
  consider (create) "t = CREATE_STAKER" | (update) "t = UPDATE_STAKER" | (add) "t = ADD_STAKE"
    | (set_active) "t = SET_ACTIVE_STAKE" | (retire) "t = RETIRE_STAKE"
    using rest by (auto simp: parse_staking_switch_def split: if_splits)
  then show thesis
  proof cases
    case create
    with rest show ?thesis
      apply (simp add: parse_staking_switch_def staking_type_defs flatten_simps)
      apply (erule delegation_elim, rule c1)
      apply (erule staking_proof_elim, assumption, simp add: staking_type_defs)
      apply (drule check_end, assumption)
      subgoal for b d s c' pk sig
        by (rule that [of "Create_staker b d pk sig"]) (simp_all add: c1 v staking_type_defs)
      done
  next
    case update
    with rest show ?thesis
      apply (simp add: parse_staking_switch_def staking_type_defs flatten_simps)
      apply (erule delegation_elim, rule c1)
      apply (erule read_elims_bool, assumption)
      apply (erule staking_proof_elim, assumption, simp add: staking_type_defs)
      apply (drule check_end, assumption)
      subgoal for b d s c' x c'' pk sig
        by (rule that [of "Update_staker b d x pk sig"]) (simp_all add: c1 v staking_type_defs)
      done
  next
    case add
    with rest show ?thesis
      apply (simp add: parse_staking_switch_def parse_staking_proof_def staking_type_defs flatten_simps)
      apply (erule read_elims_sub_buffer [where mem = mem], rule c1)
      apply (erule read_elims_bytes_at, assumption, simp)
      apply (drule check_end, assumption)
      subgoal for p
        by (rule that [of "Add_stake (view mem (p, 20))"]) (simp_all add: c1 v staking_type_defs)
      done
  next
    case set_active
    with rest show ?thesis
      apply (simp add: parse_staking_switch_def staking_type_defs flatten_simps)
      apply (erule r64.run_elim, rule c1)
      apply (simp add: andthen_eq_Ok [of "parse_amount _ _"], elim exE conjE)
      apply (erule staking_proof_elim, assumption, simp add: staking_type_defs)
      apply (drule check_end, assumption)
      subgoal for n c' s pk sig
        by (rule that [of "Set_active_stake n pk sig"]) (simp_all add: c1 v staking_type_defs)
      done
  next
    case retire
    with rest show ?thesis
      apply (simp add: parse_staking_switch_def staking_type_defs flatten_simps)
      apply (erule r64.run_elim, rule c1)
      apply (simp add: andthen_eq_Ok [of "parse_amount _ _"], elim exE conjE)
      apply (erule staking_proof_elim, assumption, simp add: staking_type_defs)
      apply (drule check_end, assumption)
      subgoal for n c' s pk sig
        by (rule that [of "Retire_stake n pk sig"]) (simp_all add: c1 v staking_type_defs)
      done
  qed
qed


section \<open>Memory safety and field bounds\<close>

fun staking_specific_fits :: "staking_specific_t \<Rightarrow> bool" where
  "staking_specific_fits No_staking_specific = True"
| "staking_specific_fits (Create_staker_or_update_staker delegation reactivate) =
     (length delegation < STRING_LENGTH_USER_FRIENDLY_ADDRESS \<and>
      (\<forall>s. reactivate = Some s \<longrightarrow> length s < STRING_LENGTH_YES_NO))"
| "staking_specific_fits (Set_active_stake_or_retire_stake amount) =
     (length amount < STRING_LENGTH_NIM_AMOUNT_WITH_TICKER)"

definition staking_fits :: "tx_data_staking_incoming_t \<Rightarrow> bool" where
  "staking_fits out =
     (length (validator_or_staker_address out) < STRING_LENGTH_USER_FRIENDLY_ADDRESS \<and>
      staking_specific_fits (staking_specific out))"

lemma address_capacity: "0 < STRING_LENGTH_USER_FRIENDLY_ADDRESS"
  by (simp add: length_defs)

lemma length_yes_no: "length (yes_no b) < STRING_LENGTH_YES_NO"
  by (simp add: yes_no_def length_defs)

lemma delivers_print_address_fits:
  assumes "length a = 20"
    and "\<And>s. length s < STRING_LENGTH_USER_FRIENDLY_ADDRESS \<Longrightarrow> P s"
  shows "delivers P (print_address a)"
  using assms(1) by (intro address.delivers_print assms(2) address.fits)

lemma delivers_parse_amount_fits:
  assumes "\<And>s. length s < STRING_LENGTH_NIM_AMOUNT_WITH_TICKER \<Longrightarrow> P s"
  shows "delivers P (parse_amount n (Some ''NIM''))"
  by (intro delivers_parse_amount assms amount.fits)

lemma delivers_address_at:
  assumes "wf_cursor mem (p, 20)" "p \<noteq> None"
    and "\<And>a. length a = 20 \<Longrightarrow> P a"
  shows "delivers P (bytes_at mem p 20)"
  using assms by (intro delivers_bytes_at [of mem p 20]) simp_all

lemmas fits_intros = delivers_ints delivers_read_bool delivers_read_sub_buffer delivers_address_at
  delivers_print_address_fits delivers_parse_amount_fits delivers_read_signature_proof

lemma delivers_parse_staking_switch:
  assumes "wf_cursor mem c"
    and "\<And>specific eff c'. wf_cursor mem c' \<Longrightarrow> staking_specific_fits specific \<Longrightarrow>
      (\<And>a. eff = Some a \<Longrightarrow> length a = 20) \<Longrightarrow> P ((specific, eff), c')"
  shows "delivers P (parse_staking_switch mem t c)"
proof -
  have "delivers P (parse_staking_switch mem t c)" if "t = CREATE_STAKER \<or> t = UPDATE_STAKER"
    using that assms(1)
    by (auto simp: parse_staking_switch_def address_capacity length_yes_no staking_type_defs
        simp del: wf_cursor.simps view.simps intro!: fits_intros assms(2))
  moreover have "delivers P (parse_staking_switch mem t c)"
    if "\<not> (t = CREATE_STAKER \<or> t = UPDATE_STAKER)"
    using that assms(1)
    by (auto simp: parse_staking_switch_def simp del: wf_cursor.simps view.simps
        intro!: fits_intros assms(2))
  ultimately show ?thesis by blast
qed

definition proof_present :: "u8 list \<Rightarrow> signature_proof_t \<Rightarrow> bool" where
  "proof_present mem sp =
     (\<exists>pk sig. length pk = 32 \<and> length sig = 64 \<and> proof_at mem pk sig sp)"

lemma delivers_parse_staking_proof:
  assumes "wf_cursor mem c" "hash_ok blake2b" "\<And>a. eff = Some a \<Longrightarrow> length a = 20"
    and "\<And>sp eff c'. wf_cursor mem c' \<Longrightarrow> (\<And>a. eff = Some a \<Longrightarrow> length a = 20) \<Longrightarrow>
      (case sp of None \<Rightarrow> t = ADD_STAKE
       | Some s \<Rightarrow> t \<noteq> ADD_STAKE \<and> proof_present mem s) \<Longrightarrow>
      P ((sp, eff), c')"
  shows "delivers P (parse_staking_proof blake2b mem t eff c)"
proof (cases "t = ADD_STAKE")
  case True
  then show ?thesis using assms by (simp add: parse_staking_proof_def)
next
  case False
  have "delivers (\<lambda>(sp, data). delivers P
      (andthen (check (type_and_flags sp \<noteq> 0 \<or> merkle_path_length sp \<noteq> 0) ERROR_NOT_SUPPORTED) (\<lambda>_.
      andthen (is_empty_default_signature_proof mem sp) (\<lambda>empty.
      if \<not> empty then
          andthen (bytes_at mem (public_key sp) 32) (\<lambda>pk.
          andthen (public_key_to_address blake2b pk) (\<lambda>a.
          Ok ((Some sp, Some a), data)))
        else Ok ((Some sp, eff), data))))) (read_signature_proof mem c)"
  proof (rule delivers_read_signature_proof [OF assms(1)], unfold prod.case, goal_cases)
    case (1 pk sig sp c')
    then have sp: "proof_present mem sp" by (auto simp: proof_present_def)
    show ?case
      using 1 False sp assms(2,3)
      by (auto simp: is_empty_default_iff [OF 1(4)] bytes_at_proof [OF 1(4)] public_key_to_address_def
          split: option.splits intro!: assms(4) simp del: wf_cursor.simps)
  qed
  then show ?thesis using False by (simp add: parse_staking_proof_def case_prod_unfold)
qed

lemma delivers_parse_staking_incoming_data [delivers_intros]:
  assumes "wf_cursor mem c" "hash_ok blake2b" "wf_cursor mem (sender, 20)" "sender \<noteq> None"
    and "\<And>out. staking_fits out \<Longrightarrow>
      has_validator_or_staker_signature_proof out = (staking_type out \<noteq> ADD_STAKE) \<Longrightarrow>
      (case validator_or_staker_signature_proof out of None \<Rightarrow> staking_type out = ADD_STAKE
       | Some s \<Rightarrow> staking_type out \<noteq> ADD_STAKE \<and> proof_present mem s) \<Longrightarrow> P out"
  shows "delivers P (parse_staking_incoming_data blake2b mem version c sender)"
  using assms(1-4)
  by (auto simp: parse_staking_incoming_data_def staking_fits_def address_capacity
      simp del: wf_cursor.simps view.simps split: option.split
      intro!: fits_intros delivers_parse_staking_switch delivers_parse_staking_proof assms(5))

lemma is_staking_contract_iff:
  assumes "wf_cursor mem (p, 20)" "p \<noteq> None"
  shows "is_staking_contract mem p = Ok (view mem (p, 20) = replicate 19 0 @ [1])"
proof -
  obtain off where p: "p = Some off" and le: "off + 20 \<le> length mem" using assms by auto
  have v: "view mem (p, 20) = take 19 (drop off mem) @ [mem ! (off + 19)]"
    using le p take_Suc_conv_app_nth [of 19 "drop off mem"] by simp
  have "length (take 19 (drop off mem)) = 19" using le by simp
  then show ?thesis
    using le unfolding v by (auto simp: is_staking_contract_def all_zero_iff deref_def p)
qed

lemma parse_staking_outgoing_eq:
  assumes "wf_cursor mem c" "version \<noteq> TRANSACTION_VERSION_LEGACY"
  shows "parse_staking_outgoing_data mem version c =
    (case view mem c of [] \<Rightarrow> Err ERROR_READ
     | t # rest \<Rightarrow> if t \<noteq> DELETE_VALIDATOR \<and> t \<noteq> REMOVE_STAKE then Err ERROR_INCORRECT_DATA
         else if rest \<noteq> [] then Err ERROR_INVALID_LENGTH else Ok t)"
proof (cases "view mem c")
  case Nil
  then show ?thesis
    using assms r8.read_too_short [OF assms(1)] by (simp add: parse_staking_outgoing_data_def)
next
  case (Cons t rest)
  have "andthen (or_error (read_u8 mem c) ERROR_READ) (\<lambda>(t, sender_data).
     andthen (check (t \<noteq> DELETE_VALIDATOR \<and> t \<noteq> REMOVE_STAKE) ERROR_INCORRECT_DATA) (\<lambda>_.
     andthen (check (snd sender_data \<noteq> 0) ERROR_INVALID_LENGTH) (\<lambda>_. Ok t))) =
     (if t \<noteq> DELETE_VALIDATOR \<and> t \<noteq> REMOVE_STAKE then Err ERROR_INCORRECT_DATA
         else if rest \<noteq> [] then Err ERROR_INVALID_LENGTH else Ok t)"
    by (rule reads_u8 [OF assms(1) Cons]) (auto simp: check_def view_Nil_iff)
  then show ?thesis using Cons assms(2) by (simp add: parse_staking_outgoing_data_def)
qed

lemma delivers_parse_staking_outgoing_data [delivers_intros]:
  assumes "wf_cursor mem c" and "\<And>t. P t"
  shows "delivers P (parse_staking_outgoing_data mem version c)"
  using assms by (auto simp: parse_staking_outgoing_data_def intro!: delivers_intros)

section \<open>Properties\<close>

text \<open>
  C30: Incoming staking data, complete and sound. From well-formed data of a supported type the
  parser computes exactly the specified display (delegation, reactivation, amount, and the staker
  address recovered from the signature proof when it is not the sender), or the same error; and it
  returns a result only for Albatross transactions whose data is, to the last byte, such data.
\<close>

theorem staking_parser_correct:
  assumes "hash_ok blake2b" "wf_cursor mem c" "wf_cursor mem (sender, 20)" "sender \<noteq> None"
  shows "(\<forall>d. staking_data_ok d \<and> view mem c = staking_data_bytes d \<and> version \<noteq> TRANSACTION_VERSION_LEGACY \<longrightarrow>
      andthen (parse_staking_incoming_data blake2b mem version c sender) (\<lambda>out. Ok (displayed_staking out)) =
      staking_display blake2b (view mem (sender, 20)) d) \<and>
    (\<forall>out. parse_staking_incoming_data blake2b mem version c sender = Ok out \<longrightarrow>
      version \<noteq> TRANSACTION_VERSION_LEGACY \<and> (\<exists>d. staking_data_ok d \<and> view mem c = staking_data_bytes d))"
  using parse_staking_incoming_eq [OF _ assms(1) _ assms(2) _ assms(3,4) refl]
    parse_staking_incoming_sound [OF _ assms(2), of blake2b version sender]
  by metis

theorem staking_parser_correct_witness:
  "andthen (parse_staking_incoming_data (\<lambda>_. Some (replicate 32 9)) (ADD_STAKE # replicate 40 7)
      TRANSACTION_VERSION_ALBATROSS (Some 0, 21) (Some 21)) (\<lambda>out. Ok (displayed_staking out)) =
    Ok (ADD_STAKE, No_staking_specific, '''')"
proof -
  let ?mem = "ADD_STAKE # replicate 40 7"
  have "TRANSACTION_VERSION_ALBATROSS \<noteq> TRANSACTION_VERSION_LEGACY" by (simp add: version_defs)
  then have "andthen (parse_staking_incoming_data (\<lambda>_. Some (replicate 32 9)) ?mem
        TRANSACTION_VERSION_ALBATROSS (Some 0, 21) (Some 21)) (\<lambda>out. Ok (displayed_staking out)) =
      staking_display (\<lambda>_. Some (replicate 32 9)) (view ?mem (Some 21, 20)) (Add_stake (replicate 20 7))"
    by (intro staking_parser_correct [THEN conjunct1, rule_format]) auto
  then show ?thesis by (simp add: shown_staker_def)
qed

end
