(* ===== verification/Contracts.thy ===== *)
theory Contracts
  imports Address Staking
begin

text \<open>
  The contract creation data: \<^verbatim>\<open>parse_htlc_creation_data\<close> and \<^verbatim>\<open>parse_vesting_creation_data\<close> of
  \<^verbatim>\<open>src/src/nimiq_utils.c\<close>. The computation of the vesting schedule inside the latter is the
  definition \<open>vesting_schedule\<close>, on words of the widths of the C variables.

  The specification of the display is independent of the code: a table of the hash algorithms, and the
  terms of a vesting contract in natural numbers.
  The lemmas show that the parsers on serialized data display exactly what the specification says,
  that accepted data is serialized data, and that the displayed vesting schedule is the release
  schedule of the vesting contract, in natural numbers.
\<close>

section \<open>HTLC creation\<close>

record tx_data_htlc_creation_t =
  is_refund_address_sender_address :: bool
  is_timing_out_soon :: bool
  is_using_sha256 :: bool
  redeem_address :: string
  refund_address :: string
  hash_root :: string
  hash_algorithm :: string
  hash_count :: string
  timeout :: string

definition hash_algorithm_name :: "hash_algorithm_t \<Rightarrow> (error_t, string) result" where
  "hash_algorithm_name alg =
     (if alg = HASH_ALGORITHM_BLAKE2B then Ok ''BLAKE2b''
      else if alg = HASH_ALGORITHM_SHA256 then Ok ''SHA-256''
      else if alg = HASH_ALGORITHM_SHA512 then Ok ''SHA-512''
      else Err ERROR_INCORRECT_DATA)"

text \<open>
  \<^verbatim>\<open>memcmp\<close> of two addresses. \<open>hash_root_text\<close> is \<^verbatim>\<open>print_hex\<close> into the 129 characters of the field.
\<close>

definition same_address :: "u8 list \<Rightarrow> ptr \<Rightarrow> ptr \<Rightarrow> ('e, bool) result" where
  "same_address mem p q =
     andthen (bytes_at mem p 20) (\<lambda>a. andthen (bytes_at mem q 20) (\<lambda>b. Ok (a = b)))"

definition hash_root_text :: "u8 list \<Rightarrow> (error_t, string) result" where
  "hash_root_text root =
     andthen (print_hex root (replicate (64 * 2 + 1) NUL) (64 * 2 + 1)) (\<lambda>arr. Ok (c_string arr))"

definition timing_out_soon :: "u32 \<Rightarrow> u32 \<Rightarrow> bool" where
  "timing_out_soon t validity_start_height =
     (t < validity_start_height \<or> t - validity_start_height < HTLC_TIMEOUT_SOON_THRESHOLD)"

definition parse_htlc_creation_data ::
    "u8 list \<Rightarrow> transaction_version_t \<Rightarrow> cursor \<Rightarrow> ptr \<Rightarrow> account_type_t \<Rightarrow> u32 \<Rightarrow>
     (error_t, tx_data_htlc_creation_t) result" where
  "parse_htlc_creation_data mem version data sender sender_type validity_start_height =
     andthen (check (version \<noteq> TRANSACTION_VERSION_LEGACY) ERROR_NOT_SUPPORTED) (\<lambda>_.
     andthen (or_error (read_sub_buffer 20 data) ERROR_READ) (\<lambda>(refund_address_bytes, data).
     andthen (bytes_at mem refund_address_bytes 20) (\<lambda>refund.
     andthen (print_address refund) (\<lambda>refund_text.
     andthen (same_address mem refund_address_bytes sender) (\<lambda>refund_is_sender.
     andthen (check (refund_is_sender \<and> sender_type \<noteq> ACCOUNT_TYPE_BASIC) ERROR_INCORRECT_DATA) (\<lambda>_.
     andthen (or_error (read_sub_buffer 20 data) ERROR_READ) (\<lambda>(redeem_address_bytes, data).
     andthen (bytes_at mem redeem_address_bytes 20) (\<lambda>redeem.
     andthen (print_address redeem) (\<lambda>redeem_text.
     andthen (or_error (read_u8 mem data) ERROR_READ) (\<lambda>(alg, data).
     andthen (hash_algorithm_name alg) (\<lambda>alg_text.
     andthen (or_error (read_sub_buffer (if alg = HASH_ALGORITHM_SHA512 then 64 else 32) data) ERROR_READ)
       (\<lambda>(hash_bytes, data).
     andthen (bytes_at mem hash_bytes (if alg = HASH_ALGORITHM_SHA512 then 64 else 32)) (\<lambda>root.
     andthen (hash_root_text root) (\<lambda>root_text.
     andthen (or_error (read_u8 mem data) ERROR_READ) (\<lambda>(count, data).
     andthen (or_error (read_u32 mem data) ERROR_READ) (\<lambda>(t, data).
     andthen (check (snd data \<noteq> 0) ERROR_INVALID_LENGTH) (\<lambda>_.
     Ok \<lparr>is_refund_address_sender_address = refund_is_sender,
         is_timing_out_soon = timing_out_soon t validity_start_height,
         is_using_sha256 = (alg = HASH_ALGORITHM_SHA256),
         redeem_address = redeem_text, refund_address = refund_text, hash_root = root_text,
         hash_algorithm = alg_text,
         hash_count = snprintf STRING_LENGTH_UINT8 (dec (unat count)),
         timeout = snprintf STRING_LENGTH_UINT32 (dec (unat t))\<rparr>)))))))))))))))))"

section \<open>Vesting creation\<close>

record tx_data_vesting_creation_t =
  is_owner_address_sender_address :: bool
  is_multi_step :: bool
  owner_address :: string
  start_block :: string
  period :: string
  step_count :: string
  step_block_count :: string
  first_step_block_count :: string
  first_step_block :: string
  step_amount :: string
  first_step_amount :: string
  last_step_amount :: string
  pre_vested_amount :: string

text \<open>The local variables of the parser that are printed at its end.\<close>

record vesting_schedule_t =
  vs_start_block :: u32
  vs_step_block_count :: u32
  vs_step_amount :: u64
  vs_step_count :: u32
  vs_period :: u32
  vs_first_step_block_count :: u32
  vs_first_step_amount :: u64
  vs_last_step_amount :: u64
  vs_pre_vested_amount :: u64

definition UINT32_MAX :: u64 where
  "UINT32_MAX = 0xFFFFFFFF"

text \<open>
  The computation from \<^verbatim>\<open>step_count\<close> to \<^verbatim>\<open>pre_vested_amount\<close>, for the values of
  \<^verbatim>\<open>start_block\<close>, \<^verbatim>\<open>step_block_count\<close>, \<^verbatim>\<open>step_amount\<close> and \<^verbatim>\<open>total_locked_amount\<close> read before.
  Assignments to \<^verbatim>\<open>uint32_t\<close> variables truncate.
\<close>

definition vesting_schedule ::
    "u64 \<Rightarrow> u32 \<Rightarrow> u32 \<Rightarrow> u64 \<Rightarrow> u64 \<Rightarrow> (error_t, vesting_schedule_t) result" where
  "vesting_schedule tx_amount start block_count amount locked =
     (if block_count = 0 \<or> amount = 0 then
        Ok \<lparr>vs_start_block = 0, vs_step_block_count = 0, vs_step_amount = tx_amount,
            vs_step_count = 0, vs_period = 0, vs_first_step_block_count = 0,
            vs_first_step_amount = tx_amount, vs_last_step_amount = tx_amount,
            vs_pre_vested_amount = tx_amount\<rparr>
      else
        let steps = locked div amount + (if locked mod amount \<noteq> 0 then 1 else 0) in
        andthen (check (steps > UINT32_MAX) ERROR_INCORRECT_DATA) (\<lambda>_.
        let count = (if locked \<le> tx_amount then ucast steps
                     else ucast (ucast (ucast steps :: u32) - (locked - tx_amount) div amount));
            blocks = steps * ucast block_count in
        andthen (check (blocks + ucast start > UINT32_MAX) ERROR_INCORRECT_DATA) (\<lambda>_.
        Ok \<lparr>vs_start_block = start, vs_step_block_count = block_count, vs_step_amount = amount,
            vs_step_count = count, vs_period = ucast blocks,
            vs_first_step_block_count =
              (if tx_amount < locked
               then ucast (ucast block_count + (locked - tx_amount) div amount * ucast block_count :: u64)
               else block_count),
            vs_first_step_amount =
              (if tx_amount < locked then amount - (locked - tx_amount) mod amount else amount),
            vs_last_step_amount = (if locked mod amount \<noteq> 0 then locked mod amount else amount),
            vs_pre_vested_amount = (if tx_amount > locked then tx_amount - locked else 0)\<rparr>)))"

text \<open>\<^verbatim>\<open>"%u block%c"\<close>, where the character is the plural s or the terminator.\<close>

definition blocks_text :: "u32 \<Rightarrow> string" where
  "blocks_text n =
     c_string (snprintf (STRING_LENGTH_WITH_SUFFIX STRING_LENGTH_UINT32 '' blocks'')
       (dec (unat n) @ '' block'' @ [if n \<noteq> 1 then CHR ''s'' else NUL]))"

definition print_vesting_schedule ::
    "bool \<Rightarrow> string \<Rightarrow> vesting_schedule_t \<Rightarrow> (error_t, tx_data_vesting_creation_t) result" where
  "print_vesting_schedule owner_is_sender owner_text s =
     andthen (or_error (parse_amount (vs_step_amount s) (Some ''NIM'')) ERROR_INCORRECT_DATA) (\<lambda>step_text.
     andthen (or_error (parse_amount (vs_first_step_amount s) (Some ''NIM'')) ERROR_INCORRECT_DATA) (\<lambda>first_text.
     andthen (or_error (parse_amount (vs_last_step_amount s) (Some ''NIM'')) ERROR_INCORRECT_DATA) (\<lambda>last_text.
     andthen (or_error (parse_amount (vs_pre_vested_amount s) (Some ''NIM'')) ERROR_INCORRECT_DATA) (\<lambda>pre_text.
     Ok \<lparr>is_owner_address_sender_address = owner_is_sender,
         is_multi_step = (vs_step_count s > 1),
         owner_address = owner_text,
         start_block = snprintf STRING_LENGTH_UINT32 (dec (unat (vs_start_block s))),
         period = blocks_text (vs_period s),
         step_count = snprintf STRING_LENGTH_UINT32 (dec (unat (vs_step_count s))),
         step_block_count = blocks_text (vs_step_block_count s),
         first_step_block_count = blocks_text (vs_first_step_block_count s),
         first_step_block = snprintf STRING_LENGTH_UINT32
           (dec (unat (vs_start_block s + vs_first_step_block_count s))),
         step_amount = step_text, first_step_amount = first_text, last_step_amount = last_text,
         pre_vested_amount = pre_text\<rparr>))))"

text \<open>
  The vesting parameters at the end of the data; what is missing keeps its default. Returns
  \<^verbatim>\<open>start_block\<close>, \<^verbatim>\<open>step_block_count\<close>, \<^verbatim>\<open>step_amount\<close>, \<^verbatim>\<open>total_locked_amount\<close>.
\<close>

definition read_vesting_parameters ::
    "u8 list \<Rightarrow> u64 \<Rightarrow> cursor \<Rightarrow> (error_t, (u32 \<times> u32 \<times> u64 \<times> u64) \<times> cursor) result" where
  "read_vesting_parameters mem tx_amount data =
     (if snd data = 4 then
        andthen (or_error (read_u32 mem data) ERROR_READ) (\<lambda>(block_count, data).
        Ok ((0, block_count, tx_amount, tx_amount), data))
      else
        andthen (or_error (read_u32 mem data) ERROR_READ) (\<lambda>(start, data).
        andthen (or_error (read_u32 mem data) ERROR_READ) (\<lambda>(block_count, data).
        andthen (or_error (read_u64 mem data) ERROR_READ) (\<lambda>(amount, data).
        if snd data = 8 then
          andthen (or_error (read_u64 mem data) ERROR_READ) (\<lambda>(locked, data).
          Ok ((start, block_count, amount, locked), data))
        else Ok ((start, block_count, amount, tx_amount), data)))))"

definition parse_vesting_creation_data ::
    "u8 list \<Rightarrow> transaction_version_t \<Rightarrow> cursor \<Rightarrow> ptr \<Rightarrow> account_type_t \<Rightarrow> u64 \<Rightarrow>
     (error_t, tx_data_vesting_creation_t) result" where
  "parse_vesting_creation_data mem version data sender sender_type tx_amount =
     andthen (check (version \<noteq> TRANSACTION_VERSION_LEGACY) ERROR_NOT_SUPPORTED) (\<lambda>_.
     andthen (or_error (read_sub_buffer 20 data) ERROR_READ) (\<lambda>(owner_address_bytes, data).
     andthen (bytes_at mem owner_address_bytes 20) (\<lambda>owner.
     andthen (print_address owner) (\<lambda>owner_text.
     andthen (same_address mem owner_address_bytes sender) (\<lambda>owner_is_sender.
     andthen (check (owner_is_sender \<and> sender_type \<noteq> ACCOUNT_TYPE_BASIC) ERROR_INCORRECT_DATA) (\<lambda>_.
     andthen (read_vesting_parameters mem tx_amount data) (\<lambda>((start, block_count, amount, locked), data).
     andthen (check (snd data \<noteq> 0) ERROR_INVALID_LENGTH) (\<lambda>_.
     andthen (vesting_schedule tx_amount start block_count amount locked) (\<lambda>s.
     print_vesting_schedule owner_is_sender owner_text s)))))))))"

section \<open>Printed numbers\<close>

lemma snprintf_dec [simp]:
  "snprintf STRING_LENGTH_UINT8 (dec (unat (a :: u8))) = dec (unat a)"
  "snprintf STRING_LENGTH_UINT32 (dec (unat (b :: u32))) = dec (unat b)"
  using length_dec_u8 [of a] length_dec_u32 [of b] by (simp_all add: snprintf_def length_defs)

lemma dec_no_NUL: "NUL \<notin> set (dec n)"
  using dec_digits [of n] is_digit_not(2) by blast

lemma blocks_text_eq:
  "blocks_text n = dec (unat n) @ '' block'' @ (if n \<noteq> 1 then ''s'' else [])"
proof -
  let ?t = "dec (unat n) @ '' block'' @ [if n \<noteq> 1 then CHR ''s'' else NUL]"
  have "snprintf (STRING_LENGTH_WITH_SUFFIX STRING_LENGTH_UINT32 '' blocks'') ?t = ?t"
    using length_dec_u32 [of n] by (simp add: snprintf_def length_defs)
  then have t: "blocks_text n = c_string ?t" by (simp add: blocks_text_def)
  have no: "NUL \<notin> set (dec (unat n) @ '' block'')" "NUL \<notin> set ''s''"
    using dec_no_NUL [of "unat n"] by (simp_all add: NUL_def)
  show ?thesis
  proof (cases "n = 1")
    case True
    then show ?thesis unfolding t using c_string_no_NUL [OF no(1), of "[]"] by simp
  next
    case False
    have "c_string s = s" if "NUL \<notin> set s" for s
      using that by (auto simp: c_string_def takeWhile_eq_all_conv)
    from this [of ?t] show ?thesis unfolding t using False no by auto
  qed
qed

lemma takeWhile_dec: "takeWhile is_digit (dec n @ CHR '' '' # s) = dec n"
  using dec_digits [of n] by (simp add: takeWhile_append)

lemma blocks_text_inject: "blocks_text m = blocks_text n \<longleftrightarrow> m = n"
proof
  assume "blocks_text m = blocks_text n"
  then have "takeWhile is_digit (blocks_text m) = takeWhile is_digit (blocks_text n)" by simp
  then show "m = n" by (simp add: blocks_text_eq takeWhile_dec dec_inject word_unat_eq_iff)
qed simp

lemma hash_root_text_eq:
  assumes "root \<noteq> []" "length root \<le> 64"
  shows "hash_root_text root = Ok (hex_string root)"
  using assms c_string_no_NUL [OF hex_string_no_NUL, of root]
  by (simp add: hash_root_text_def print_hex_result)

lemma same_address_eq:
  assumes "wf_cursor mem (p, 20)" "p \<noteq> None" "wf_cursor mem (q, 20)" "q \<noteq> None"
  shows "same_address mem p q = Ok (view mem (p, 20) = view mem (q, 20))"
  using assms by (auto simp: same_address_def bytes_at_def)

lemma timing_out_soon_iff:
  "timing_out_soon t h \<longleftrightarrow> unat t < unat h + 89280"
proof -
  have "unat (t - h) = unat t - unat h" if "\<not> t < h"
    using that by (intro unat_sub) simp
  then show ?thesis
    by (cases "t < h") (auto simp: timing_out_soon_def HTLC_TIMEOUT_SOON_THRESHOLD_def word_less_nat_alt)
qed

section \<open>HTLC data\<close>

record htlc_data =
  h_refund :: "u8 list"
  h_redeem :: "u8 list"
  h_algorithm :: hash_algorithm_t
  h_root :: "u8 list"
  h_count :: u8
  h_timeout :: u32

definition htlc_ok :: "htlc_data \<Rightarrow> bool" where
  "htlc_ok h = (length (h_refund h) = 20 \<and> length (h_redeem h) = 20 \<and>
     length (h_root h) = (if h_algorithm h = HASH_ALGORITHM_SHA512 then 64 else 32))"

definition htlc_bytes :: "htlc_data \<Rightarrow> u8 list" where
  "htlc_bytes h = h_refund h @ h_redeem h @ h_algorithm h # h_root h @ h_count h #
     be_bytes 4 (unat (h_timeout h))"

text \<open>
  The hash algorithms that a contract may use, by their number in the serialization, with the names
  they are displayed with; any other number is an error.
\<close>

definition displayed_algorithms :: "(u8 \<times> string) list" where
  "displayed_algorithms = [(1, ''BLAKE2b''), (3, ''SHA-256''), (4, ''SHA-512'')]"

definition algorithm_text :: "u8 \<Rightarrow> (error_t, string) result" where
  "algorithm_text alg =
     (case map_of displayed_algorithms alg of
        None \<Rightarrow> Err ERROR_INCORRECT_DATA
      | Some name \<Rightarrow> Ok name)"

lemma hash_algorithm_name_eq: "hash_algorithm_name = algorithm_text"
  by (simp add: fun_eq_iff hash_algorithm_name_def algorithm_text_def displayed_algorithms_def
      hash_algorithm_defs)

definition htlc_display ::
    "u8 list \<Rightarrow> account_type_t \<Rightarrow> u32 \<Rightarrow> htlc_data \<Rightarrow> (error_t, tx_data_htlc_creation_t) result" where
  "htlc_display sender sender_type validity_start_height h =
     andthen (check (h_refund h = sender \<and> sender_type \<noteq> ACCOUNT_TYPE_BASIC) ERROR_INCORRECT_DATA) (\<lambda>_.
     andthen (algorithm_text (h_algorithm h)) (\<lambda>name.
     Ok \<lparr>is_refund_address_sender_address = (h_refund h = sender),
         is_timing_out_soon = (unat (h_timeout h) < unat validity_start_height + 89280),
         is_using_sha256 = (h_algorithm h = HASH_ALGORITHM_SHA256),
         redeem_address = address_text (h_redeem h), refund_address = address_text (h_refund h),
         hash_root = hex_string (h_root h), hash_algorithm = name,
         hash_count = dec (unat (h_count h)), timeout = dec (unat (h_timeout h))\<rparr>))"

lemma parse_htlc_eq:
  assumes "htlc_ok h" "wf_cursor mem c" "view mem c = htlc_bytes h"
    and "wf_cursor mem (sender, 20)" "sender \<noteq> None" "view mem (sender, 20) = sb"
  shows "parse_htlc_creation_data mem TRANSACTION_VERSION_LEGACY c sender sender_type height =
    htlc_display sb sender_type height h"
proof -
  define n :: u16 where "n = (if h_algorithm h = HASH_ALGORITHM_SHA512 then 64 else 32)"
  have n: "length (h_root h) = unat n" "(if h_algorithm h = HASH_ALGORITHM_SHA512 then 64 else 32) = unat n"
    and n0: "n \<noteq> 0" and root: "h_root h \<noteq> []" "length (h_root h) \<le> 64"
    using assms(1) by (auto simp: htlc_ok_def n_def split: if_splits)
  have len: "length (h_refund h) = 20" "length (h_redeem h) = 20"
    using assms(1) by (simp_all add: htlc_ok_def)
  show ?thesis
    unfolding parse_htlc_creation_data_def htlc_display_def
    apply (simp only: check_simps andthen_simps simp_thms)
    apply (rule reads_sub_buffer [OF assms(2), of "h_refund h"])
      apply (simp add: assms(3) htlc_bytes_def)
     apply (simp add: len)
    apply (rule reads_bytes_at, assumption, assumption, simp, simp)
    apply (simp add: print_address_eq len same_address_eq assms(4-6))
    apply (rule andthen_cong [OF refl])
    apply (rule reads_sub_buffer [where mem = mem and bs = "h_redeem h"], assumption, assumption)
     apply (simp add: len)
    apply (rule reads_bytes_at, assumption, assumption, simp, simp)
    apply (simp only: print_address_eq len andthen_simps)
    apply (rule reads_u8, assumption, assumption)
    apply (rule andthen_cong, simp only: hash_algorithm_name_eq)
    apply (simp only: n_def [symmetric] n(2))
    apply (rule reads_sub_buffer [where mem = mem and bs = "h_root h"], assumption, assumption, rule n(1))
    apply (rule reads_bytes_at, assumption, assumption, simp add: n0, rule refl)
    apply (simp only: hash_root_text_eq [OF root] andthen_simps)
    apply (rule reads_u8, assumption, assumption)
    apply (rule r32.run [where x = "h_timeout h" and rest = "[]"], assumption, simp)
    by (simp add: view_Nil_iff timing_out_soon_iff)
qed

text \<open>Whatever the parser accepts is the serialization of HTLC data.\<close>

lemma parse_htlc_sound:
  assumes "parse_htlc_creation_data mem version c sender sender_type height = Ok out" "wf_cursor mem c"
  obtains h where "htlc_ok h" "view mem c = htlc_bytes h" "version = TRANSACTION_VERSION_LEGACY"
proof -
  show thesis
    apply (insert assms(1))
    apply (unfold parse_htlc_creation_data_def)
    apply (erule read_elims_check)
    apply (erule read_elims_sub_buffer [where mem = mem], rule assms(2))
    apply (simp only: andthen_eq_Ok [of "bytes_at _ _ _"] andthen_eq_Ok [of "print_address _"]
        andthen_eq_Ok [of "same_address _ _ _"], elim exE conjE)
    apply (erule read_elims_check)
    apply (erule read_elims_sub_buffer [where mem = mem], assumption)
    apply (simp only: andthen_eq_Ok [of "bytes_at _ _ _"] andthen_eq_Ok [of "print_address _"], elim exE conjE)
    apply (erule read_elims_u8, assumption)
    apply (simp only: andthen_eq_Ok [of "hash_algorithm_name _"], elim exE conjE)
    apply (erule read_elims_sub_buffer [where mem = mem], assumption)
    apply (simp only: andthen_eq_Ok [of "bytes_at _ _ _"] andthen_eq_Ok [of "hash_root_text _"], elim exE conjE)
    apply (erule read_elims_u8, assumption)
    apply (erule r32.run_elim, assumption)
    apply (drule check_end, assumption)
    subgoal for p _ _ _ _ q _ _ _ alg _ _ root _ _ _ count _ t
      by (rule that [of "\<lparr>h_refund = view mem (p, 20), h_redeem = view mem (q, 20), h_algorithm = alg,
          h_root = view mem (root, if alg = HASH_ALGORITHM_SHA512 then 64 else 32),
          h_count = count, h_timeout = t\<rparr>"])
        (simp_all add: htlc_ok_def htlc_bytes_def)
    done
qed

lemma algorithm_text_inject: "algorithm_text a = Ok s \<Longrightarrow> algorithm_text b = Ok s \<Longrightarrow> a = b"
  by (auto simp: algorithm_text_def displayed_algorithms_def split: if_splits)

text \<open>What is displayed of an HTLC determines all of its data.\<close>

lemma htlc_display_inject:
  assumes "htlc_ok h" "htlc_ok h'"
    and "htlc_display sender st height h = Ok out" "htlc_display sender' st' height' h' = Ok out'"
    and "redeem_address out = redeem_address out'" "refund_address out = refund_address out'"
    and "hash_root out = hash_root out'" "hash_algorithm out = hash_algorithm out'"
    and "hash_count out = hash_count out'" "timeout out = timeout out'"
  shows "h = h'"
proof -
  obtain n n' where n: "algorithm_text (h_algorithm h) = Ok n" "algorithm_text (h_algorithm h') = Ok n'"
    and out: "redeem_address out = address_text (h_redeem h)" "refund_address out = address_text (h_refund h)"
      "hash_root out = hex_string (h_root h)" "hash_algorithm out = n"
      "hash_count out = dec (unat (h_count h))" "timeout out = dec (unat (h_timeout h))"
    and out': "redeem_address out' = address_text (h_redeem h')" "refund_address out' = address_text (h_refund h')"
      "hash_root out' = hex_string (h_root h')" "hash_algorithm out' = n'"
      "hash_count out' = dec (unat (h_count h'))" "timeout out' = dec (unat (h_timeout h'))"
    using assms(3,4) by (auto simp: htlc_display_def andthen_eq_Ok)
  have "h_algorithm h = h_algorithm h'"
    using n assms(8) algorithm_text_inject by (simp add: out out')
  moreover have "h_redeem h = h_redeem h'" "h_refund h = h_refund h'"
    using assms(1,2,5,6) address.text_inject by (simp_all add: out out' htlc_ok_def)
  moreover have "h_root h = h_root h'" "h_count h = h_count h'" "h_timeout h = h_timeout h'"
    using assms(7,9,10) by (simp_all add: out out' hex_string_inject dec_inject word_unat_eq_iff)
  ultimately show ?thesis by simp
qed

section \<open>Vesting data\<close>

datatype vesting_params =
    Vesting_steps_default u32
  | Vesting_steps u32 u32 u64
  | Vesting_steps_total u32 u32 u64 u64

fun vesting_params_bytes :: "vesting_params \<Rightarrow> u8 list" where
  "vesting_params_bytes (Vesting_steps_default bc) = be_bytes 4 (unat bc)"
| "vesting_params_bytes (Vesting_steps s bc a) = be_bytes 4 (unat s) @ be_bytes 4 (unat bc) @ be_bytes 8 (unat a)"
| "vesting_params_bytes (Vesting_steps_total s bc a l) =
     be_bytes 4 (unat s) @ be_bytes 4 (unat bc) @ be_bytes 8 (unat a) @ be_bytes 8 (unat l)"

fun vesting_params_values :: "u64 \<Rightarrow> vesting_params \<Rightarrow> u32 \<times> u32 \<times> u64 \<times> u64" where
  "vesting_params_values tx (Vesting_steps_default bc) = (0, bc, tx, tx)"
| "vesting_params_values tx (Vesting_steps s bc a) = (s, bc, a, tx)"
| "vesting_params_values tx (Vesting_steps_total s bc a l) = (s, bc, a, l)"

text \<open>
  The terms of a vesting contract in natural numbers, with the funds \<open>T\<close>, the locked total \<open>L\<close> and the
  parameters \<open>start\<close>, \<open>b\<close> and \<open>s\<close> (blocks and amount of a step). \<open>(L - T) div s\<close> steps release nothing
  but locked funds that are not there; the next one is the first that counts. Block numbers have 32
  bits, and so have the displayed ones.
\<close>

record vesting_terms =
  v_start :: nat
  v_step_blocks :: nat
  v_step_amount :: nat
  v_steps :: nat
  v_period :: nat
  v_first_step_blocks :: nat
  v_first_step :: nat
  v_first_amount :: nat
  v_last_amount :: nat
  v_pre_vested :: nat

definition ceil_div :: "nat \<Rightarrow> nat \<Rightarrow> nat" where
  "ceil_div m n = m div n + (if m mod n \<noteq> 0 then 1 else 0)"

definition vesting_terms :: "nat \<Rightarrow> nat \<Rightarrow> nat \<Rightarrow> nat \<Rightarrow> nat \<Rightarrow> (error_t, vesting_terms) result" where
  "vesting_terms T start b s L =
     (if b = 0 \<or> s = 0 then
        Ok \<lparr>v_start = 0, v_step_blocks = 0, v_step_amount = T, v_steps = 0, v_period = 0,
            v_first_step_blocks = 0, v_first_step = 0, v_first_amount = T, v_last_amount = T,
            v_pre_vested = T\<rparr>
      else if ceil_div L s \<ge> 2 ^ 32 \<or> start + ceil_div L s * b \<ge> 2 ^ 32 then Err ERROR_INCORRECT_DATA
      else
        let skipped = (L - T) div s in
        Ok \<lparr>v_start = start, v_step_blocks = b, v_step_amount = s,
            v_steps = ceil_div L s - skipped, v_period = ceil_div L s * b,
            v_first_step_blocks = (skipped + 1) * b mod 2 ^ 32,
            v_first_step = (start + (skipped + 1) * b) mod 2 ^ 32,
            v_first_amount = s - (L - T) mod s,
            v_last_amount = (if L mod s = 0 then s else L mod s), v_pre_vested = T - L\<rparr>)"

definition nim_text :: "nat \<Rightarrow> (error_t, string) result" where
  "nim_text n = (if n \<le> 2 ^ 53 - 1 then Ok (amount_string n @ '' NIM'') else Err ERROR_INCORRECT_DATA)"

definition number_of_blocks :: "nat \<Rightarrow> string" where
  "number_of_blocks n = dec n @ (if n = 1 then '' block'' else '' blocks'')"

definition terms_display ::
    "bool \<Rightarrow> string \<Rightarrow> vesting_terms \<Rightarrow> (error_t, tx_data_vesting_creation_t) result" where
  "terms_display owner_is_sender owner_text v =
     andthen (nim_text (v_step_amount v)) (\<lambda>step_text.
     andthen (nim_text (v_first_amount v)) (\<lambda>first_text.
     andthen (nim_text (v_last_amount v)) (\<lambda>last_text.
     andthen (nim_text (v_pre_vested v)) (\<lambda>pre_text.
     Ok \<lparr>is_owner_address_sender_address = owner_is_sender, is_multi_step = (2 \<le> v_steps v),
         owner_address = owner_text, start_block = dec (v_start v),
         period = number_of_blocks (v_period v), step_count = dec (v_steps v),
         step_block_count = number_of_blocks (v_step_blocks v),
         first_step_block_count = number_of_blocks (v_first_step_blocks v),
         first_step_block = dec (v_first_step v),
         step_amount = step_text, first_step_amount = first_text, last_step_amount = last_text,
         pre_vested_amount = pre_text\<rparr>))))"

definition vesting_display ::
    "u8 list \<Rightarrow> account_type_t \<Rightarrow> u64 \<Rightarrow> u8 list \<Rightarrow> vesting_params \<Rightarrow>
     (error_t, tx_data_vesting_creation_t) result" where
  "vesting_display sender sender_type tx_amount owner params =
     andthen (check (owner = sender \<and> sender_type \<noteq> ACCOUNT_TYPE_BASIC) ERROR_INCORRECT_DATA) (\<lambda>_.
     case vesting_params_values tx_amount params of (start, block_count, amount, locked) \<Rightarrow>
       andthen (vesting_terms (unat tx_amount) (unat start) (unat block_count) (unat amount) (unat locked))
         (terms_display (owner = sender) (address_text owner)))"

section \<open>The computation of the schedule in natural numbers\<close>

lemma ceil_div_le: "0 < n \<Longrightarrow> m \<le> ceil_div m n * n"
proof -
  assume "0 < n"
  then have le: "m mod n \<le> n" by simp
  have m: "m div n * n + m mod n = m" by simp
  show ?thesis
  proof (cases "m mod n = 0")
    case True
    with m show ?thesis by (simp add: ceil_div_def)
  next
    case False
    have "ceil_div m n * n = m div n * n + n" using False by (simp add: ceil_div_def)
    with m le show ?thesis by linarith
  qed
qed

lemma less_ceil_div: "0 < n \<Longrightarrow> q < ceil_div m n \<Longrightarrow> q * n < m"
proof -
  assume n: "0 < n" and q: "q < ceil_div m n"
  have m: "m = m div n * n + m mod n" by simp
  show ?thesis
  proof (cases "m mod n = 0")
    case True
    with q have "q * n < m div n * n" using n by (simp add: ceil_div_def)
    with m True show ?thesis by linarith
  next
    case False
    with q have "q * n \<le> m div n * n" by (simp add: ceil_div_def)
    with m False show ?thesis by linarith
  qed
qed

lemma unat_u64_of_u32 [simp]: "unat (ucast (w :: u32) :: u64) = unat w"
  by (simp add: unsigned_ucast_eq take_bit_nat_eq_self unat_bounds(3) [THEN less_trans])

lemma unat_u32_of_u64_mod: "unat (ucast (w :: u64) :: u32) = unat w mod 4294967296"
  by (simp add: unsigned_ucast_eq take_bit_eq_mod)

lemma unat_u32_of_u64: "unat (w :: u64) < 4294967296 \<Longrightarrow> unat (ucast w :: u32) = unat w"
  by (simp add: unat_u32_of_u64_mod)

lemma unat_steps:
  fixes l a :: u64
  assumes "a \<noteq> 0"
  shows "unat (l div a + (if l mod a \<noteq> 0 then 1 else 0)) = ceil_div (unat l) (unat a)"
proof -
  have a: "0 < unat a" using assms by (simp add: unat_gt_0)
  have mod0: "l mod a = 0 \<longleftrightarrow> unat l mod unat a = 0"
    by (simp add: word_unat_eq_iff unat_mod)
  show ?thesis
  proof (cases "l mod a = 0")
    case True
    then show ?thesis using mod0 by (simp add: ceil_div_def unat_div)
  next
    case False
    then have m: "unat l mod unat a \<noteq> 0" using mod0 by simp
    then have "unat l div unat a < 18446744073709551615"
    proof -
      have "unat l div unat a \<le> unat l" by simp
      moreover have "unat l div unat a \<noteq> 18446744073709551615"
      proof
        assume d: "unat l div unat a = 18446744073709551615"
        then have "18446744073709551615 * unat a + unat l mod unat a = unat l"
          by (metis div_mult_mod_eq)
        moreover have "unat l \<le> 18446744073709551615" using unat_bounds(4) [of l] by simp
        moreover have "18446744073709551615 * 1 \<le> 18446744073709551615 * unat a" using a by simp
        ultimately show False using m by linarith
      qed
      ultimately show ?thesis using unat_bounds(4) [of l] by linarith
    qed
    then have "unat (l div a + 1) = unat l div unat a + 1"
      by (subst unat_add_lem [THEN iffD1]) (simp_all add: unat_div)
    then show ?thesis using False m by (simp add: ceil_div_def)
  qed
qed

lemma unat_mult_u32:
  fixes n :: u64 and b :: u32
  assumes "unat n < 4294967296"
  shows "unat (n * ucast b) = unat n * unat b"
    and "unat (n * ucast b + ucast (c :: u32)) = unat n * unat b + unat c"
proof -
  have "unat n * unat b \<le> 4294967295 * 4294967295"
    using assms unat_bounds(3) [of b] by (intro mult_le_mono) simp_all
  moreover from this have "unat n * unat b + unat c < 18446744073709551616"
    using unat_bounds(3) [of c] by simp
  ultimately show 1: "unat (n * ucast b) = unat n * unat b"
    by (subst unat_mult_lem [THEN iffD1]) simp_all
  show "unat (n * ucast b + ucast c) = unat n * unat b + unat c"
    using \<open>unat n * unat b + unat c < 18446744073709551616\<close>
    by (subst unat_add_lem [THEN iffD1]) (simp_all add: 1)
qed

text \<open>
  The words of a computed schedule as natural numbers. Only the blocks of the first step may wrap.
\<close>

lemma skipped_steps_le:
  assumes "0 < s" "m = (L - T) div s" "N = ceil_div L s"
  shows "m \<le> (N :: nat)"
proof -
  have "m \<le> L div s" unfolding assms(2) by (intro div_le_mono) simp
  then show ?thesis by (simp add: assms(3) ceil_div_def)
qed

lemma vesting_schedule_error:
  assumes "bc \<noteq> 0" "a \<noteq> 0" "N = ceil_div (unat l) (unat a)"
  shows "N \<ge> 2 ^ 32 \<or> unat start + N * unat bc \<ge> 2 ^ 32 \<Longrightarrow>
      vesting_schedule tx start bc a l = Err ERROR_INCORRECT_DATA"
    and "\<not> (N \<ge> 2 ^ 32 \<or> unat start + N * unat bc \<ge> 2 ^ 32) \<Longrightarrow>
      \<exists>vs. vesting_schedule tx start bc a l = Ok vs"
proof -
  define steps where "steps = l div a + (if l mod a \<noteq> 0 then 1 else 0)"
  have steps: "unat steps = N"
    using unat_steps [OF assms(2), of l] by (simp only: steps_def assms(3))
  have max: "UINT32_MAX < w \<longleftrightarrow> 2 ^ 32 \<le> unat w" for w
    by (auto simp: UINT32_MAX_def word_less_nat_alt)
  have c1: "UINT32_MAX < steps \<longleftrightarrow> 2 ^ 32 \<le> N"
    by (simp only: max steps)
  have c2: "UINT32_MAX < steps * ucast bc + ucast start \<longleftrightarrow> 2 ^ 32 \<le> unat start + N * unat bc"
    if "\<not> 2 ^ 32 \<le> N"
    using that unat_mult_u32(2) [of steps bc start, unfolded steps]
    by (simp add: max add.commute)
  show "N \<ge> 2 ^ 32 \<or> unat start + N * unat bc \<ge> 2 ^ 32 \<Longrightarrow>
      vesting_schedule tx start bc a l = Err ERROR_INCORRECT_DATA"
    using c1 c2 assms(1,2) by (cases "2 ^ 32 \<le> N") (simp_all add: vesting_schedule_def steps_def [symmetric] Let_def)
  show "\<not> (N \<ge> 2 ^ 32 \<or> unat start + N * unat bc \<ge> 2 ^ 32) \<Longrightarrow>
      \<exists>vs. vesting_schedule tx start bc a l = Ok vs"
    using c1 c2 assms(1,2) by (simp add: vesting_schedule_def steps_def [symmetric] Let_def)
qed

lemma vesting_schedule_values:
  assumes "vesting_schedule tx start bc a l = Ok vs" "bc \<noteq> 0" "a \<noteq> 0"
    and "T = unat tx" "L = unat l" "s = unat a" "b = unat bc"
    and "N = ceil_div L s" "m = (L - T) div s"
  shows "vs_start_block vs = start" "vs_step_block_count vs = bc" "vs_step_amount vs = a"
    and "unat start + N * b < 4294967296" "unat (vs_period vs) = N * b"
    and "unat (vs_step_count vs) = N - m"
    and "unat (vs_first_step_block_count vs) = (m + 1) * b mod 4294967296"
    and "unat (vs_start_block vs + vs_first_step_block_count vs) = (unat start + (m + 1) * b) mod 4294967296"
    and "unat (vs_first_step_amount vs) = s - (L - T) mod s"
    and "unat (vs_last_step_amount vs) = (if L mod s = 0 then s else L mod s)"
    and "unat (vs_pre_vested_amount vs) = T - L"
proof -
  define steps where "steps = l div a + (if l mod a \<noteq> 0 then 1 else 0)"
  have pos: "0 < s" using assms(3,6) by (simp add: unat_gt_0)
  have steps: "unat steps = N"
    using unat_steps [OF assms(3), of l] by (simp only: steps_def assms(5,6,8))
  have mN: "m \<le> N" by (rule skipped_steps_le [OF pos assms(9,8)])
  have c1: "\<not> UINT32_MAX < steps" and c2: "\<not> UINT32_MAX < steps * ucast bc + ucast start"
    using assms(1-3) by (auto simp: vesting_schedule_def steps_def [symmetric] Let_def andthen_eq_Ok)
  from c1 have N: "N < 4294967296" by (simp add: UINT32_MAX_def word_less_nat_alt steps)
  note mult = unat_mult_u32(1) [of steps bc, unfolded steps, OF N]
    unat_mult_u32(2) [of steps bc start, unfolded steps, OF N]
  from c2 show Nb: "unat start + N * b < 4294967296"
    by (simp add: UINT32_MAX_def word_less_nat_alt mult assms(7))
  have vs: "vs = \<lparr>vs_start_block = start, vs_step_block_count = bc, vs_step_amount = a,
      vs_step_count = (if l \<le> tx then ucast steps
        else ucast (ucast (ucast steps :: u32) - (l - tx) div a)),
      vs_period = ucast (steps * ucast bc),
      vs_first_step_block_count = (if tx < l
        then ucast (ucast bc + (l - tx) div a * ucast bc :: u64) else bc),
      vs_first_step_amount = (if tx < l then a - (l - tx) mod a else a),
      vs_last_step_amount = (if l mod a \<noteq> 0 then l mod a else a),
      vs_pre_vested_amount = (if tx > l then tx - l else 0)\<rparr>"
    using assms(1-3) by (auto simp: vesting_schedule_def steps_def [symmetric] Let_def andthen_eq_Ok)
  show "vs_start_block vs = start" "vs_step_block_count vs = bc" "vs_step_amount vs = a"
    by (simp_all add: vs)
  show "unat (vs_period vs) = N * b"
    using Nb by (simp add: vs mult assms(7) unat_u32_of_u64)
  have diff: "unat (l - tx) = L - T" if "tx < l"
    using that assms(4,5) by (simp add: unat_sub less_imp_le)
  have ediv: "unat ((l - tx) div a) = m" if "tx < l"
    using diff [OF that] assms(6,9) by (simp add: unat_div)
  have TL: "tx < l \<longleftrightarrow> T < L" by (simp add: assms(4,5) word_less_nat_alt)
  have m0: "m = 0" if "\<not> tx < l" using that TL assms(9) by simp
  show "unat (vs_step_count vs) = N - m"
  proof (cases "tx < l")
    case True
    have "unat (ucast (ucast steps :: u32) - (l - tx) div a :: u64) = N - m"
      using mN N ediv [OF True] steps by (subst unat_sub) (simp_all add: word_le_nat_alt unat_u32_of_u64)
    then show ?thesis using True [folded not_le] mN N by (simp add: vs unat_u32_of_u64)
  next
    case False
    then show ?thesis
      using False [unfolded not_less] m0 [OF False] N steps by (simp add: vs unat_u32_of_u64)
  qed
  show fbc: "unat (vs_first_step_block_count vs) = (m + 1) * b mod 4294967296"
  proof (cases "tx < l")
    case True
    have "m < 4294967296" using mN N by simp
    then have "unat ((l - tx) div a * ucast bc + ucast bc) = m * b + b"
      using unat_mult_u32(2) [of "(l - tx) div a" bc bc] ediv [OF True] assms(7) by simp
    then show ?thesis
      using True by (simp add: vs unat_u32_of_u64_mod add.commute)
  next
    case False
    then show ?thesis using m0 [OF False] unat_bounds(3) [of bc] by (simp add: vs assms(7))
  qed
  have "unat (vs_start_block vs + vs_first_step_block_count vs) =
      (unat start + (m + 1) * b mod 4294967296) mod 4294967296"
    by (simp only: unat_word_ariths fbc) (simp add: vs)
  then show "unat (vs_start_block vs + vs_first_step_block_count vs) = (unat start + (m + 1) * b) mod 4294967296"
    by (simp only: mod_add_right_eq)
  show "unat (vs_first_step_amount vs) = s - (L - T) mod s"
  proof (cases "tx < l")
    case True
    have "unat ((l - tx) mod a) = (L - T) mod s" using diff [OF True] assms(6) by (simp add: unat_mod)
    moreover have "(l - tx) mod a \<le> a"
      using pos calculation assms(6) by (simp add: word_le_nat_alt less_imp_le)
    ultimately show ?thesis using True TL assms(6) by (simp add: vs unat_sub)
  next
    case False
    then show ?thesis using TL assms(6) by (simp add: vs)
  qed
  have "l mod a = 0 \<longleftrightarrow> L mod s = 0" using assms(5,6) by (simp add: word_unat_eq_iff unat_mod)
  then show "unat (vs_last_step_amount vs) = (if L mod s = 0 then s else L mod s)"
    using assms(5,6) by (simp add: vs unat_mod)
  show "unat (vs_pre_vested_amount vs) = T - L"
    using assms(4,5) by (auto simp: vs unat_sub less_imp_le word_less_nat_alt)
qed

text \<open>The computation on words is the one on natural numbers.\<close>

definition terms_of :: "vesting_schedule_t \<Rightarrow> vesting_terms" where
  "terms_of vs =
     \<lparr>v_start = unat (vs_start_block vs), v_step_blocks = unat (vs_step_block_count vs),
      v_step_amount = unat (vs_step_amount vs), v_steps = unat (vs_step_count vs),
      v_period = unat (vs_period vs), v_first_step_blocks = unat (vs_first_step_block_count vs),
      v_first_step = unat (vs_start_block vs + vs_first_step_block_count vs),
      v_first_amount = unat (vs_first_step_amount vs), v_last_amount = unat (vs_last_step_amount vs),
      v_pre_vested = unat (vs_pre_vested_amount vs)\<rparr>"

lemma vesting_schedule_terms:
  "andthen (vesting_schedule tx start bc a l) (\<lambda>vs. Ok (terms_of vs)) =
    vesting_terms (unat tx) (unat start) (unat bc) (unat a) (unat l)"
proof (cases "bc = 0 \<or> a = 0")
  case True
  then have zero: "unat bc = 0 \<or> unat a = 0" by auto
  have "vesting_schedule tx start bc a l =
      Ok \<lparr>vs_start_block = 0, vs_step_block_count = 0, vs_step_amount = tx, vs_step_count = 0,
        vs_period = 0, vs_first_step_block_count = 0, vs_first_step_amount = tx,
        vs_last_step_amount = tx, vs_pre_vested_amount = tx\<rparr>"
    using True by (simp add: vesting_schedule_def)
  with zero show ?thesis by (simp add: vesting_terms_def terms_of_def)
next
  case False
  then have nz: "bc \<noteq> 0" "a \<noteq> 0" "\<not> (unat bc = 0 \<or> unat a = 0)" by (simp_all add: unat_eq_0)
  note E = vesting_schedule_error [where start = start and l = l and tx = tx, OF nz(1,2) refl]
  show ?thesis
  proof (cases "ceil_div (unat l) (unat a) \<ge> 2 ^ 32 \<or> unat start + ceil_div (unat l) (unat a) * unat bc \<ge> 2 ^ 32")
    case True
    then show ?thesis using E(1) nz(3) by (simp only: vesting_terms_def if_False if_True andthen_simps)
  next
    case ok: False
    then obtain vs where vs: "vesting_schedule tx start bc a l = Ok vs" using E(2) by blast
    note V = vesting_schedule_values [OF vs nz(1,2) refl refl refl refl refl refl]
    show ?thesis
      unfolding vs vesting_terms_def Let_def if_not_P [OF nz(3)] if_not_P [OF ok]
      by (simp add: terms_of_def V(1-7,9-11) V(8) [unfolded V(1)])
  qed
qed

lemma print_vesting_schedule_terms:
  "print_vesting_schedule b owner_text vs = terms_display b owner_text (terms_of vs)"
proof -
  have nim: "parse_amount n (Some ''NIM'') = nim_text (unat n)" for n
    by (simp add: parse_amount_NIM nim_text_def MAX_SAFE_LUNA_AMOUNT_def word_less_nat_alt not_less)
  have "or_error (nim_text n) ERROR_INCORRECT_DATA = nim_text n" for n
    by (simp add: nim_text_def)
  moreover have "blocks_text n = number_of_blocks (unat n)" for n
    by (simp add: blocks_text_eq number_of_blocks_def word_unat_eq_iff)
  ultimately show ?thesis
    by (simp add: print_vesting_schedule_def terms_display_def terms_of_def nim word_less_nat_alt Suc_le_eq numeral_2_eq_2)
qed

lemma vesting_display_code:
  "vesting_display sender sender_type tx_amount owner params =
     andthen (check (owner = sender \<and> sender_type \<noteq> ACCOUNT_TYPE_BASIC) ERROR_INCORRECT_DATA) (\<lambda>_.
     case vesting_params_values tx_amount params of (start, block_count, amount, locked) \<Rightarrow>
       andthen (vesting_schedule tx_amount start block_count amount locked) (\<lambda>s.
       print_vesting_schedule (owner = sender) (address_text owner) s))"
  by (auto simp: vesting_display_def vesting_schedule_terms [symmetric] print_vesting_schedule_terms
      flatten_simps intro!: andthen_cong split: prod.split)


lemma length_snd: "wf_cursor mem c \<Longrightarrow> snd c = of_nat (length (view mem c))"
  by (simp add: length_view)

lemma read_vesting_parameters_run:
  assumes "wf_cursor mem c" "view mem c = vesting_params_bytes v"
    and "\<And>c'. wf_cursor mem c' \<Longrightarrow> snd c' = 0 \<Longrightarrow>
      (case vesting_params_values tx v of (s, bc, a, l) \<Rightarrow> k s bc a l c') = r"
  shows "andthen (read_vesting_parameters mem tx c) (\<lambda>((s, bc, a, l), c). k s bc a l c) = r"
proof (cases v)
  case (Vesting_steps_default bc)
  with assms have "snd c = 4" by (simp add: length_snd)
  then show ?thesis
    using assms Vesting_steps_default
    by (simp add: read_vesting_parameters_def flatten_simps)
      (rule r32.run [where rest = "[]"], auto simp: view_Nil_iff)
next
  case (Vesting_steps s bc a)
  with assms have "snd c = 16" by (simp add: length_snd)
  with assms Vesting_steps show ?thesis
    apply (simp add: read_vesting_parameters_def flatten_simps)
    apply (rule r32.run, assumption, assumption)
    apply (rule r32.run, assumption, assumption)
    apply (rule r64.run [where rest = "[]"], assumption, simp)
    apply (simp add: view_Nil_iff)
    done
next
  case (Vesting_steps_total s bc a l)
  with assms have "snd c = 24" by (simp add: length_snd)
  with assms Vesting_steps_total show ?thesis
    apply (simp add: read_vesting_parameters_def flatten_simps)
    apply (rule r32.run, assumption, assumption)
    apply (rule r32.run, assumption, assumption)
    apply (rule r64.run, assumption, assumption)
    subgoal for c1 c2 c3
      using length_snd [of mem c3]
      apply (simp add: flatten_simps)
      apply (rule r64.run [where rest = "[]"], assumption, simp)
      by (simp add: view_Nil_iff)
    done
qed

lemma parse_vesting_eq:
  assumes "length owner = 20" "wf_cursor mem c" "view mem c = owner @ vesting_params_bytes v"
    and "wf_cursor mem (sender, 20)" "sender \<noteq> None" "view mem (sender, 20) = sb"
  shows "parse_vesting_creation_data mem TRANSACTION_VERSION_LEGACY c sender sender_type tx =
    vesting_display sb sender_type tx owner v"
  unfolding parse_vesting_creation_data_def vesting_display_code
  apply (simp only: check_simps andthen_simps simp_thms)
  apply (rule reads_sub_buffer [OF assms(2), of owner])
    apply (rule assms(3))
   apply (simp add: assms(1))
  apply (rule reads_bytes_at, assumption, assumption, simp, simp)
  apply (simp add: print_address_eq assms(1) same_address_eq assms(4-6))
  apply (rule andthen_cong [OF refl])
  apply (rule read_vesting_parameters_run, assumption, assumption)
  by (simp add: case_prod_unfold)

lemma read_vesting_parameters_elim:
  assumes "andthen (read_vesting_parameters mem tx c) (\<lambda>((s, bc, a, l), c). k s bc a l c) = Ok r"
    "wf_cursor mem c"
  obtains v c' where "wf_cursor mem c'" "view mem c = vesting_params_bytes v @ view mem c'"
    "(case vesting_params_values tx v of (s, bc, a, l) \<Rightarrow> k s bc a l c') = Ok r"
proof (cases "snd c = 4")
  case True
  with assms show thesis
    apply (simp add: read_vesting_parameters_def flatten_simps)
    apply (erule r32.run_elim, assumption)
    subgoal for bc by (rule that [where v = "Vesting_steps_default bc"]) simp_all
    done
next
  case False
  with assms show thesis
    apply (simp add: read_vesting_parameters_def flatten_simps)
    apply (erule r32.run_elim, assumption)
    apply (erule r32.run_elim, assumption)
    apply (erule r64.run_elim, assumption)
    subgoal for s _ bc _ a c3
      apply (cases "snd c3 = 8")
       apply (simp add: flatten_simps)
       apply (erule r64.run_elim, assumption)
      subgoal for l by (rule that [where v = "Vesting_steps_total s bc a l"]) simp_all
      by (rule that [where v = "Vesting_steps s bc a" and c' = c3]) simp_all
    done
qed

lemma parse_vesting_sound:
  assumes "parse_vesting_creation_data mem version c sender sender_type tx = Ok out" "wf_cursor mem c"
  obtains owner v where "length owner = 20" "view mem c = owner @ vesting_params_bytes v"
    "version = TRANSACTION_VERSION_LEGACY"
  apply (insert assms(1))
  apply (unfold parse_vesting_creation_data_def)
  apply (erule read_elims_check)
  apply (erule read_elims_sub_buffer [where mem = mem], rule assms(2))
  apply (simp only: andthen_eq_Ok [of "bytes_at _ _ _"] andthen_eq_Ok [of "print_address _"]
      andthen_eq_Ok [of "same_address _ _ _"], elim exE conjE)
  apply (erule read_elims_check)
  apply (erule read_vesting_parameters_elim, assumption)
  apply (unfold case_prod_unfold)
  apply (drule check_end, assumption)
  subgoal for p
    by (rule that [of "view mem (p, 20)"]) simp_all
  done

section \<open>The vesting schedule in natural numbers\<close>

text \<open>
  The vesting contract: of \<open>T\<close> funds it keeps locked what is left of \<open>L\<close> after \<open>s\<close> has been
  released at each full step of \<open>bc\<close> blocks since the start; with a step length or a step amount of
  zero everything is released at once.
\<close>

definition contract_unlocked :: "nat \<Rightarrow> nat \<Rightarrow> nat \<Rightarrow> nat \<Rightarrow> nat \<Rightarrow> nat \<Rightarrow> nat" where
  "contract_unlocked T start bc s L block =
     (if bc = 0 \<or> s = 0 then T else T - (L - (block - start) div bc * s))"

text \<open>What a reader of the displayed values concludes to be available at a block.\<close>

definition displayed_unlocked :: "nat \<Rightarrow> vesting_schedule_t \<Rightarrow> nat \<Rightarrow> nat" where
  "displayed_unlocked T vs block =
     (let first = unat (vs_start_block vs + vs_first_step_block_count vs);
          steps = (block - first) div unat (vs_step_block_count vs) + 1
      in if block < first then unat (vs_pre_vested_amount vs)
         else if steps \<ge> unat (vs_step_count vs) then T
         else unat (vs_pre_vested_amount vs) + unat (vs_first_step_amount vs) +
           (steps - 1) * unat (vs_step_amount vs))"

text \<open>The number of a step at a block, counted from the first one that releases funds.\<close>

lemma unlocked_arith:
  fixes T L s bc :: nat
  assumes "0 < s" "0 < bc" "0 < T \<or> L \<le> T"
    and "m = (L - T) div s" "N = ceil_div L s" "F = start + (m + 1) * bc"
  shows "(if block < F then T - L
      else if (block - F) div bc + 1 \<ge> N - m then T
      else (T - L) + (if T < L then s - (L - T) mod s else s) + ((block - F) div bc + 1 - 1) * s) =
    T - (L - (block - start) div bc * s)"
proof -
  define q where "q = (block - start) div bc"
  have e: "L - T = m * s + (L - T) mod s" "(L - T) mod s < s"
    using assms(1,4) div_mult_mod_eq [of "L - T" s] by simp_all
  consider (before) "q \<le> m" | (after) "m < q" by linarith
  then show ?thesis
  proof cases
    case before
    then have "block - start < (m + 1) * bc"
      using assms(2) by (simp add: q_def less_Suc_eq_le [symmetric] div_less_iff_less_mult)
    then have "block < F" using assms(6) by simp
    moreover have "T - (L - q * s) = T - L"
    proof (cases "L \<le> T")
      case True
      then have "m = 0" using assms(4) by simp
      with before show ?thesis by simp
    next
      case False
      have "q * s \<le> m * s" using before by simp
      with e False have "T \<le> L - q * s" by linarith
      with False show ?thesis by simp
    qed
    ultimately show ?thesis by (simp add: q_def)
  next
    case after
    then have "(m + 1) * bc \<le> block - start"
      using assms(2) by (simp add: q_def Suc_le_eq [symmetric] less_eq_div_iff_mult_less_eq)
    then have F: "F \<le> block" and d: "block - F = block - start - (m + 1) * bc"
      using assms(2,6) by simp_all
    obtain y where y: "block - start = (m + 1) * bc + y"
      using \<open>(m + 1) * bc \<le> block - start\<close> le_Suc_ex by blast
    have "q = m + 1 + y div bc"
      using assms(2) unfolding q_def y by (simp only: div_mult_self3)
    moreover have "block - F = y" using d y by simp
    ultimately have i: "(block - F) div bc + 1 = q - m" by simp
    show ?thesis
    proof (cases "N \<le> q")
      case True
      then have "L \<le> q * s" using ceil_div_le [OF assms(1), of L] assms(5) by (meson le_trans mult_le_mono1)
      then show ?thesis using diff_le_mono [OF True, of m] F i by (simp add: q_def)
    next
      case False
      then have lt: "\<not> N - m \<le> q - m" and "q * s < L"
        using less_ceil_div [OF assms(1)] assms(5) after by auto
      obtain d where d: "q = m + 1 + d" using after by (metis Suc_eq_plus1 less_iff_Suc_add add_Suc_right add_Suc)
      then have qs: "q * s = m * s + s + d * s" by (simp add: algebra_simps)
      show ?thesis
      proof (cases "T < L")
        case True
        then have "T - (L - q * s) = s - (L - T) mod s + d * s"
          using e qs \<open>q * s < L\<close> by linarith
        then show ?thesis using True F lt d unfolding i q_def [symmetric] by simp
      next
        case F2: False
        then have "m = 0" using assms(4) by simp
        then have "T - (L - q * s) = T - L + s + d * s"
          using qs \<open>q * s < L\<close> F2 by simp
        then show ?thesis using F2 F lt d \<open>m = 0\<close> unfolding i q_def [symmetric] by simp
      qed
    qed
  qed
qed

lemma first_step_before_end:
  assumes "0 < s" "0 < T" "0 < L" "m = (L - T) div s" "N = ceil_div L s"
  shows "m < N"
proof -
  have "m * s \<le> L - T" using assms(4) by simp
  also have "\<dots> < L" using assms(2,3) by simp
  also have "L \<le> N * s" using ceil_div_le [OF assms(1), of L] assms(5) by simp
  finally show ?thesis by simp
qed

text \<open>The displayed values describe the contract: at every block they promise what it releases.\<close>

lemma displayed_is_unlocked:
  assumes "vesting_schedule tx start bc a l = Ok vs"
  shows "displayed_unlocked (unat tx) vs block =
    contract_unlocked (unat tx) (unat start) (unat bc) (unat a) (unat l) block"
proof (cases "bc = 0 \<or> a = 0")
  case True
  then have "vs_step_count vs = 0" "vs_pre_vested_amount vs = tx"
    using assms(1) by (auto simp: vesting_schedule_def)
  with True show ?thesis
    by (auto simp: displayed_unlocked_def contract_unlocked_def Let_def)
next
  case False
  then have nz: "bc \<noteq> 0" "a \<noteq> 0" by simp_all
  then have pos: "0 < unat a" "0 < unat bc" by (simp_all add: unat_gt_0)
  note V = vesting_schedule_values [OF assms nz refl refl refl refl refl refl]
  consider (unlocked) "unat l = 0" | (no_funds) "unat tx = 0" | (funds) "0 < unat tx" "0 < unat l"
    by linarith
  then show ?thesis
  proof cases
    case unlocked
    with V(6,11) show ?thesis
      by (simp add: displayed_unlocked_def contract_unlocked_def Let_def ceil_div_def)
  next
    case no_funds
    then have "unat (vs_step_count vs) \<le> 1" "unat (vs_pre_vested_amount vs) = 0"
      using V(6,11) by (simp_all add: ceil_div_def)
    with no_funds show ?thesis
      by (simp add: displayed_unlocked_def contract_unlocked_def Let_def)
  next
    case funds
    let ?T = "unat tx" and ?L = "unat l" and ?s = "unat a" and ?b = "unat bc"
    let ?m = "(?L - ?T) div ?s" and ?N = "ceil_div ?L ?s"
    have "?m < ?N" by (rule first_step_before_end [OF pos(1) funds refl refl])
    then have "(?m + 1) * ?b \<le> ?N * ?b" by (intro mult_le_mono1) simp
    then have first: "unat (vs_start_block vs + vs_first_step_block_count vs) = unat start + (?m + 1) * ?b"
      using V(4,8) by simp
    have amount: "unat (vs_first_step_amount vs) = (if ?T < ?L then ?s - (?L - ?T) mod ?s else ?s)"
      using V(9) by simp
    have "contract_unlocked ?T (unat start) ?b ?s ?L block = ?T - (?L - (block - unat start) div ?b * ?s)"
      using pos by (simp add: contract_unlocked_def)
    also have "\<dots> = displayed_unlocked ?T vs block"
      by (subst unlocked_arith [OF pos disjI1 [OF funds(1)] refl refl refl, symmetric])
        (simp only: displayed_unlocked_def Let_def first amount, simp only: V(2,3,6,11))
    finally show ?thesis ..
  qed
qed

text \<open>
  The blocks up to the first step: the sum may leave the 32 bits, but then nothing is released there.
\<close>

lemma first_step_exact:
  assumes "vesting_schedule tx start bc a l = Ok vs" "bc \<noteq> 0" "a \<noteq> 0"
    and "0 < unat tx" "0 < unat l"
  shows "unat start + ((unat l - unat tx) div unat a + 1) * unat bc < 4294967296"
proof -
  have "0 < unat a" using assms(3) by (simp add: unat_gt_0)
  from first_step_before_end [OF this assms(4,5) refl refl]
  have "((unat l - unat tx) div unat a + 1) * unat bc \<le> ceil_div (unat l) (unat a) * unat bc"
    by (intro mult_le_mono1) simp
  with vesting_schedule_values(4) [OF assms(1-3) refl refl refl refl refl refl] show ?thesis by simp
qed

lemma no_release_at_first_step:
  "T = 0 \<or> L = 0 \<Longrightarrow> contract_unlocked T start b s L block = T"
  by (auto simp: contract_unlocked_def)

section \<open>Memory safety and field bounds\<close>

definition htlc_fits :: "tx_data_htlc_creation_t \<Rightarrow> bool" where
  "htlc_fits out =
     (length (redeem_address out) < STRING_LENGTH_USER_FRIENDLY_ADDRESS \<and>
      length (refund_address out) < STRING_LENGTH_USER_FRIENDLY_ADDRESS \<and>
      length (hash_root out) < 64 * 2 + 1 \<and>
      length (hash_algorithm out) < max (sizeof ''BLAKE2b'') (max (sizeof ''SHA-256'') (sizeof ''SHA-512'')) \<and>
      length (hash_count out) < STRING_LENGTH_UINT8 \<and> length (timeout out) < STRING_LENGTH_UINT32)"

definition vesting_fits :: "tx_data_vesting_creation_t \<Rightarrow> bool" where
  "vesting_fits out =
     (length (owner_address out) < STRING_LENGTH_USER_FRIENDLY_ADDRESS \<and>
      length (start_block out) < STRING_LENGTH_UINT32 \<and>
      length (period out) < STRING_LENGTH_WITH_SUFFIX STRING_LENGTH_UINT32 '' blocks'' \<and>
      length (step_count out) < STRING_LENGTH_UINT32 \<and>
      length (step_block_count out) < STRING_LENGTH_WITH_SUFFIX STRING_LENGTH_UINT32 '' blocks'' \<and>
      length (first_step_block_count out) < STRING_LENGTH_WITH_SUFFIX STRING_LENGTH_UINT32 '' blocks'' \<and>
      length (first_step_block out) < STRING_LENGTH_UINT32 \<and>
      length (step_amount out) < STRING_LENGTH_NIM_AMOUNT_WITH_TICKER \<and>
      length (first_step_amount out) < STRING_LENGTH_NIM_AMOUNT_WITH_TICKER \<and>
      length (last_step_amount out) < STRING_LENGTH_NIM_AMOUNT_WITH_TICKER \<and>
      length (pre_vested_amount out) < STRING_LENGTH_NIM_AMOUNT_WITH_TICKER)"

lemma length_blocks_text:
  "length (blocks_text n) < STRING_LENGTH_WITH_SUFFIX STRING_LENGTH_UINT32 '' blocks''"
  using length_dec_u32 [of n] by (cases "n = 1") (simp_all add: blocks_text_eq length_defs)

lemma length_dec_fits:
  "length (dec (unat (a :: u8))) < STRING_LENGTH_UINT8"
  "length (dec (unat (b :: u32))) < STRING_LENGTH_UINT32"
  using length_dec_u8 [of a] length_dec_u32 [of b] by (simp_all add: length_defs)

lemma delivers_same_address:
  assumes "wf_cursor mem (p, 20)" "p \<noteq> None" "wf_cursor mem (q, 20)" "q \<noteq> None" "\<And>b. P b"
  shows "delivers P (same_address mem p q)"
  using assms(5) by (simp add: same_address_eq [OF assms(1-4)])

lemma delivers_hash_algorithm_name:
  assumes "\<And>s. length s < max (sizeof ''BLAKE2b'') (max (sizeof ''SHA-256'') (sizeof ''SHA-512'')) \<Longrightarrow> P s"
  shows "delivers P (hash_algorithm_name alg)"
  using assms by (simp add: hash_algorithm_name_def sizeof_def)

lemma delivers_hash_root_at:
  assumes "p \<noteq> None" "\<And>root. root \<noteq> [] \<Longrightarrow> length root \<le> 64 \<Longrightarrow> P root"
  shows "wf_cursor mem (p, 64) \<Longrightarrow> delivers P (bytes_at mem p 64)"
    and "wf_cursor mem (p, 32) \<Longrightarrow> delivers P (bytes_at mem p 32)"
proof -
  have "P root" if "length root = 64 \<or> length root = 32" for root
    using that by (intro assms(2)) auto
  then show "wf_cursor mem (p, 64) \<Longrightarrow> delivers P (bytes_at mem p 64)"
    and "wf_cursor mem (p, 32) \<Longrightarrow> delivers P (bytes_at mem p 32)"
    using assms(1) delivers_bytes_at [of mem p 64 64 P] delivers_bytes_at [of mem p 32 32 P]
    by (simp_all del: wf_cursor.simps view.simps)
qed

lemma delivers_hash_root_text:
  assumes "root \<noteq> []" "length root \<le> 64" "\<And>s. length s < 64 * 2 + 1 \<Longrightarrow> P s"
  shows "delivers P (hash_root_text root)"
  using assms by (simp add: hash_root_text_eq)

lemma delivers_parse_htlc_creation_data [delivers_intros]:
  assumes "wf_cursor mem c" "wf_cursor mem (sender, 20)" "sender \<noteq> None" "\<And>out. htlc_fits out \<Longrightarrow> P out"
  shows "delivers P (parse_htlc_creation_data mem version c sender sender_type height)"
  using assms(1-3)
  by (auto simp: parse_htlc_creation_data_def htlc_fits_def length_dec_fits
      simp del: wf_cursor.simps view.simps
      intro!: fits_intros delivers_same_address delivers_hash_algorithm_name
        delivers_hash_root_at delivers_hash_root_text assms(4))

lemma delivers_read_vesting_parameters:
  assumes "wf_cursor mem c" "\<And>s bc a l c'. P ((s, bc, a, l), c')"
  shows "delivers P (read_vesting_parameters mem tx c)"
  using assms by (auto simp: read_vesting_parameters_def intro!: fits_intros)

lemma delivers_vesting_schedule:
  "(\<And>vs. P vs) \<Longrightarrow> delivers P (vesting_schedule tx s bc a l)"
  by (simp add: vesting_schedule_def Let_def)

lemma delivers_print_vesting_schedule:
  assumes "length owner < STRING_LENGTH_USER_FRIENDLY_ADDRESS" "\<And>out. vesting_fits out \<Longrightarrow> P out"
  shows "delivers P (print_vesting_schedule b owner vs)"
  using assms(1)
  by (auto simp: print_vesting_schedule_def vesting_fits_def length_dec_fits length_blocks_text
      intro!: fits_intros assms(2))

lemma delivers_parse_vesting_creation_data [delivers_intros]:
  assumes "wf_cursor mem c" "wf_cursor mem (sender, 20)" "sender \<noteq> None" "\<And>out. vesting_fits out \<Longrightarrow> P out"
  shows "delivers P (parse_vesting_creation_data mem version c sender sender_type tx)"
  using assms(1-3)
  by (auto simp: parse_vesting_creation_data_def simp del: wf_cursor.simps view.simps
      intro!: fits_intros delivers_same_address delivers_read_vesting_parameters
        delivers_vesting_schedule delivers_print_vesting_schedule assms(4))

section \<open>Properties\<close>

text \<open>
  C26: Vesting, from the display to the contract. Whenever the schedule computation succeeds, the
  displayed values (start, first step, step length, step count, first, regular and pre-vested
  amount) describe, at every block, exactly the funds that the vesting contract has released by
  then, for amounts above and below the locked total, zero included, and in all 32 and 64 bit
  arithmetic of the code.
\<close>

theorem vesting_display_is_release_schedule:
  assumes "vesting_schedule tx_amount start block_count amount locked = Ok vs"
  shows "displayed_unlocked (unat tx_amount) vs block =
    contract_unlocked (unat tx_amount) (unat start) (unat block_count) (unat amount) (unat locked) block"
  using assms by (rule displayed_is_unlocked)

lemma example_schedule:
  "vesting_schedule 250 10 100 100 320 =
    Ok \<lparr>vs_start_block = 10, vs_step_block_count = 100, vs_step_amount = 100, vs_step_count = 4,
        vs_period = 400, vs_first_step_block_count = 100, vs_first_step_amount = 30,
        vs_last_step_amount = 20, vs_pre_vested_amount = 0\<rparr>"
  by (simp add: vesting_schedule_def UINT32_MAX_def Let_def)

theorem vesting_display_is_release_schedule_witness:
  "\<exists>vs. vesting_schedule 250 10 100 100 320 = Ok vs \<and> displayed_unlocked 250 vs 310 = 230"
  using vesting_display_is_release_schedule [OF example_schedule, of 310]
  by (simp add: example_schedule contract_unlocked_def)

text \<open>
  C27: The block of the first step. The comments of the parser call the first step's block count and
  block number guaranteed not to overflow. Both are what is left of the true values on 32 bits, and
  they are the true values if the transaction has a value and a locked total. Without one of them the
  checks do not bound the first step, so that it can be displayed too early; but then the contract
  releases nothing in steps, its funds are available from the start.
\<close>

theorem vesting_first_step_overflow:
  assumes "vesting_schedule tx_amount start block_count amount locked = Ok vs"
    and "block_count \<noteq> 0" "amount \<noteq> 0"
    and "blocks = ((unat locked - unat tx_amount) div unat amount + 1) * unat block_count"
  shows "unat (vs_first_step_block_count vs) = blocks mod 2 ^ 32 \<and>
    unat (vs_start_block vs + vs_first_step_block_count vs) = (unat start + blocks) mod 2 ^ 32 \<and>
    (unat start + blocks < 2 ^ 32 \<or>
     (tx_amount = 0 \<or> locked = 0) \<and>
     (\<forall>block. contract_unlocked (unat tx_amount) (unat start) (unat block_count) (unat amount) (unat locked) block =
       unat tx_amount))"
proof -
  note V = vesting_schedule_values(7,8) [OF assms(1-3) refl refl refl refl refl refl]
  have "unat start + blocks < 2 ^ 32 \<or> tx_amount = 0 \<or> locked = 0"
    using first_step_exact [OF assms(1-3)] by (auto simp: assms(4) unat_gt_0)
  moreover have "contract_unlocked (unat tx_amount) (unat start) (unat block_count) (unat amount) (unat locked) block =
      unat tx_amount" if "tx_amount = 0 \<or> locked = 0" for block
    using that by (intro no_release_at_first_step) auto
  ultimately show ?thesis using V by (auto simp: assms(4))
qed

theorem vesting_first_step_overflow_witness:
  "\<exists>vs. vesting_schedule 0 0 0x80000000 1 1 = Ok vs \<and> vs_period vs = 0x80000000 \<and>
    unat (vs_step_block_count vs) = 2 ^ 31 \<and> unat (vs_start_block vs + vs_first_step_block_count vs) = 0"
proof -
  obtain vs where vs: "vesting_schedule 0 0 0x80000000 1 1 = Ok vs" "vs_period vs = 0x80000000"
      "vs_step_block_count vs = 0x80000000"
    by (simp add: vesting_schedule_def UINT32_MAX_def Let_def)
  from vesting_first_step_overflow [OF vs(1) _ _ refl] vs show ?thesis by simp
qed

text \<open>
  C28: HTLC data. The parser returns a result for exactly the serializations of HTLC data with one of
  the hash algorithms of the table \<open>displayed_algorithms\<close> and 32 or 64 bytes of hash root, in legacy transactions, and the result
  is the specified display; in particular all of the data is used and a contract is refused as its
  own refund address.
\<close>

theorem htlc_parser_accepts_exactly:
  assumes "wf_cursor mem c" "wf_cursor mem (sender, 20)" "sender \<noteq> None"
  shows "parse_htlc_creation_data mem version c sender sender_type height = Ok out \<longleftrightarrow>
    version = TRANSACTION_VERSION_LEGACY \<and>
    (\<exists>h. htlc_ok h \<and> view mem c = htlc_bytes h \<and>
      htlc_display (view mem (sender, 20)) sender_type height h = Ok out)"
  using parse_htlc_eq [OF _ assms(1) _ assms(2,3) refl]
    parse_htlc_sound [of mem version c sender sender_type height out, OF _ assms(1)]
  by metis

theorem htlc_parser_accepts_exactly_witness:
  "\<forall>out. parse_htlc_creation_data (replicate 100 1) TRANSACTION_VERSION_ALBATROSS (Some 0, 78) (Some 80) 0 7 \<noteq> Ok out"
  using htlc_parser_accepts_exactly [of "replicate 100 1" "(Some 0, 78)" "Some 80" TRANSACTION_VERSION_ALBATROSS 0 7]
  by (simp add: version_defs)

text \<open>
  C29: Vesting data. The parser returns a result for exactly the owner address followed by one of
  the three parameter encodings, in legacy transactions, and the result is the specified display.
\<close>

theorem vesting_parser_accepts_exactly:
  assumes "wf_cursor mem c" "wf_cursor mem (sender, 20)" "sender \<noteq> None"
  shows "parse_vesting_creation_data mem version c sender sender_type tx_amount = Ok out \<longleftrightarrow>
    version = TRANSACTION_VERSION_LEGACY \<and>
    (\<exists>owner v. length owner = 20 \<and> view mem c = owner @ vesting_params_bytes v \<and>
      vesting_display (view mem (sender, 20)) sender_type tx_amount owner v = Ok out)"
  using parse_vesting_eq [OF _ assms(1) _ assms(2,3) refl]
    parse_vesting_sound [of mem version c sender sender_type tx_amount out, OF _ assms(1)]
  by metis

theorem vesting_parser_accepts_exactly_witness:
  "\<forall>out. parse_vesting_creation_data (replicate 100 1) TRANSACTION_VERSION_LEGACY (Some 0, 25) (Some 80) 0 7 \<noteq> Ok out"
proof -
  have "length (vesting_params_bytes v) \<noteq> 5" for v by (cases v) simp_all
  moreover have "length ps = 5" if "length owner = 20" "replicate 25 1 = owner @ ps" for owner ps :: "u8 list"
    using length_append [of owner ps, folded that(2)] that(1) by simp
  ultimately show ?thesis
    using vesting_parser_accepts_exactly [of "replicate 100 1" "(Some 0, 25)" "Some 80" TRANSACTION_VERSION_LEGACY 0 7]
    by (auto simp: min_def)
qed

end
