(* ===== verification/Tx_Parser.thy ===== *)
theory Tx_Parser
  imports Contracts
begin

text \<open>
  The transaction parser of \<^verbatim>\<open>src/src/nimiq_utils.c\<close>: \<^verbatim>\<open>parse_network_id\<close>,
  \<^verbatim>\<open>parse_normal_tx_data\<close> and \<^verbatim>\<open>parse_tx\<close>, which calls the parsers of the staking and the
  contract creation data. The union \<^verbatim>\<open>type_specific\<close> is a datatype.

  The lemmas relate the parser to transactions as values: their serialization is what the parser
  accepts, and all of the buffer is consumed; what is displayed is a function of the transaction;
  no input makes the parser fault.
\<close>

section \<open>Parsed transactions\<close>

record tx_data_normal_or_staking_outgoing_t =
  recipient :: string
  extra_data_label :: string
  extra_data :: string

datatype type_specific_t =
    Normal_or_staking_outgoing_tx tx_data_normal_or_staking_outgoing_t
  | Htlc_creation_tx tx_data_htlc_creation_t
  | Vesting_creation_tx tx_data_vesting_creation_t
  | Staking_incoming_tx tx_data_staking_incoming_t

record parsed_tx_t =
  type_specific :: type_specific_t
  transaction_type :: transaction_type_t
  transaction_label_type :: transaction_label_type_t
  tx_value :: string
  tx_fee :: string
  tx_network :: string

section \<open>The parsers\<close>

definition parse_network_id :: "transaction_version_t \<Rightarrow> u8 \<Rightarrow> (error_t, string) result" where
  "parse_network_id version network_id =
     (if network_id = (if version = TRANSACTION_VERSION_LEGACY then 42 else 24) then Ok ''Main''
      else if network_id = (if version = TRANSACTION_VERSION_LEGACY then 1 else 5) then Ok ''Test''
      else if network_id = (if version = TRANSACTION_VERSION_LEGACY then 2 else 6) then Ok ''Development''
      else if network_id = (if version = TRANSACTION_VERSION_LEGACY then 3 else 7) then Ok ''Bounty''
      else Err ERROR_INCORRECT_DATA)"

text \<open>
  Returns the label, the text and whether the data is the cashlink marker. \<^verbatim>\<open>extra_data\<close> is
  zeroed by the caller before parsing.
\<close>

definition parse_normal_tx_data ::
    "u8 list \<Rightarrow> cursor \<Rightarrow> (error_t, (string \<times> string) \<times> bool) result" where
  "parse_normal_tx_data mem data =
     andthen (check (snd data > LENGTH_NORMAL_TX_DATA_MAX) ERROR_INVALID_LENGTH) (\<lambda>_.
     if fst data = None \<or> snd data = 0 then Ok (('''', ''''), False)
     else
       andthen (bytes_at mem (fst data) (unat (snd data))) (\<lambda>bytes.
       if snd data = CASHLINK_MAGIC_NUMBER_LENGTH \<and> bytes = CASHLINK_MAGIC_NUMBER
       then Ok (('''', ''''), True)
       else if \<not> is_printable_ascii bytes then
         andthen (print_hex bytes (replicate STRING_LENGTH_NORMAL_TX_DATA_MAX NUL)
           STRING_LENGTH_NORMAL_TX_DATA_MAX) (\<lambda>arr.
         Ok ((''Data Hex'', c_string arr), False))
       else
         andthen (poke 0 (map char_of_byte bytes @ [NUL]) (replicate STRING_LENGTH_NORMAL_TX_DATA_MAX NUL))
           (\<lambda>arr. Ok ((''Data'', c_string arr), False))))"

text \<open>The labels assigned in the switch statements at the end of the staking branches.\<close>

definition staking_outgoing_label ::
    "staking_outgoing_data_type_t \<Rightarrow> (error_t, transaction_label_type_t) result" where
  "staking_outgoing_label t =
     (if t = REMOVE_STAKE then Ok TRANSACTION_LABEL_TYPE_STAKING_REMOVE_STAKE else Err ERROR_NOT_SUPPORTED)"

definition staking_incoming_label ::
    "staking_incoming_data_type_t \<Rightarrow> (error_t, transaction_label_type_t) result" where
  "staking_incoming_label t =
     (if t = CREATE_STAKER then Ok TRANSACTION_LABEL_TYPE_STAKING_CREATE_STAKER
      else if t = ADD_STAKE then Ok TRANSACTION_LABEL_TYPE_STAKING_ADD_STAKE
      else if t = UPDATE_STAKER then Ok TRANSACTION_LABEL_TYPE_STAKING_UPDATE_STAKER
      else if t = SET_ACTIVE_STAKE then Ok TRANSACTION_LABEL_TYPE_STAKING_SET_ACTIVE_STAKE
      else if t = RETIRE_STAKE then Ok TRANSACTION_LABEL_TYPE_STAKING_RETIRE_STAKE
      else Err ERROR_NOT_SUPPORTED)"

text \<open>
  \<^verbatim>\<open>parse_tx\<close> after the check that the buffer is used up: the outgoing staking transaction, and
  the switch on the recipient type.
\<close>

definition parse_tx_type_specific ::
    "(u8 list \<Rightarrow> u8 list option) \<Rightarrow> u8 list \<Rightarrow> transaction_version_t \<Rightarrow> cursor \<Rightarrow> ptr \<Rightarrow> u8 \<Rightarrow> ptr \<Rightarrow>
     u8 \<Rightarrow> u64 \<Rightarrow> u32 \<Rightarrow> u8 \<Rightarrow> cursor \<Rightarrow>
     (error_t, type_specific_t \<times> transaction_type_t \<times> transaction_label_type_t) result" where
  "parse_tx_type_specific blake2b mem version data sender sender_type recip recipient_type
       v height flags sender_data =
     (if sender_type = ACCOUNT_TYPE_STAKING then
        andthen (check (flags \<noteq> 0 \<or> snd data \<noteq> 0) ERROR_NOT_SUPPORTED) (\<lambda>_.
        andthen (is_staking_contract mem sender) (\<lambda>from_staking_contract.
        andthen (check (\<not> from_staking_contract) ERROR_INCORRECT_DATA) (\<lambda>_.
        andthen (parse_staking_outgoing_data mem version sender_data) (\<lambda>staking_outgoing_type.
        andthen (staking_outgoing_label staking_outgoing_type) (\<lambda>label.
        andthen (bytes_at mem recip 20) (\<lambda>a.
        andthen (print_address a) (\<lambda>recipient_text.
        Ok (Normal_or_staking_outgoing_tx
              \<lparr>recipient = recipient_text, extra_data_label = '''', extra_data = ''''\<rparr>,
            TRANSACTION_TYPE_STAKING_OUTGOING, label))))))))
      else if recipient_type = ACCOUNT_TYPE_BASIC then
        andthen (check (flags \<noteq> 0 \<or> snd sender_data \<noteq> 0) ERROR_NOT_SUPPORTED) (\<lambda>_.
        andthen (parse_normal_tx_data mem data) (\<lambda>((label, extra), is_cashlink).
        andthen (bytes_at mem recip 20) (\<lambda>a.
        andthen (print_address a) (\<lambda>recipient_text.
        Ok (Normal_or_staking_outgoing_tx
              \<lparr>recipient = recipient_text, extra_data_label = label, extra_data = extra\<rparr>,
            TRANSACTION_TYPE_NORMAL,
            if is_cashlink then TRANSACTION_LABEL_TYPE_CASHLINK
            else TRANSACTION_LABEL_TYPE_REGULAR_TRANSACTION)))))
      else if recipient_type = ACCOUNT_TYPE_VESTING \<or> recipient_type = ACCOUNT_TYPE_HTLC then
        andthen (check (flags \<noteq> TX_FLAG_CONTRACT_CREATION \<or> snd sender_data \<noteq> 0) ERROR_NOT_SUPPORTED) (\<lambda>_.
        if recipient_type = ACCOUNT_TYPE_VESTING then
          andthen (parse_vesting_creation_data mem version data sender sender_type v) (\<lambda>out.
          Ok (Vesting_creation_tx out, TRANSACTION_TYPE_VESTING_CREATION,
              TRANSACTION_LABEL_TYPE_VESTING_CREATION))
        else
          andthen (parse_htlc_creation_data mem version data sender sender_type height) (\<lambda>out.
          Ok (Htlc_creation_tx out, TRANSACTION_TYPE_HTLC_CREATION,
              TRANSACTION_LABEL_TYPE_HTLC_CREATION)))
      else if recipient_type = ACCOUNT_TYPE_STAKING then
        andthen (check ((flags \<noteq> 0 \<and> flags \<noteq> TX_FLAG_SIGNALING) \<or> snd sender_data \<noteq> 0)
          ERROR_NOT_SUPPORTED) (\<lambda>_.
        andthen (is_staking_contract mem recip) (\<lambda>to_staking_contract.
        andthen (check (\<not> to_staking_contract) ERROR_INCORRECT_DATA) (\<lambda>_.
        andthen (parse_staking_incoming_data blake2b mem version data sender) (\<lambda>out.
        andthen (staking_incoming_label (staking_type out)) (\<lambda>label.
        andthen (check ((flags = TX_FLAG_SIGNALING) \<noteq> is_signaling_transaction_data (staking_type out))
          ERROR_INCORRECT_DATA) (\<lambda>_.
        Ok (Staking_incoming_tx out, TRANSACTION_TYPE_STAKING_INCOMING, label)))))))
      else Err ERROR_INCORRECT_DATA)"

definition parse_tx ::
    "(u8 list \<Rightarrow> u8 list option) \<Rightarrow> u8 list \<Rightarrow> transaction_version_t \<Rightarrow> cursor \<Rightarrow>
     (error_t, parsed_tx_t) result" where
  "parse_tx blake2b mem version buffer =
     andthen (check (version \<noteq> TRANSACTION_VERSION_LEGACY \<and> version \<noteq> TRANSACTION_VERSION_ALBATROSS)
       ERROR_NOT_SUPPORTED) (\<lambda>_.
     andthen (or_error (read_u16 mem buffer) ERROR_READ) (\<lambda>(data_length, buffer).
     andthen (or_error (read_sub_buffer data_length buffer) ERROR_READ) (\<lambda>(data, buffer).
     andthen (or_error (read_sub_buffer 20 buffer) ERROR_READ) (\<lambda>(sender, buffer).
     andthen (or_error (read_u8 mem buffer) ERROR_READ) (\<lambda>(sender_type, buffer).
     andthen (or_error (read_sub_buffer 20 buffer) ERROR_READ) (\<lambda>(recip, buffer).
     andthen (or_error (read_u8 mem buffer) ERROR_READ) (\<lambda>(recipient_type, buffer).
     andthen (or_error (read_u64 mem buffer) ERROR_READ) (\<lambda>(v, buffer).
     andthen (parse_amount v (Some ''NIM'')) (\<lambda>value_text.
     andthen (or_error (read_u64 mem buffer) ERROR_READ) (\<lambda>(fee, buffer).
     andthen (parse_amount fee (Some ''NIM'')) (\<lambda>fee_text.
     andthen (or_error (read_u32 mem buffer) ERROR_READ) (\<lambda>(height, buffer).
     andthen (or_error (read_u8 mem buffer) ERROR_READ) (\<lambda>(network_id, buffer).
     andthen (parse_network_id version network_id) (\<lambda>network_text.
     andthen (or_error (read_u8 mem buffer) ERROR_READ) (\<lambda>(flags, buffer).
     andthen
       (if version = TRANSACTION_VERSION_ALBATROSS
        then or_error (read_serde_vec_u8 mem buffer) ERROR_READ
        else Ok ((None, 0), buffer)) (\<lambda>(sender_data, buffer).
     andthen (check (snd buffer \<noteq> 0) ERROR_INVALID_LENGTH) (\<lambda>_.
     andthen (parse_tx_type_specific blake2b mem version (data, data_length) sender sender_type recip
       recipient_type v height flags sender_data) (\<lambda>(specific, ttype, label).
     Ok \<lparr>type_specific = specific, transaction_type = ttype, transaction_label_type = label,
         tx_value = value_text, tx_fee = fee_text, tx_network = network_text\<rparr>))))))))))))))))))"

section \<open>Transactions as values\<close>

record tx_content =
  t_data :: "u8 list"
  t_sender :: "u8 list"
  t_sender_type :: u8
  t_recipient :: "u8 list"
  t_recipient_type :: u8
  t_value :: u64
  t_fee :: u64
  t_height :: u32
  t_network :: u8
  t_flags :: u8
  t_sender_data :: "u8 list"

definition tx_ok :: "transaction_version_t \<Rightarrow> tx_content \<Rightarrow> bool" where
  "tx_ok version tx =
     (length (t_data tx) < 65536 \<and> length (t_sender tx) = 20 \<and> length (t_recipient tx) = 20 \<and>
      (if version = TRANSACTION_VERSION_ALBATROSS then length (t_sender_data tx) < 128
       else t_sender_data tx = []))"

definition tx_bytes :: "transaction_version_t \<Rightarrow> tx_content \<Rightarrow> u8 list" where
  "tx_bytes version tx =
     be_bytes 2 (length (t_data tx)) @ t_data tx @ t_sender tx @ t_sender_type tx #
     t_recipient tx @ t_recipient_type tx # be_bytes 8 (unat (t_value tx)) @
     be_bytes 8 (unat (t_fee tx)) @ be_bytes 4 (unat (t_height tx)) @ t_network tx # t_flags tx #
     (if version = TRANSACTION_VERSION_ALBATROSS
      then of_nat (length (t_sender_data tx)) # t_sender_data tx else [])"

section \<open>The parser on serialized transactions\<close>

lemma be_bytes_2: "n < 65536 \<Longrightarrow> be_bytes 2 n = be_bytes 2 (unat (of_nat n :: u16))"
  by (simp add: unat_of_nat)

text \<open>
  The header of the parser: what is left to do is the type specific part, on pointers to the
  fields. The result is observed through \<open>f\<close>.
\<close>

definition observe ::
    "(type_specific_t \<Rightarrow> 'a) \<Rightarrow> parsed_tx_t \<Rightarrow>
     'a \<times> transaction_type_t \<times> transaction_label_type_t \<times> string \<times> string \<times> string" where
  "observe f out = (f (type_specific out), transaction_type out, transaction_label_type out,
     tx_value out, tx_fee out, tx_network out)"

lemma parse_tx_run:
  assumes "tx_ok version tx" "version = TRANSACTION_VERSION_LEGACY \<or> version = TRANSACTION_VERSION_ALBATROSS"
    and "wf_cursor mem c" "view mem c = tx_bytes version tx"
    and "\<And>data n sender recip sd m.
      wf_cursor mem (data, n) \<Longrightarrow> view mem (data, n) = t_data tx \<Longrightarrow>
      wf_cursor mem (sender, 20) \<Longrightarrow> sender \<noteq> None \<Longrightarrow> view mem (sender, 20) = t_sender tx \<Longrightarrow>
      wf_cursor mem (recip, 20) \<Longrightarrow> recip \<noteq> None \<Longrightarrow> view mem (recip, 20) = t_recipient tx \<Longrightarrow>
      wf_cursor mem (sd, m) \<Longrightarrow> view mem (sd, m) = t_sender_data tx \<Longrightarrow>
      andthen (parse_tx_type_specific blake2b mem version (data, n) sender (t_sender_type tx) recip
        (t_recipient_type tx) (t_value tx) (t_height tx) (t_flags tx) (sd, m))
        (\<lambda>(s, t, l). Ok (f s, t, l)) = R"
  shows "andthen (parse_tx blake2b mem version c) (\<lambda>out. Ok (observe f out)) =
    andthen (parse_amount (t_value tx) (Some ''NIM'')) (\<lambda>value_text.
    andthen (parse_amount (t_fee tx) (Some ''NIM'')) (\<lambda>fee_text.
    andthen (parse_network_id version (t_network tx)) (\<lambda>network_text.
    andthen R (\<lambda>(s, t, l). Ok (s, t, l, value_text, fee_text, network_text)))))"
proof -
  have len: "length (t_data tx) < 65536" "length (t_sender tx) = 20" "length (t_recipient tx) = 20"
    using assms(1) by (simp_all add: tx_ok_def)
  let ?n = "of_nat (length (t_data tx)) :: u16"
  have n: "length (t_data tx) = unat ?n" using len(1) by (simp add: unat_of_nat)
  let ?sd = "if version = TRANSACTION_VERSION_ALBATROSS
      then of_nat (length (t_sender_data tx)) # t_sender_data tx else []"
  have sender_data: "andthen (if version = TRANSACTION_VERSION_ALBATROSS
        then or_error (read_serde_vec_u8 mem c') ERROR_READ
        else Ok ((None, 0), c')) (\<lambda>(sd, buffer). k sd buffer) = r"
    if "wf_cursor mem c'" "view mem c' = ?sd" and
      k: "\<And>sd m c''. wf_cursor mem (sd, m) \<Longrightarrow> view mem (sd, m) = t_sender_data tx \<Longrightarrow> snd c'' = 0 \<Longrightarrow>
        k (sd, m) c'' = r" for c' k r
  proof (cases "version = TRANSACTION_VERSION_ALBATROSS")
    case True
    have "andthen (or_error (read_serde_vec_u8 mem c') ERROR_READ) (\<lambda>(sd, buffer). k sd buffer) = r"
      using that(1,2) True assms(1)
      by (intro reads_serde_vec_u8 [where bs = "t_sender_data tx" and rest = "[]"])
        (auto simp: tx_ok_def view_Nil_iff intro!: k)
    with True show ?thesis by simp
  next
    case False
    then show ?thesis
      using that(1,2) assms(1) by (auto simp: tx_ok_def view_Nil_iff intro!: k)
  qed
  have finish: "andthen (check (snd c' \<noteq> 0) ERROR_INVALID_LENGTH) (\<lambda>_.
      andthen (parse_tx_type_specific blake2b mem version (data, ?n) sender (t_sender_type tx) recip
        (t_recipient_type tx) (t_value tx) (t_height tx) (t_flags tx) sd) (\<lambda>(s, t, l).
      Ok (observe f \<lparr>type_specific = s, transaction_type = t, transaction_label_type = l,
         tx_value = value_text, tx_fee = fee_text, tx_network = network_text\<rparr>))) =
      andthen R (\<lambda>(s, t, l). Ok (s, t, l, value_text, fee_text, network_text))"
    if "snd c' = 0" "wf_cursor mem (data, ?n)" "view mem (data, ?n) = t_data tx"
      "wf_cursor mem (sender, 20)" "sender = None \<longleftrightarrow> (20 :: u16) = 0" "view mem (sender, 20) = t_sender tx"
      "wf_cursor mem (recip, 20)" "recip = None \<longleftrightarrow> (20 :: u16) = 0" "view mem (recip, 20) = t_recipient tx"
      "wf_cursor mem sd" "view mem sd = t_sender_data tx"
    for c' :: cursor and data sender recip sd value_text fee_text network_text
  proof -
    obtain p m where sd: "sd = (p, m)" by (cases sd)
    have "sender \<noteq> None" "recip \<noteq> None" using that(5,8) by simp_all
    from assms(5) [OF that(2,3,4) this(1) that(6,7) this(2) that(9) that(10,11) [unfolded sd]] that(1)
    show ?thesis
      by (auto simp: sd flatten_simps observe_def case_prod_unfold)
  qed
  have v: "check (version \<noteq> TRANSACTION_VERSION_LEGACY \<and> version \<noteq> TRANSACTION_VERSION_ALBATROSS)
      ERROR_NOT_SUPPORTED = Ok ()"
    using assms(2) by (auto simp: check_def)
  show ?thesis
    unfolding parse_tx_def v andthen_simps flatten_simps
    apply (rule r16.run [OF assms(3), where x = ?n])
     apply (simp add: assms(4) tx_bytes_def n [symmetric])
    apply (rule reads_sub_buffer [where mem = mem and bs = "t_data tx"], assumption, assumption, rule n)
    apply (rule reads_sub_buffer [where mem = mem and bs = "t_sender tx"], assumption, assumption)
     apply (simp add: len)
    apply (rule reads_u8, assumption, assumption)
    apply (rule reads_sub_buffer [where mem = mem and bs = "t_recipient tx"], assumption, assumption)
     apply (simp add: len)
    apply (rule reads_u8, assumption, assumption)
    apply (rule r64.run [where x = "t_value tx"], assumption, assumption)
    apply (rule andthen_cong [OF refl])
    apply (rule r64.run [where x = "t_fee tx"], assumption, assumption)
    apply (rule andthen_cong [OF refl])
    apply (rule r32.run [where x = "t_height tx"], assumption, assumption)
    apply (rule reads_u8, assumption, assumption)
    apply (rule andthen_cong [OF refl])
    apply (rule reads_u8, assumption, assumption)
    apply (rule sender_data, assumption, assumption)
    apply (rule finish; assumption)
    done
qed

end
