(* ===== verification/Transactions.thy ===== *)
theory Transactions
  imports Tx_Parser
begin

text \<open>
  What the transaction parser displays, as a function of the transaction value. A payload is the
  content of a supported transaction: the kind of transaction and its structured data.
  \<open>carries\<close> says which transactions are of which kind; \<open>tx_display\<close> gives the displayed fields,
  or the error, for a transaction with a payload.

  The parser on serialized transactions is \<open>tx_display\<close>; whatever it accepts is the serialization
  of a transaction with a payload; the parser never faults and all fields fit their arrays.
\<close>

section \<open>Normal transaction data\<close>

text \<open>Label, text, and whether the data marks a cashlink.\<close>

definition normal_display :: "u8 list \<Rightarrow> (error_t, (string \<times> string) \<times> bool) result" where
  "normal_display data =
     (if length data > 64 then Err ERROR_INVALID_LENGTH
      else if data = [] then Ok (('''', ''''), False)
      else if data = CASHLINK_MAGIC_NUMBER then Ok (('''', ''''), True)
      else if is_printable_ascii data then Ok ((''Data'', map char_of_byte data), False)
      else Ok ((''Data Hex'', hex_string data), False))"

lemma normal_data_max: "n > LENGTH_NORMAL_TX_DATA_MAX \<longleftrightarrow> unat n > 64"
  by (simp add: LENGTH_NORMAL_TX_DATA_MAX_def word_less_nat_alt)

lemma parse_normal_eq:
  assumes "wf_cursor mem c"
  shows "parse_normal_tx_data mem c = normal_display (view mem c)"
proof -
  let ?bs = "view mem c"
  have n: "unat (snd c) = length ?bs" using length_view [OF assms] by simp
  have magic: "snd c = CASHLINK_MAGIC_NUMBER_LENGTH \<and> ?bs = CASHLINK_MAGIC_NUMBER \<longleftrightarrow> ?bs = CASHLINK_MAGIC_NUMBER"
    using n by (auto simp: CASHLINK_MAGIC_NUMBER_LENGTH_def CASHLINK_MAGIC_NUMBER_def word_unat_eq_iff)
  show ?thesis
  proof (cases "length ?bs > 64 \<or> ?bs = []")
    case True
    then show ?thesis
      using n view_Nil_iff [OF assms]
      by (auto simp: parse_normal_tx_data_def normal_display_def normal_data_max)
  next
    case False
    then have "0 < length ?bs" "length ?bs \<le> 64" by auto
    then have null: "\<not> (fst c = None \<or> snd c = 0)" and at: "bytes_at mem (fst c) (length ?bs) = (Ok ?bs :: (error_t, u8 list) result)"
      using assms n bytes_at_view [of mem "fst c" "snd c"] by (cases c rule: cursor_cases; auto)+
    have hex: "andthen (print_hex ?bs (replicate STRING_LENGTH_NORMAL_TX_DATA_MAX NUL)
           STRING_LENGTH_NORMAL_TX_DATA_MAX) (\<lambda>arr. Ok ((''Data Hex'', c_string arr), False)) =
        Ok ((''Data Hex'', hex_string ?bs), False)"
      using False c_string_no_NUL [OF hex_string_no_NUL, of ?bs]
      by (simp add: print_hex_result length_defs)
    have ascii: "andthen (poke 0 (map char_of_byte ?bs @ [NUL]) (replicate STRING_LENGTH_NORMAL_TX_DATA_MAX NUL))
           (\<lambda>arr. Ok ((''Data'', c_string arr), False)) = (Ok ((''Data'', map char_of_byte ?bs), False) :: (error_t, _) result)"
      if "is_printable_ascii ?bs"
      using False c_string_no_NUL [OF printable_no_NUL [OF that]]
      by (simp add: poke_def length_defs)
    show ?thesis
      unfolding parse_normal_tx_data_def normal_data_max n normal_display_def
      using False null by (simp only: at hex ascii magic if_not_P check_simps andthen_simps) (simp add: ascii)
  qed
qed

section \<open>Payloads\<close>

datatype payload =
    Basic_transfer
  | Vesting_creation "u8 list" vesting_params
  | Htlc_creation htlc_data
  | Staking_call staking_data
  | Unstaking

fun payload_data :: "payload \<Rightarrow> tx_content \<Rightarrow> u8 list" where
  "payload_data Basic_transfer tx = t_data tx"
| "payload_data (Vesting_creation owner v) tx = owner @ vesting_params_bytes v"
| "payload_data (Htlc_creation h) tx = htlc_bytes h"
| "payload_data (Staking_call d) tx = staking_data_bytes d"
| "payload_data Unstaking tx = []"

definition staking_contract :: "u8 list" where
  "staking_contract = replicate 19 0 @ [1]"

fun staking_data_type :: "staking_data \<Rightarrow> staking_incoming_data_type_t" where
  "staking_data_type (Create_staker _ _ _ _) = CREATE_STAKER"
| "staking_data_type (Update_staker _ _ _ _ _) = UPDATE_STAKER"
| "staking_data_type (Add_stake _) = ADD_STAKE"
| "staking_data_type (Set_active_stake _ _ _) = SET_ACTIVE_STAKE"
| "staking_data_type (Retire_stake _ _ _) = RETIRE_STAKE"

text \<open>Staking data that changes no balance is sent in a signaling transaction.\<close>

fun signaling :: "staking_data \<Rightarrow> bool" where
  "signaling (Create_staker _ _ _ _) = False"
| "signaling (Update_staker _ _ _ _ _) = True"
| "signaling (Add_stake _) = False"
| "signaling (Set_active_stake _ _ _) = True"
| "signaling (Retire_stake _ _ _) = True"

fun carries :: "transaction_version_t \<Rightarrow> tx_content \<Rightarrow> payload \<Rightarrow> bool" where
  "carries version tx Basic_transfer =
     (t_sender_type tx \<noteq> ACCOUNT_TYPE_STAKING \<and> t_recipient_type tx = ACCOUNT_TYPE_BASIC \<and>
      t_flags tx = 0 \<and> t_sender_data tx = [])"
| "carries version tx (Vesting_creation owner v) =
     (t_sender_type tx \<noteq> ACCOUNT_TYPE_STAKING \<and> t_recipient_type tx = ACCOUNT_TYPE_VESTING \<and>
      t_flags tx = TX_FLAG_CONTRACT_CREATION \<and> t_sender_data tx = [] \<and>
      version = TRANSACTION_VERSION_LEGACY \<and> length owner = 20 \<and>
      t_data tx = owner @ vesting_params_bytes v)"
| "carries version tx (Htlc_creation h) =
     (t_sender_type tx \<noteq> ACCOUNT_TYPE_STAKING \<and> t_recipient_type tx = ACCOUNT_TYPE_HTLC \<and>
      t_flags tx = TX_FLAG_CONTRACT_CREATION \<and> t_sender_data tx = [] \<and>
      version = TRANSACTION_VERSION_LEGACY \<and> htlc_ok h \<and> t_data tx = htlc_bytes h)"
| "carries version tx (Staking_call d) =
     (t_sender_type tx \<noteq> ACCOUNT_TYPE_STAKING \<and> t_recipient_type tx = ACCOUNT_TYPE_STAKING \<and>
      t_flags tx = (if signaling d then TX_FLAG_SIGNALING else 0) \<and> t_sender_data tx = [] \<and>
      version = TRANSACTION_VERSION_ALBATROSS \<and> t_recipient tx = staking_contract \<and>
      staking_data_ok d \<and> t_data tx = staking_data_bytes d)"
| "carries version tx Unstaking =
     (t_sender_type tx = ACCOUNT_TYPE_STAKING \<and> t_flags tx = 0 \<and> t_data tx = [] \<and>
      t_sender tx = staking_contract \<and> version = TRANSACTION_VERSION_ALBATROSS \<and>
      t_sender_data tx = [REMOVE_STAKE])"

section \<open>The displayed transaction\<close>

datatype shown_t =
    Shown_transfer tx_data_normal_or_staking_outgoing_t
  | Shown_htlc tx_data_htlc_creation_t
  | Shown_vesting tx_data_vesting_creation_t
  | Shown_staking staking_incoming_data_type_t staking_specific_t string

text \<open>Of staking data, the pointers into the request and the flag that one is set are not shown.\<close>

fun shown :: "type_specific_t \<Rightarrow> shown_t" where
  "shown (Normal_or_staking_outgoing_tx d) = Shown_transfer d"
| "shown (Htlc_creation_tx d) = Shown_htlc d"
| "shown (Vesting_creation_tx d) = Shown_vesting d"
| "shown (Staking_incoming_tx d) =
     Shown_staking (staking_type d) (staking_specific d) (validator_or_staker_address d)"

fun staking_data_label :: "staking_data \<Rightarrow> transaction_label_type_t" where
  "staking_data_label (Create_staker _ _ _ _) = TRANSACTION_LABEL_TYPE_STAKING_CREATE_STAKER"
| "staking_data_label (Update_staker _ _ _ _ _) = TRANSACTION_LABEL_TYPE_STAKING_UPDATE_STAKER"
| "staking_data_label (Add_stake _) = TRANSACTION_LABEL_TYPE_STAKING_ADD_STAKE"
| "staking_data_label (Set_active_stake _ _ _) = TRANSACTION_LABEL_TYPE_STAKING_SET_ACTIVE_STAKE"
| "staking_data_label (Retire_stake _ _ _) = TRANSACTION_LABEL_TYPE_STAKING_RETIRE_STAKE"

fun payload_display ::
    "(u8 list \<Rightarrow> u8 list option) \<Rightarrow> tx_content \<Rightarrow> payload \<Rightarrow>
     (error_t, shown_t \<times> transaction_type_t \<times> transaction_label_type_t) result" where
  "payload_display blake2b tx Basic_transfer =
     andthen (normal_display (t_data tx)) (\<lambda>((label, text), is_cashlink).
     Ok (Shown_transfer \<lparr>recipient = address_text (t_recipient tx), extra_data_label = label, extra_data = text\<rparr>,
         TRANSACTION_TYPE_NORMAL,
         if is_cashlink then TRANSACTION_LABEL_TYPE_CASHLINK else TRANSACTION_LABEL_TYPE_REGULAR_TRANSACTION))"
| "payload_display blake2b tx (Vesting_creation owner v) =
     andthen (vesting_display (t_sender tx) (t_sender_type tx) (t_value tx) owner v) (\<lambda>d.
     Ok (Shown_vesting d, TRANSACTION_TYPE_VESTING_CREATION, TRANSACTION_LABEL_TYPE_VESTING_CREATION))"
| "payload_display blake2b tx (Htlc_creation h) =
     andthen (htlc_display (t_sender tx) (t_sender_type tx) (t_height tx) h) (\<lambda>d.
     Ok (Shown_htlc d, TRANSACTION_TYPE_HTLC_CREATION, TRANSACTION_LABEL_TYPE_HTLC_CREATION))"
| "payload_display blake2b tx (Staking_call d) =
     andthen (staking_display blake2b (t_sender tx) d) (\<lambda>(t, specific, address).
     Ok (Shown_staking t specific address, TRANSACTION_TYPE_STAKING_INCOMING, staking_data_label d))"
| "payload_display blake2b tx Unstaking =
     Ok (Shown_transfer \<lparr>recipient = address_text (t_recipient tx), extra_data_label = '''', extra_data = ''''\<rparr>,
         TRANSACTION_TYPE_STAKING_OUTGOING, TRANSACTION_LABEL_TYPE_STAKING_REMOVE_STAKE)"

definition luna_text :: "u64 \<Rightarrow> (error_t, string) result" where
  "luna_text n =
     (if unat n \<le> 2 ^ 53 - 1 then Ok (amount_string (unat n) @ '' NIM'') else Err ERROR_INCORRECT_DATA)"

text \<open>The networks by their displayed name, with their id in legacy and in albatross transactions.\<close>

definition networks :: "(string \<times> u8 \<times> u8) list" where
  "networks = [(''Main'', 42, 24), (''Test'', 1, 5), (''Development'', 2, 6), (''Bounty'', 3, 7)]"

definition network_name :: "transaction_version_t \<Rightarrow> u8 \<Rightarrow> (error_t, string) result" where
  "network_name version n =
     (let named = map (\<lambda>(name, legacy, albatross).
        (if version = TRANSACTION_VERSION_LEGACY then legacy else albatross, name)) networks
      in case map_of named n of None \<Rightarrow> Err ERROR_INCORRECT_DATA | Some name \<Rightarrow> Ok name)"

lemma parse_network_id_eq: "parse_network_id = network_name"
  by (simp add: fun_eq_iff parse_network_id_def network_name_def networks_def)

lemma network_name_inject: "network_name version m = Ok s \<Longrightarrow> network_name version n = Ok s \<Longrightarrow> m = n"
  by (auto simp: network_name_def networks_def split: if_splits)

definition tx_display ::
    "(u8 list \<Rightarrow> u8 list option) \<Rightarrow> transaction_version_t \<Rightarrow> tx_content \<Rightarrow> payload \<Rightarrow>
     (error_t, shown_t \<times> transaction_type_t \<times> transaction_label_type_t \<times> string \<times> string \<times> string) result" where
  "tx_display blake2b version tx p =
     andthen (luna_text (t_value tx)) (\<lambda>value_text.
     andthen (luna_text (t_fee tx)) (\<lambda>fee_text.
     andthen (network_name version (t_network tx)) (\<lambda>network_text.
     andthen (payload_display blake2b tx p) (\<lambda>(s, t, l).
     Ok (s, t, l, value_text, fee_text, network_text)))))"

section \<open>The parser displays the transaction\<close>

lemma luna_text_eq: "parse_amount n (Some ''NIM'') = luna_text n"
  by (simp add: parse_amount_NIM luna_text_def MAX_SAFE_LUNA_AMOUNT_def word_less_nat_alt)

lemma staking_label_eq:
  "staking_incoming_label (staking_data_type d) = Ok (staking_data_label d)"
  "is_signaling_transaction_data (staking_data_type d) = signaling d"
  by (cases d; simp add: staking_incoming_label_def is_signaling_transaction_data_def staking_type_defs)+

lemma staking_display_type:
  "staking_display blake2b sender d = Ok (t, specific, address) \<Longrightarrow> t = staking_data_type d"
  by (cases d) (auto simp: andthen_eq_Ok)

lemma type_specific_display:
  assumes "carries version tx p" "hash_ok blake2b" "length (t_recipient tx) = 20"
    and "wf_cursor mem (data, n)" "view mem (data, n) = t_data tx"
    and "wf_cursor mem (sender, 20)" "sender \<noteq> None" "view mem (sender, 20) = t_sender tx"
    and "wf_cursor mem (recip, 20)" "recip \<noteq> None" "view mem (recip, 20) = t_recipient tx"
    and "wf_cursor mem (sd, m)" "view mem (sd, m) = t_sender_data tx"
  shows "andthen (parse_tx_type_specific blake2b mem version (data, n) sender (t_sender_type tx) recip
        (t_recipient_type tx) (t_value tx) (t_height tx) (t_flags tx) (sd, m))
        (\<lambda>(s, t, l). Ok (shown s, t, l)) = payload_display blake2b tx p"
proof -
  note m = view_Nil_iff [OF assms(12), unfolded assms(13) snd_conv]
  note n = view_Nil_iff [OF assms(4), unfolded assms(5) snd_conv]
  have at: "bytes_at mem recip 20 = (Ok (t_recipient tx) :: (error_t, u8 list) result)"
    by (rule bytes_at_eq [OF assms(9-11)]) simp
  note contract = is_staking_contract_iff [OF assms(9,10)] is_staking_contract_iff [OF assms(6,7)]
  show ?thesis
  proof (cases p)
    case Basic_transfer
    then show ?thesis
      using assms(1,3) m parse_normal_eq [OF assms(4)] assms(5)
      by (simp add: parse_tx_type_specific_def account_type_defs at print_address_eq flatten_simps
          case_prod_unfold)
  next
    case (Vesting_creation owner v)
    then show ?thesis
      using assms(1) m parse_vesting_eq [of owner mem "(data, n)" v sender, OF _ assms(4) _ assms(6-8)] assms(5)
      by (simp add: parse_tx_type_specific_def account_type_defs flatten_simps flag_values)
  next
    case (Htlc_creation h)
    then show ?thesis
      using assms(1) m parse_htlc_eq [of h mem "(data, n)" sender, OF _ assms(4) _ assms(6-8)] assms(5)
      by (simp add: parse_tx_type_specific_def account_type_defs flatten_simps flag_values)
  next
    case (Staking_call d)
    let ?r = "parse_staking_incoming_data blake2b mem version (data, n) sender"
    have eq: "andthen ?r (\<lambda>out. Ok (displayed_staking out)) = staking_display blake2b (t_sender tx) d"
      using Staking_call assms(1) by (intro parse_staking_incoming_eq assms(2,4,6-8)) (simp_all add: assms(5) version_defs)
    have rest: "andthen ?r (\<lambda>out.
        andthen (staking_incoming_label (staking_type out)) (\<lambda>label.
        andthen (check (signaling d \<noteq> is_signaling_transaction_data (staking_type out)) ERROR_INCORRECT_DATA) (\<lambda>_.
        Ok (shown (Staking_incoming_tx out), TRANSACTION_TYPE_STAKING_INCOMING, label)))) =
        payload_display blake2b tx p"
    proof (cases ?r)
      case (Ok out)
      with eq have disp: "staking_display blake2b (t_sender tx) d =
          Ok (staking_type out, staking_specific out, validator_or_staker_address out)"
        by (simp add: displayed_staking_def)
      show ?thesis
        using staking_display_type [OF disp] by (simp add: Staking_call Ok disp staking_label_eq)
    qed (use eq [symmetric] in \<open>simp_all add: Staking_call\<close>)
    have flags: "(t_flags tx = TX_FLAG_SIGNALING) = signaling d" "t_flags tx = 0 \<or> t_flags tx = TX_FLAG_SIGNALING"
      using Staking_call assms(1) by (auto simp: flag_values)
    then have unsupported: "((t_flags tx \<noteq> 0 \<and> t_flags tx \<noteq> TX_FLAG_SIGNALING) \<or> m \<noteq> 0) = (m \<noteq> 0)"
      by blast
    show ?thesis
      unfolding rest [symmetric] parse_tx_type_specific_def
      using Staking_call assms(1,11) m
      by (simp add: contract staking_contract_def account_type_defs flatten_simps flags(1) unsupported flag_values)
  next
    case Unstaking
    have "parse_staking_outgoing_data mem TRANSACTION_VERSION_ALBATROSS (sd, m) = Ok REMOVE_STAKE"
      if "t_sender_data tx = [REMOVE_STAKE]"
      using parse_staking_outgoing_eq [OF assms(12), of TRANSACTION_VERSION_ALBATROSS] assms(13) that
      by (simp add: version_defs)
    with Unstaking assms(1,3,8) n show ?thesis
      by (auto simp: parse_tx_type_specific_def at print_address_eq contract staking_contract_def
          staking_outgoing_label_def)
  qed
qed

theorem parse_tx_eq:
  assumes "tx_ok version tx" "carries version tx p" "hash_ok blake2b"
    and "version = TRANSACTION_VERSION_LEGACY \<or> version = TRANSACTION_VERSION_ALBATROSS"
    and "wf_cursor mem c" "view mem c = tx_bytes version tx"
  shows "andthen (parse_tx blake2b mem version c) (\<lambda>out. Ok (observe shown out)) =
    tx_display blake2b version tx p"
  unfolding tx_display_def luna_text_eq [symmetric] parse_network_id_eq [symmetric]
  using assms(1) by (intro parse_tx_run [OF assms(1,4-6)] type_specific_display [OF assms(2,3)])
    (simp add: tx_ok_def)

section \<open>Accepted buffers\<close>

lemma parse_staking_type:
  assumes "parse_staking_incoming_data blake2b mem version c sender = Ok out" "wf_cursor mem c"
  shows "\<exists>rest. view mem c = staking_type out # rest"
proof -
  have "andthen (or_error (read_u8 mem c) ERROR_READ) (\<lambda>(t, data).
     if t = staking_type out then Ok () else Err ERROR_READ) = Ok ()"
    using assms(1) by (auto simp: parse_staking_incoming_data_def Ok_simps case_prod_unfold)
  then show ?thesis
    by (rule read_elims_u8 [OF _ assms(2)]) (simp split: if_splits)
qed

lemma type_specific_sound:
  assumes "parse_tx_type_specific blake2b mem version (data, n) sender sender_type recip
      recipient_type v height flags (sd, m) = Ok out"
    and "wf_cursor mem (data, n)" "wf_cursor mem (sender, 20)" "sender \<noteq> None"
    and "wf_cursor mem (recip, 20)" "recip \<noteq> None" "wf_cursor mem (sd, m)"
    and "version = TRANSACTION_VERSION_LEGACY \<or> version = TRANSACTION_VERSION_ALBATROSS"
    and "tx = \<lparr>t_data = view mem (data, n), t_sender = view mem (sender, 20), t_sender_type = sender_type,
      t_recipient = view mem (recip, 20), t_recipient_type = recipient_type, t_value = v, t_fee = fee,
      t_height = height, t_network = network, t_flags = flags, t_sender_data = view mem (sd, m)\<rparr>"
  obtains p where "carries version tx p"
proof -
  note m = view_Nil_iff [OF assms(7), unfolded snd_conv]
  note n = view_Nil_iff [OF assms(2), unfolded snd_conv]
  note contract = is_staking_contract_iff [OF assms(5,6)] is_staking_contract_iff [OF assms(3,4)]
  note P = assms(1) [unfolded parse_tx_type_specific_def snd_conv]
  consider (unstake) "sender_type = ACCOUNT_TYPE_STAKING"
    | (basic) "sender_type \<noteq> ACCOUNT_TYPE_STAKING" "recipient_type = ACCOUNT_TYPE_BASIC"
    | (vesting) "sender_type \<noteq> ACCOUNT_TYPE_STAKING" "recipient_type = ACCOUNT_TYPE_VESTING"
    | (htlc) "sender_type \<noteq> ACCOUNT_TYPE_STAKING" "recipient_type = ACCOUNT_TYPE_HTLC"
    | (staking) "sender_type \<noteq> ACCOUNT_TYPE_STAKING" "recipient_type = ACCOUNT_TYPE_STAKING"
    using P by (auto split: if_splits)
  then show thesis
  proof cases
    case unstake
    then obtain t where t: "parse_staking_outgoing_data mem version (sd, m) = Ok t" "flags = 0" "n = 0"
        "view mem (sender, 20) = staking_contract" "t = REMOVE_STAKE"
      using P by (auto simp: Ok_simps contract staking_contract_def staking_outgoing_label_def split: if_splits)
    moreover from t(1) have "version \<noteq> TRANSACTION_VERSION_LEGACY"
      by (auto simp: parse_staking_outgoing_data_def Ok_simps)
    ultimately show ?thesis
      using unstake assms(8) n parse_staking_outgoing_eq [OF assms(7), of version]
      by (intro that [of Unstaking]) (auto simp: assms(9) split: list.splits if_splits)
  next
    case basic
    then show ?thesis
      using P m by (intro that [of Basic_transfer]) (auto simp: assms(9) Ok_simps account_type_defs)
  next
    case vesting
    then obtain d where d: "parse_vesting_creation_data mem version (data, n) sender sender_type v = Ok d"
        "flags = TX_FLAG_CONTRACT_CREATION" "m = 0"
      using P by (auto simp: Ok_simps account_type_defs)
    from parse_vesting_sound [OF d(1) assms(2)] obtain owner vp where
      "length owner = 20" "view mem (data, n) = owner @ vesting_params_bytes vp"
      "version = TRANSACTION_VERSION_LEGACY" .
    then show ?thesis
      using vesting d m by (intro that [of "Vesting_creation owner vp"]) (simp add: assms(9))
  next
    case htlc
    then obtain d where d: "parse_htlc_creation_data mem version (data, n) sender sender_type height = Ok d"
        "flags = TX_FLAG_CONTRACT_CREATION" "m = 0"
      using P by (auto simp: Ok_simps account_type_defs)
    from parse_htlc_sound [OF d(1) assms(2)] obtain h where
      "htlc_ok h" "view mem (data, n) = htlc_bytes h" "version = TRANSACTION_VERSION_LEGACY" .
    then show ?thesis
      using htlc d m by (intro that [of "Htlc_creation h"]) (simp add: assms(9))
  next
    case staking
    then obtain d where d: "parse_staking_incoming_data blake2b mem version (data, n) sender = Ok d" "m = 0"
        "view mem (recip, 20) = staking_contract"
        "(flags = TX_FLAG_SIGNALING) = is_signaling_transaction_data (staking_type d)"
        "flags = 0 \<or> flags = TX_FLAG_SIGNALING"
      using P by (auto simp: Ok_simps account_type_defs contract staking_contract_def)
    from parse_staking_incoming_sound [OF d(1) assms(2)] obtain sdata where
      s: "staking_data_ok sdata" "view mem (data, n) = staking_data_bytes sdata"
      "version \<noteq> TRANSACTION_VERSION_LEGACY" .
    have "staking_type d = staking_data_type sdata"
      using parse_staking_type [OF d(1) assms(2)] s(2) by (cases sdata) auto
    then show ?thesis
      using staking d m s assms(8)
      by (intro that [of "Staking_call sdata"]) (auto simp: assms(9) staking_label_eq flag_values)
  qed
qed

lemma read_elims_sender_data:
  assumes "andthen (if version = TRANSACTION_VERSION_ALBATROSS
        then or_error (read_serde_vec_u8 mem c) ERROR_READ else Ok ((None, 0), c)) (\<lambda>(sd, c). k sd c) = Ok r"
    and "wf_cursor mem c"
  obtains p m bs c' where "wf_cursor mem c'" "wf_cursor mem (p, m)" "view mem (p, m) = bs"
    "if version = TRANSACTION_VERSION_ALBATROSS then length bs < 128 else bs = []"
    "view mem c = (if version = TRANSACTION_VERSION_ALBATROSS then of_nat (length bs) # bs else []) @ view mem c'"
    "k (p, m) c' = Ok r"
proof (cases "version = TRANSACTION_VERSION_ALBATROSS")
  case True
  with assms(1) have "andthen (or_error (read_serde_vec_u8 mem c) ERROR_READ) (\<lambda>(sd, c). k sd c) = Ok r"
    by simp
  then show ?thesis
    by (rule read_elims_serde_vec_u8 [OF _ assms(2)]) (use True in \<open>intro that; simp\<close>)
next
  case False
  with assms show ?thesis by (intro that [of c None 0 "[]"]) simp_all
qed

lemma parse_tx_accepted:
  assumes "parse_tx blake2b mem version c = Ok out" "wf_cursor mem c"
  obtains tx p where "tx_ok version tx" "carries version tx p" "view mem c = tx_bytes version tx"
    "version = TRANSACTION_VERSION_LEGACY \<or> version = TRANSACTION_VERSION_ALBATROSS"
proof -
  have v: "version = TRANSACTION_VERSION_LEGACY \<or> version = TRANSACTION_VERSION_ALBATROSS"
    using assms(1) by (auto simp: parse_tx_def Ok_simps)
  show thesis
    apply (insert assms(1) [unfolded parse_tx_def])
    apply (erule read_elims_check)
    apply (erule r16.run_elim, rule assms(2))
    apply (erule read_elims_sub_buffer, assumption)
    apply (erule read_elims_sub_buffer, assumption)
    apply (erule read_elims_u8, assumption)
    apply (erule read_elims_sub_buffer, assumption)
    apply (erule read_elims_u8, assumption)
    apply (erule r64.run_elim, assumption)
    apply (subst (asm) andthen_eq_Ok [of "parse_amount _ _"], elim exE conjE)
    apply (erule r64.run_elim, assumption)
    apply (subst (asm) andthen_eq_Ok [of "parse_amount _ _"], elim exE conjE)
    apply (erule r32.run_elim, assumption)
    apply (erule read_elims_u8, assumption)
    apply (subst (asm) andthen_eq_Ok [of "parse_network_id _ _"], elim exE conjE)
    apply (erule read_elims_u8, assumption)
    apply (erule read_elims_sender_data, assumption)
    apply (frule check_end, assumption)
    apply (erule read_elims_check)
    apply (subst (asm) andthen_eq_Ok [of "parse_tx_type_specific _ _ _ _ _ _ _ _ _ _ _ _"], elim exE conjE)
    subgoal for data_length c1 data c2 sender c3 sender_type c4 recip c5 recipient_type c6 v c7 vt fee
        c8 ft height c9 network c10 nt flags c11 p m bs c12 out'
      apply (rule type_specific_sound [of blake2b mem version data data_length sender sender_type recip
            recipient_type v height flags p m out', OF _ _ _ _ _ _ _ _ refl, of fee network])
              apply (assumption | simp add: v)+
      apply (rule that [rotated], assumption)
        apply (simp add: tx_bytes_def)
       apply (rule v)
      apply (simp add: tx_ok_def unat_bounds split: if_splits)
      done
    done
qed

text \<open>Together: a buffer is accepted exactly if it is such a transaction and can be displayed.\<close>

lemma parse_tx_Ok_display:
  assumes "parse_tx blake2b mem version c = Ok out" "wf_cursor mem c" "hash_ok blake2b"
  obtains tx p where "tx_ok version tx" "carries version tx p" "view mem c = tx_bytes version tx"
    "tx_display blake2b version tx p = Ok (observe shown out)"
    "version = TRANSACTION_VERSION_LEGACY \<or> version = TRANSACTION_VERSION_ALBATROSS"
proof -
  from parse_tx_accepted [OF assms(1,2)] obtain tx p where *:
    "tx_ok version tx" "carries version tx p" "view mem c = tx_bytes version tx"
    "version = TRANSACTION_VERSION_LEGACY \<or> version = TRANSACTION_VERSION_ALBATROSS" .
  with parse_tx_eq [OF *(1,2) assms(3) *(4) assms(2) *(3)] assms(1) show thesis
    by (intro that) simp_all
qed

section \<open>The display determines the transaction\<close>

lemma luna_text_inject: "luna_text m = Ok s \<Longrightarrow> luna_text n = Ok s \<Longrightarrow> m = n"
  by (auto simp: luna_text_def amount_string_inject word_unat_eq_iff split: if_splits)

lemma normal_display_inject:
  assumes "normal_display d = Ok x" "normal_display d' = Ok x"
  shows "d = d'"
  using assms by (auto simp: normal_display_def map_char_of_byte_inject hex_string_inject split: if_splits)

lemma address_text_inject:
  "length a = 20 \<Longrightarrow> length b = 20 \<Longrightarrow> address_text a = address_text b \<longleftrightarrow> a = b"
  using address.text_inject by blast

text \<open>The fields every transaction displays, and the kind of its payload.\<close>

lemma display_determines_header:
  assumes "tx_display blake2b version tx p = Ok s" "tx_display blake2b version tx' p' = Ok s"
  shows "t_value tx = t_value tx'" "t_fee tx = t_fee tx'" "t_network tx = t_network tx'"
    and "\<exists>s. payload_display blake2b tx p = Ok s \<and> payload_display blake2b tx' p' = Ok s"
  using assms by (auto simp: tx_display_def andthen_eq_Ok dest: luna_text_inject network_name_inject)

lemma display_determines_transfer:
  assumes "tx_display blake2b version tx Basic_transfer = Ok s" "tx_display blake2b version tx' p' = Ok s"
    and "tx_ok version tx" "tx_ok version tx'"
  shows "p' = Basic_transfer \<and> t_recipient tx = t_recipient tx' \<and> t_data tx = t_data tx' \<and>
    t_value tx = t_value tx' \<and> t_fee tx = t_fee tx' \<and> t_network tx = t_network tx'"
proof -
  note header = display_determines_header [OF assms(1,2)]
  then obtain s where s: "payload_display blake2b tx Basic_transfer = Ok s" "payload_display blake2b tx' p' = Ok s"
    by blast
  have len: "length (t_recipient tx) = 20" "length (t_recipient tx') = 20"
    using assms(3,4) by (simp_all add: tx_ok_def)
  have "p' = Basic_transfer"
    using s by (cases p') (auto simp: andthen_eq_Ok case_prod_unfold)
  with s header show ?thesis
    by (auto simp: andthen_eq_Ok address_text_inject len intro: normal_display_inject split: if_splits)
qed

lemma display_determines_htlc:
  assumes "tx_display blake2b version tx (Htlc_creation h) = Ok s" "tx_display blake2b version tx' p' = Ok s"
    and "carries version tx (Htlc_creation h)" "carries version tx' p'"
  shows "p' = Htlc_creation h \<and> t_data tx = t_data tx' \<and>
    t_value tx = t_value tx' \<and> t_fee tx = t_fee tx' \<and> t_network tx = t_network tx'"
proof -
  note header = display_determines_header [OF assms(1,2)]
  then obtain s where s: "payload_display blake2b tx (Htlc_creation h) = Ok s" "payload_display blake2b tx' p' = Ok s"
    by blast
  obtain h' where p': "p' = Htlc_creation h'"
    using s by (cases p') (auto simp: andthen_eq_Ok case_prod_unfold)
  with s obtain out where
    "htlc_display (t_sender tx) (t_sender_type tx) (t_height tx) h = Ok out"
    "htlc_display (t_sender tx') (t_sender_type tx') (t_height tx') h' = Ok out"
    by (auto simp: andthen_eq_Ok)
  with assms(3,4) have "h = h'" by (intro htlc_display_inject) (simp_all add: p')
  with header p' assms(3,4) show ?thesis by simp
qed

section \<open>Memory safety and field bounds\<close>

fun specific_fits :: "type_specific_t \<Rightarrow> bool" where
  "specific_fits (Normal_or_staking_outgoing_tx d) =
     (length (recipient d) < STRING_LENGTH_USER_FRIENDLY_ADDRESS \<and>
      length (extra_data_label d) < max (sizeof ''Data'') (sizeof ''Data Hex'') \<and>
      length (extra_data d) < STRING_LENGTH_NORMAL_TX_DATA_MAX)"
| "specific_fits (Htlc_creation_tx d) = htlc_fits d"
| "specific_fits (Vesting_creation_tx d) = vesting_fits d"
| "specific_fits (Staking_incoming_tx d) = staking_fits d"

definition parsed_tx_fits :: "parsed_tx_t \<Rightarrow> bool" where
  "parsed_tx_fits out =
     (specific_fits (type_specific out) \<and>
      length (tx_value out) < STRING_LENGTH_NIM_AMOUNT_WITH_TICKER \<and>
      length (tx_fee out) < STRING_LENGTH_NIM_AMOUNT_WITH_TICKER \<and>
      length (tx_network out) < sizeof ''Development'')"

lemma delivers_normal:
  assumes "wf_cursor mem c"
    and "\<And>label text b. length label < max (sizeof ''Data'') (sizeof ''Data Hex'') \<Longrightarrow>
      length text < STRING_LENGTH_NORMAL_TX_DATA_MAX \<Longrightarrow> P ((label, text), b)"
  shows "delivers P (parse_normal_tx_data mem c)"
  unfolding parse_normal_eq [OF assms(1)] normal_display_def
  by (auto intro!: assms(2) simp: length_defs CASHLINK_MAGIC_NUMBER_def)

lemma delivers_staking_labels:
  "(\<And>l. P l) \<Longrightarrow> delivers P (staking_outgoing_label t)"
  "(\<And>l. P l) \<Longrightarrow> delivers P (staking_incoming_label t')"
  by (simp_all add: staking_outgoing_label_def staking_incoming_label_def)

lemma delivers_network:
  "(\<And>s. length s < sizeof ''Development'' \<Longrightarrow> P s) \<Longrightarrow> delivers P (parse_network_id version n)"
  by (simp add: parse_network_id_def length_defs)

lemma delivers_is_staking_contract:
  "wf_cursor mem (p, 20) \<Longrightarrow> p \<noteq> None \<Longrightarrow> (\<And>b. P b) \<Longrightarrow> delivers P (is_staking_contract mem p)"
  by (simp add: is_staking_contract_iff)

lemma delivers_type_specific:
  assumes "wf_cursor mem data" "wf_cursor mem (sender, 20)" "sender \<noteq> None" "hash_ok blake2b"
    and "wf_cursor mem (recip, 20)" "recip \<noteq> None" "wf_cursor mem sd"
    and "\<And>s t l. specific_fits s \<Longrightarrow> P (s, t, l)"
  shows "delivers P (parse_tx_type_specific blake2b mem version data sender sender_type recip
      recipient_type v height flags sd)"
  unfolding parse_tx_type_specific_def using assms(1-7)
  by (auto simp: length_defs simp del: wf_cursor.simps view.simps split: if_splits
      intro!: delivers_is_staking_contract delivers_parse_staking_outgoing_data delivers_staking_labels
        delivers_address_at delivers_print_address_fits delivers_normal assms(8)
        delivers_parse_vesting_creation_data delivers_parse_htlc_creation_data
        delivers_parse_staking_incoming_data)

lemma delivers_parse_tx:
  assumes "wf_cursor mem c" "hash_ok blake2b"
    and "\<And>out. parsed_tx_fits out \<Longrightarrow> P out"
  shows "delivers P (parse_tx blake2b mem version c)"
  unfolding parse_tx_def using assms(1,2)
  by (auto simp: parsed_tx_fits_def simp del: wf_cursor.simps(2) view.simps
      intro!: fits_intros delivers_read_serde_vec_u8 delivers_network delivers_type_specific assms(3))

section \<open>Properties\<close>

text \<open>A transfer of 1.5 NIM with the text "hi" from one address to another, on the main network.\<close>

definition example_transfer :: tx_content where
  "example_transfer = \<lparr>t_data = [104, 105], t_sender = replicate 20 7, t_sender_type = 0,
     t_recipient = replicate 20 0, t_recipient_type = 0, t_value = 150000, t_fee = 0, t_height = 1000,
     t_network = 24, t_flags = 0, t_sender_data = []\<rparr>"

definition example_htlc :: htlc_data where
  "example_htlc = \<lparr>h_refund = replicate 20 1, h_redeem = replicate 20 2,
     h_algorithm = HASH_ALGORITHM_SHA256, h_root = replicate 32 3, h_count = 1, h_timeout = 5000\<rparr>"

definition example_htlc_tx :: tx_content where
  "example_htlc_tx = \<lparr>t_data = htlc_bytes example_htlc, t_sender = replicate 20 1, t_sender_type = 0,
     t_recipient = replicate 20 0, t_recipient_type = 2, t_value = 150000, t_fee = 138, t_height = 1000,
     t_network = 42, t_flags = 1, t_sender_data = []\<rparr>"

definition example_vesting_tx :: tx_content where
  "example_vesting_tx = \<lparr>t_data = replicate 20 1 @ vesting_params_bytes (Vesting_steps 1000 1440 50000),
     t_sender = replicate 20 1, t_sender_type = 0, t_recipient = replicate 20 0, t_recipient_type = 1,
     t_value = 150000, t_fee = 138, t_height = 1000, t_network = 42, t_flags = 1, t_sender_data = []\<rparr>"

definition example_staking_tx :: tx_content where
  "example_staking_tx = \<lparr>t_data = staking_data_bytes (Add_stake (replicate 20 4)),
     t_sender = replicate 20 1, t_sender_type = 0, t_recipient = staking_contract, t_recipient_type = 3,
     t_value = 150000, t_fee = 138, t_height = 1000, t_network = 24, t_flags = 0, t_sender_data = []\<rparr>"

definition example_hash :: "u8 list \<Rightarrow> u8 list option" where
  "example_hash data = Some (replicate 32 5)"

lemma example_ok:
  "hash_ok example_hash" "tx_ok TRANSACTION_VERSION_ALBATROSS example_transfer"
  "carries TRANSACTION_VERSION_ALBATROSS example_transfer Basic_transfer"
  "wf_cursor (tx_bytes TRANSACTION_VERSION_ALBATROSS example_transfer) (Some 0, 69)"
  "view (tx_bytes TRANSACTION_VERSION_ALBATROSS example_transfer) (Some 0, 69) =
    tx_bytes TRANSACTION_VERSION_ALBATROSS example_transfer"
  by (simp_all add: example_hash_def example_transfer_def tx_ok_def tx_bytes_def account_type_defs version_defs)

lemma zero_base32: "base32_string (replicate 20 0) = replicate 32 CHR ''0''"
proof -
  have "be_val (replicate n 0) = 0" for n
    by (induction n) (simp_all add: be_val_def)
  moreover have "quintets k 0 = replicate k 0" for k
    by (induction k) (simp_all add: replicate_append_same)
  ultimately show ?thesis
    by (simp add: base32_string_def base32_digits_def base32_alphabet_def)
qed

lemma zero_check_digits: "check_digits (replicate 32 CHR ''0'') = ''07''"
proof -
  have "iban_digits (replicate n CHR ''0'' @ s) = replicate n CHR ''0'' @ iban_digits s" for n s
    by (induction n) (simp_all add: is_digit_def)
  moreover have "dec_val (replicate n CHR ''0'') = 0" for n
    by (induction n) (simp_all add: dec_val_def)
  ultimately have "iban_remainder (replicate 32 CHR ''0'' @ ''NQ00'') = 91"
    by (simp add: iban_remainder_def dec_val_append)
      (simp add: code_of_def is_digit_def dec_small dec_big digit_char_def dec_val_def)
  then show ?thesis
    by (simp add: check_digits_def dec02_def dec_small digit_char_def char_of_def bit_iff_odd)
qed

lemma zero_address_text: "address_text (replicate 20 0) = ''NQ07 0000 0000 0000 0000 0000 0000 0000 0000''"
  unfolding address_text_def zero_base32 Let_def zero_check_digits by (simp add: eval_nat_numeral)

lemma example_amount: "luna_text 150000 = Ok ''1.5 NIM''"
  by (simp add: luna_text_def amount_string_def dec_small pad5_def strip_def digit_char_def char_of_def bit_iff_odd)

lemma example_text: "normal_display [104, 105] = Ok ((''Data'', ''hi''), False)"
  by (simp add: normal_display_def CASHLINK_MAGIC_NUMBER_def char_of_byte_def char_of_def bit_iff_odd)

lemma example_display:
  "tx_display example_hash TRANSACTION_VERSION_ALBATROSS example_transfer Basic_transfer =
    Ok (Shown_transfer \<lparr>recipient = ''NQ07 0000 0000 0000 0000 0000 0000 0000 0000'',
          extra_data_label = ''Data'', extra_data = ''hi''\<rparr>,
        TRANSACTION_TYPE_NORMAL, TRANSACTION_LABEL_TYPE_REGULAR_TRANSACTION,
        ''1.5 NIM'', ''0 NIM'', ''Main'')"
proof -
  have "luna_text 0 = Ok ''0 NIM''"
    by (simp add: luna_text_def amount_string_def dec_small pad5_def strip_def)
  then show ?thesis
    by (simp add: tx_display_def example_transfer_def example_amount example_text zero_address_text
        network_name_def networks_def version_defs)
qed

text \<open>
  C4: The parser and the display. For every well-formed transaction of a supported kind, of either
  version, running \<open>parse_tx\<close> on its serialization gives exactly the fields and labels, or the
  error, that the abstract display function of the transaction gives: recipient, data, amounts,
  network, contract or staking details.
\<close>

theorem parse_tx_displays_transaction:
  assumes "tx_ok version tx" "carries version tx p" "hash_ok blake2b"
    and "version = TRANSACTION_VERSION_LEGACY \<or> version = TRANSACTION_VERSION_ALBATROSS"
    and "wf_cursor mem c" "view mem c = tx_bytes version tx"
  shows "andthen (parse_tx blake2b mem version c) (\<lambda>out. Ok (observe shown out)) =
    tx_display blake2b version tx p"
  using assms by (rule parse_tx_eq)

theorem parse_tx_displays_transaction_witness:
  "andthen (parse_tx example_hash (tx_bytes TRANSACTION_VERSION_ALBATROSS example_transfer)
      TRANSACTION_VERSION_ALBATROSS (Some 0, 69)) (\<lambda>out. Ok (observe shown out)) =
    Ok (Shown_transfer \<lparr>recipient = ''NQ07 0000 0000 0000 0000 0000 0000 0000 0000'',
          extra_data_label = ''Data'', extra_data = ''hi''\<rparr>,
        TRANSACTION_TYPE_NORMAL, TRANSACTION_LABEL_TYPE_REGULAR_TRANSACTION,
        ''1.5 NIM'', ''0 NIM'', ''Main'')"
  using parse_tx_displays_transaction [OF example_ok(2,3,1) disjI2 [OF refl] example_ok(4,5)]
  by (simp only: example_display)

text \<open>
  C5: Nothing else is accepted. A buffer from which \<open>parse_tx\<close> returns a transaction is, to the
  last byte, the serialization of a well-formed transaction of a supported kind, whose display is
  what was returned; trailing bytes, truncated data, wrong flags or foreign staking contracts are
  all rejected.
\<close>

theorem parse_tx_accepts_only_transactions:
  assumes "parse_tx blake2b mem version c = Ok out" "wf_cursor mem c" "hash_ok blake2b"
  shows "\<exists>tx p. tx_ok version tx \<and> carries version tx p \<and> view mem c = tx_bytes version tx \<and>
    tx_display blake2b version tx p = Ok (observe shown out)"
  using parse_tx_Ok_display [OF assms] by metis

lemma example_accepted:
  obtains out where "parse_tx example_hash (tx_bytes TRANSACTION_VERSION_ALBATROSS example_transfer)
      TRANSACTION_VERSION_ALBATROSS (Some 0, 69) = Ok out" "observe shown out =
    (Shown_transfer \<lparr>recipient = ''NQ07 0000 0000 0000 0000 0000 0000 0000 0000'',
          extra_data_label = ''Data'', extra_data = ''hi''\<rparr>,
        TRANSACTION_TYPE_NORMAL, TRANSACTION_LABEL_TYPE_REGULAR_TRANSACTION,
        ''1.5 NIM'', ''0 NIM'', ''Main'')"
  using parse_tx_eq [OF example_ok(2,3,1) disjI2 [OF refl] example_ok(4,5)]
  by (auto simp: example_display andthen_eq_Ok)

theorem parse_tx_accepts_only_transactions_witness:
  "\<exists>tx p out. tx_ok TRANSACTION_VERSION_ALBATROSS tx \<and> carries TRANSACTION_VERSION_ALBATROSS tx p \<and>
    tx_bytes TRANSACTION_VERSION_ALBATROSS example_transfer = tx_bytes TRANSACTION_VERSION_ALBATROSS tx \<and>
    tx_display example_hash TRANSACTION_VERSION_ALBATROSS tx p = Ok (observe shown out)"
proof (rule example_accepted)
  fix out
  assume "parse_tx example_hash (tx_bytes TRANSACTION_VERSION_ALBATROSS example_transfer)
      TRANSACTION_VERSION_ALBATROSS (Some 0, 69) = Ok out"
  from parse_tx_accepts_only_transactions [OF this example_ok(4,1)] example_ok(5)
  show ?thesis by auto
qed

lemma example_htlc_ok:
  "tx_ok TRANSACTION_VERSION_LEGACY example_htlc_tx"
  "carries TRANSACTION_VERSION_LEGACY example_htlc_tx (Htlc_creation example_htlc)"
  "wf_cursor (tx_bytes TRANSACTION_VERSION_LEGACY example_htlc_tx) (Some 0, 144)"
  "view (tx_bytes TRANSACTION_VERSION_LEGACY example_htlc_tx) (Some 0, 144) =
    tx_bytes TRANSACTION_VERSION_LEGACY example_htlc_tx"
  by (simp_all add: example_htlc_tx_def example_htlc_def tx_ok_def tx_bytes_def htlc_ok_def htlc_bytes_def
      account_type_defs version_defs flag_values hash_algorithm_defs)

lemma example_vesting_ok:
  "tx_ok TRANSACTION_VERSION_LEGACY example_vesting_tx"
  "carries TRANSACTION_VERSION_LEGACY example_vesting_tx
    (Vesting_creation (replicate 20 1) (Vesting_steps 1000 1440 50000))"
  "wf_cursor (tx_bytes TRANSACTION_VERSION_LEGACY example_vesting_tx) (Some 0, 102)"
  "view (tx_bytes TRANSACTION_VERSION_LEGACY example_vesting_tx) (Some 0, 102) =
    tx_bytes TRANSACTION_VERSION_LEGACY example_vesting_tx"
  by (simp_all add: example_vesting_tx_def tx_ok_def tx_bytes_def account_type_defs version_defs flag_values)

lemma example_staking_ok:
  "tx_ok TRANSACTION_VERSION_ALBATROSS example_staking_tx"
  "carries TRANSACTION_VERSION_ALBATROSS example_staking_tx (Staking_call (Add_stake (replicate 20 4)))"
  "wf_cursor (tx_bytes TRANSACTION_VERSION_ALBATROSS example_staking_tx) (Some 0, 88)"
  "view (tx_bytes TRANSACTION_VERSION_ALBATROSS example_staking_tx) (Some 0, 88) =
    tx_bytes TRANSACTION_VERSION_ALBATROSS example_staking_tx"
  by (simp_all add: example_staking_tx_def tx_ok_def tx_bytes_def account_type_defs version_defs flag_values
      staking_contract_def)

lemma example_htlc_accepted:
  obtains out where "parse_tx example_hash (tx_bytes TRANSACTION_VERSION_LEGACY example_htlc_tx)
      TRANSACTION_VERSION_LEGACY (Some 0, 144) = Ok out"
    "transaction_type out = TRANSACTION_TYPE_HTLC_CREATION"
proof -
  have "andthen (parse_tx example_hash (tx_bytes TRANSACTION_VERSION_LEGACY example_htlc_tx)
      TRANSACTION_VERSION_LEGACY (Some 0, 144)) (\<lambda>out. Ok (observe shown out)) =
    tx_display example_hash TRANSACTION_VERSION_LEGACY example_htlc_tx (Htlc_creation example_htlc)"
    by (rule parse_tx_eq [OF example_htlc_ok(1,2) example_ok(1) disjI1 [OF refl] example_htlc_ok(3,4)])
  also have "\<exists>s. \<dots> = Ok s \<and> fst (snd s) = TRANSACTION_TYPE_HTLC_CREATION"
    by (simp add: tx_display_def example_htlc_tx_def example_htlc_def luna_text_def network_name_def networks_def
        version_defs htlc_display_def algorithm_text_def displayed_algorithms_def hash_algorithm_defs account_type_defs)
  finally show thesis
    by (auto simp: andthen_eq_Ok observe_def intro: that)
qed

lemma example_vesting_accepted:
  obtains out where "parse_tx example_hash (tx_bytes TRANSACTION_VERSION_LEGACY example_vesting_tx)
      TRANSACTION_VERSION_LEGACY (Some 0, 102) = Ok out"
    "transaction_type out = TRANSACTION_TYPE_VESTING_CREATION"
proof -
  have "andthen (parse_tx example_hash (tx_bytes TRANSACTION_VERSION_LEGACY example_vesting_tx)
      TRANSACTION_VERSION_LEGACY (Some 0, 102)) (\<lambda>out. Ok (observe shown out)) =
    tx_display example_hash TRANSACTION_VERSION_LEGACY example_vesting_tx
      (Vesting_creation (replicate 20 1) (Vesting_steps 1000 1440 50000))"
    by (rule parse_tx_eq [OF example_vesting_ok(1,2) example_ok(1) disjI1 [OF refl] example_vesting_ok(3,4)])
  also have "\<exists>s. \<dots> = Ok s \<and> fst (snd s) = TRANSACTION_TYPE_VESTING_CREATION"
    by (simp add: tx_display_def example_vesting_tx_def luna_text_def network_name_def networks_def
        version_defs vesting_display_code account_type_defs vesting_schedule_def UINT32_MAX_def Let_def
        print_vesting_schedule_def parse_amount_NIM MAX_SAFE_LUNA_AMOUNT_def)
  finally show thesis
    by (auto simp: andthen_eq_Ok observe_def intro: that)
qed

lemma example_staking_accepted:
  obtains out where "parse_tx example_hash (tx_bytes TRANSACTION_VERSION_ALBATROSS example_staking_tx)
      TRANSACTION_VERSION_ALBATROSS (Some 0, 88) = Ok out"
    "transaction_type out = TRANSACTION_TYPE_STAKING_INCOMING"
proof -
  have "andthen (parse_tx example_hash (tx_bytes TRANSACTION_VERSION_ALBATROSS example_staking_tx)
      TRANSACTION_VERSION_ALBATROSS (Some 0, 88)) (\<lambda>out. Ok (observe shown out)) =
    tx_display example_hash TRANSACTION_VERSION_ALBATROSS example_staking_tx
      (Staking_call (Add_stake (replicate 20 4)))"
    by (rule parse_tx_eq [OF example_staking_ok(1,2) example_ok(1) disjI2 [OF refl] example_staking_ok(3,4)])
  also have "\<exists>s. \<dots> = Ok s \<and> fst (snd s) = TRANSACTION_TYPE_STAKING_INCOMING"
    by (simp add: tx_display_def example_staking_tx_def luna_text_def network_name_def networks_def version_defs)
  finally show thesis
    by (auto simp: andthen_eq_Ok observe_def intro: that)
qed

text \<open>
  C24: Memory safety up to one byte. For any version byte and any buffer contents, \<open>parse_tx\<close>
  dereferences no null pointer, writes no array out of bounds and fails no assertion, and whatever it
  returns fits the character arrays of the parsed transaction, terminators included. It reads no array
  out of bounds either, with one exception: for every address that is printed, \<^verbatim>\<open>iban_check\<close> reads the
  byte behind its digit array. The model takes this one byte to be readable. The last part says that
  it has to: for every address the routine faults if the array ends where it is declared to end; and
  that its content does not matter: with any byte there the result is the one used in \<open>parse_tx\<close>.
\<close>

theorem parse_tx_is_memory_safe:
  assumes "wf_cursor mem c" "hash_ok blake2b"
  shows "(\<forall>f. parse_tx blake2b mem version c \<noteq> Fault f) \<and>
    (\<forall>out. parse_tx blake2b mem version c = Ok out \<longrightarrow> parsed_tx_fits out) \<and>
    (\<forall>addr. length addr = 20 \<longrightarrow>
      iban_check_mem None (base32_string addr) = Fault Out_of_bounds \<and>
      (\<forall>b. iban_check_mem (Some b) (base32_string addr) = iban_check (base32_string addr)))"
  using delivers_parse_tx [OF assms, where P = parsed_tx_fits] one_byte_behind
  by (auto simp: one_byte_behind_def dest: delivers_no_fault deliversD)

theorem parse_tx_is_memory_safe_witness:
  "parse_tx example_hash [0, 200, 1, 2, 3] 7 (Some 1, 4) \<noteq> Fault Out_of_bounds \<and>
   (\<exists>out. parse_tx example_hash (tx_bytes TRANSACTION_VERSION_ALBATROSS example_transfer)
      TRANSACTION_VERSION_ALBATROSS (Some 0, 69) = Ok out \<and> parsed_tx_fits out)"
proof (rule example_accepted, goal_cases)
  case (1 out)
  with parse_tx_is_memory_safe [of "[0, 200, 1, 2, 3]" "(Some 1, 4)", OF _ example_ok(1), of 7]
    parse_tx_is_memory_safe [OF example_ok(4,1), of TRANSACTION_VERSION_ALBATROSS]
  show ?case by auto
qed

end
