(* ===== verification/Review.thy ===== *)
theory Review
  imports Transactions
begin

text \<open>
  The review of a transaction on the screen: the conditions of
  \<^verbatim>\<open>src/src/nimiq_ux_utils_transaction_signing.c\<close>, the flows of \<^verbatim>\<open>src/src/nimiq_ux_bagl.c\<close> and the
  review lists of \<^verbatim>\<open>src/src/nimiq_ux_nbgl.c\<close>. A page is its title and its text. Of a BAGL flow the
  model holds the pages with a text of the transaction, in the order of the flow, without the
  optional pages whose condition is false, as the init functions of these skip them in both
  directions; the type page in front and the buttons behind are the same in every flow.

  Reading a member of a union that was not written last is the fault \<open>Inactive_union_member\<close>. The
  lemmas show that a transaction returned by the parser is reviewed without a fault on BAGL
  devices, while on NBGL devices contract creations end the app; and that the pages shown for a
  transfer determine it.
\<close>

section \<open>The active member of the union\<close>

fun normal_or_staking_outgoing_tx ::
    "type_specific_t \<Rightarrow> ('e, tx_data_normal_or_staking_outgoing_t) result" where
  "normal_or_staking_outgoing_tx (Normal_or_staking_outgoing_tx d) = Ok d"
| "normal_or_staking_outgoing_tx _ = Fault Inactive_union_member"

fun htlc_creation_tx :: "type_specific_t \<Rightarrow> ('e, tx_data_htlc_creation_t) result" where
  "htlc_creation_tx (Htlc_creation_tx d) = Ok d"
| "htlc_creation_tx _ = Fault Inactive_union_member"

fun vesting_creation_tx :: "type_specific_t \<Rightarrow> ('e, tx_data_vesting_creation_t) result" where
  "vesting_creation_tx (Vesting_creation_tx d) = Ok d"
| "vesting_creation_tx _ = Fault Inactive_union_member"

fun staking_incoming_tx :: "type_specific_t \<Rightarrow> ('e, tx_data_staking_incoming_t) result" where
  "staking_incoming_tx (Staking_incoming_tx d) = Ok d"
| "staking_incoming_tx _ = Fault Inactive_union_member"

fun delegation_of :: "staking_specific_t \<Rightarrow> ('e, string) result" where
  "delegation_of (Create_staker_or_update_staker delegation _) = Ok delegation"
| "delegation_of _ = Fault Inactive_union_member"

text \<open>The member is zeroed before parsing and only written for \<^verbatim>\<open>UPDATE_STAKER\<close>.\<close>

fun reactivate_all_stake_of :: "staking_specific_t \<Rightarrow> ('e, string) result" where
  "reactivate_all_stake_of (Create_staker_or_update_staker _ reactivate) =
     Ok (case reactivate of Some s \<Rightarrow> s | None \<Rightarrow> '''')"
| "reactivate_all_stake_of _ = Fault Inactive_union_member"

fun stake_amount_of :: "staking_specific_t \<Rightarrow> ('e, string) result" where
  "stake_amount_of (Set_active_stake_or_retire_stake amount) = Ok amount"
| "stake_amount_of _ = Fault Inactive_union_member"

section \<open>Which entries are shown\<close>

definition ux_transaction_generic_has_amount_entry :: "parsed_tx_t \<Rightarrow> bool" where
  "ux_transaction_generic_has_amount_entry p = (tx_value p \<noteq> ''0 NIM'')"

definition ux_transaction_generic_has_fee_entry :: "parsed_tx_t \<Rightarrow> bool" where
  "ux_transaction_generic_has_fee_entry p = (tx_fee p \<noteq> ''0 NIM'')"

definition ux_transaction_normal_or_staking_outgoing_has_data_entry ::
    "tx_data_normal_or_staking_outgoing_t \<Rightarrow> bool" where
  "ux_transaction_normal_or_staking_outgoing_has_data_entry d = (length (extra_data d) \<noteq> 0)"

definition ux_transaction_htlc_creation_has_refund_address_entry :: "tx_data_htlc_creation_t \<Rightarrow> bool" where
  "ux_transaction_htlc_creation_has_refund_address_entry d = (\<not> is_refund_address_sender_address d)"

definition ux_transaction_htlc_creation_has_hash_algorithm_entry :: "tx_data_htlc_creation_t \<Rightarrow> bool" where
  "ux_transaction_htlc_creation_has_hash_algorithm_entry d =
     (\<not> is_refund_address_sender_address d \<or> \<not> is_timing_out_soon d \<or> \<not> is_using_sha256 d)"

definition ux_transaction_htlc_creation_has_hash_count_entry :: "tx_data_htlc_creation_t \<Rightarrow> bool" where
  "ux_transaction_htlc_creation_has_hash_count_entry d =
     (hash_count d \<noteq> ''1'' \<and> (\<not> is_refund_address_sender_address d \<or> \<not> is_timing_out_soon d))"

definition ux_transaction_htlc_creation_has_timeout_entry :: "tx_data_htlc_creation_t \<Rightarrow> bool" where
  "ux_transaction_htlc_creation_has_timeout_entry d =
     (\<not> is_refund_address_sender_address d \<or> \<not> is_timing_out_soon d)"

definition ux_transaction_vesting_creation_has_owner_address_entry :: "tx_data_vesting_creation_t \<Rightarrow> bool" where
  "ux_transaction_vesting_creation_has_owner_address_entry d = (\<not> is_owner_address_sender_address d)"

definition ux_transaction_vesting_creation_has_single_vesting_block_entry ::
    "tx_data_vesting_creation_t \<Rightarrow> bool" where
  "ux_transaction_vesting_creation_has_single_vesting_block_entry d = (\<not> is_multi_step d)"

definition ux_transaction_vesting_creation_has_start_and_period_and_step_count_and_step_duration_entries ::
    "tx_data_vesting_creation_t \<Rightarrow> bool" where
  "ux_transaction_vesting_creation_has_start_and_period_and_step_count_and_step_duration_entries d =
     is_multi_step d"

definition ux_transaction_vesting_creation_has_first_step_duration_entry ::
    "tx_data_vesting_creation_t \<Rightarrow> bool" where
  "ux_transaction_vesting_creation_has_first_step_duration_entry d =
     (is_multi_step d \<and> first_step_block_count d \<noteq> step_block_count d)"

definition ux_transaction_vesting_creation_has_step_amount_entry :: "tx_data_vesting_creation_t \<Rightarrow> bool" where
  "ux_transaction_vesting_creation_has_step_amount_entry d =
     (is_multi_step d \<and>
      \<not> (step_count d = ''2'' \<and> first_step_amount d \<noteq> step_amount d \<and> last_step_amount d \<noteq> step_amount d))"

definition ux_transaction_vesting_creation_has_first_step_amount_entry ::
    "tx_data_vesting_creation_t \<Rightarrow> bool" where
  "ux_transaction_vesting_creation_has_first_step_amount_entry d =
     (is_multi_step d \<and> first_step_amount d \<noteq> step_amount d)"

definition ux_transaction_vesting_creation_has_last_step_amount_entry ::
    "tx_data_vesting_creation_t \<Rightarrow> bool" where
  "ux_transaction_vesting_creation_has_last_step_amount_entry d =
     (is_multi_step d \<and> last_step_amount d \<noteq> step_amount d)"

definition ux_transaction_vesting_creation_has_pre_vested_amount_entry ::
    "tx_data_vesting_creation_t \<Rightarrow> bool" where
  "ux_transaction_vesting_creation_has_pre_vested_amount_entry d = (pre_vested_amount d \<noteq> ''0 NIM'')"

definition ux_transaction_staking_incoming_has_set_active_stake_or_retire_stake_amount_entry ::
    "tx_data_staking_incoming_t \<Rightarrow> bool" where
  "ux_transaction_staking_incoming_has_set_active_stake_or_retire_stake_amount_entry d =
     (staking_type d = SET_ACTIVE_STAKE \<or> staking_type d = RETIRE_STAKE)"

definition ux_transaction_staking_incoming_has_staker_address_entry :: "tx_data_staking_incoming_t \<Rightarrow> bool" where
  "ux_transaction_staking_incoming_has_staker_address_entry d =
     ((staking_type d = CREATE_STAKER \<or> staking_type d = ADD_STAKE \<or> staking_type d = UPDATE_STAKER \<or>
       staking_type d = SET_ACTIVE_STAKE \<or> staking_type d = RETIRE_STAKE) \<and>
      length (validator_or_staker_address d) \<noteq> 0)"

definition ux_transaction_staking_incoming_has_create_staker_or_update_staker_delegation_entry ::
    "tx_data_staking_incoming_t \<Rightarrow> ('e, bool) result" where
  "ux_transaction_staking_incoming_has_create_staker_or_update_staker_delegation_entry d =
     (if staking_type d = CREATE_STAKER \<or> staking_type d = UPDATE_STAKER then
        andthen (delegation_of (staking_specific d)) (\<lambda>delegation. Ok (length delegation \<noteq> 0))
      else Ok False)"

definition ux_transaction_staking_incoming_has_update_staker_reactivate_all_stake_entry ::
    "tx_data_staking_incoming_t \<Rightarrow> bool" where
  "ux_transaction_staking_incoming_has_update_staker_reactivate_all_stake_entry d =
     (staking_type d = UPDATE_STAKER)"

section \<open>Pages\<close>

type_synonym page = "string \<times> string"

text \<open>
  A page of a flow: its condition, and its title with the text it points to. The text is read only
  when the page is shown.
\<close>

definition optional_page :: "bool \<Rightarrow> string \<Rightarrow> ('e, string) result \<Rightarrow> ('e, page list) result" where
  "optional_page condition item content =
     (if condition then andthen content (\<lambda>text. Ok [(item, text)]) else Ok [])"

fun pages :: "('e, page list) result list \<Rightarrow> ('e, page list) result" where
  "pages [] = Ok []"
| "pages (p # ps) = andthen p (\<lambda>xs. andthen (pages ps) (\<lambda>ys. Ok (xs @ ys)))"

section \<open>BAGL: steps and flows\<close>

definition ux_transaction_generic_flow_amount_step :: "parsed_tx_t \<Rightarrow> ('e, page list) result" where
  "ux_transaction_generic_flow_amount_step p =
     optional_page (ux_transaction_generic_has_amount_entry p) ''Amount'' (Ok (tx_value p))"

definition ux_transaction_generic_flow_fee_step :: "parsed_tx_t \<Rightarrow> ('e, page list) result" where
  "ux_transaction_generic_flow_fee_step p =
     optional_page (ux_transaction_generic_has_fee_entry p) ''Fee'' (Ok (tx_fee p))"

definition ux_transaction_generic_flow_network_step :: "parsed_tx_t \<Rightarrow> ('e, page list) result" where
  "ux_transaction_generic_flow_network_step p =
     optional_page True ''Network'' (Ok (tx_network p))"

definition ux_transaction_normal_or_staking_outgoing_flow_recipient_step :: "tx_data_normal_or_staking_outgoing_t \<Rightarrow> ('e, page list) result" where
  "ux_transaction_normal_or_staking_outgoing_flow_recipient_step d =
     optional_page True ''Recipient'' (Ok (recipient d))"

definition ux_transaction_normal_or_staking_outgoing_flow_data_step :: "tx_data_normal_or_staking_outgoing_t \<Rightarrow> ('e, page list) result" where
  "ux_transaction_normal_or_staking_outgoing_flow_data_step d =
     optional_page (ux_transaction_normal_or_staking_outgoing_has_data_entry d) (extra_data_label d)
       (Ok (extra_data d))"

definition normal_or_staking_outgoing_steps :: "parsed_tx_t \<Rightarrow> tx_data_normal_or_staking_outgoing_t \<Rightarrow> ('e, page list) result list" where
  "normal_or_staking_outgoing_steps p d =
       [ux_transaction_generic_flow_amount_step p,
        ux_transaction_normal_or_staking_outgoing_flow_recipient_step d,
        ux_transaction_normal_or_staking_outgoing_flow_data_step d,
        ux_transaction_generic_flow_fee_step p,
        ux_transaction_generic_flow_network_step p]"

definition ux_transaction_normal_or_staking_outgoing_flow :: "parsed_tx_t \<Rightarrow> ('e, page list) result" where
  "ux_transaction_normal_or_staking_outgoing_flow p =
     andthen (normal_or_staking_outgoing_tx (type_specific p)) (\<lambda>d.
     pages (normal_or_staking_outgoing_steps p d))"

definition ux_htlc_creation_flow_redeem_address_step :: "tx_data_htlc_creation_t \<Rightarrow> ('e, page list) result" where
  "ux_htlc_creation_flow_redeem_address_step d =
     optional_page True ''HTLC Recipient'' (Ok (redeem_address d))"

definition ux_htlc_creation_flow_refund_address_step :: "tx_data_htlc_creation_t \<Rightarrow> ('e, page list) result" where
  "ux_htlc_creation_flow_refund_address_step d =
     optional_page (ux_transaction_htlc_creation_has_refund_address_entry d) ''Refund to'' (Ok (refund_address d))"

definition ux_htlc_creation_flow_hash_root_step :: "tx_data_htlc_creation_t \<Rightarrow> ('e, page list) result" where
  "ux_htlc_creation_flow_hash_root_step d =
     optional_page True ''Hashed Secret'' (Ok (hash_root d))"

definition ux_htlc_creation_flow_hash_algorithm_step :: "tx_data_htlc_creation_t \<Rightarrow> ('e, page list) result" where
  "ux_htlc_creation_flow_hash_algorithm_step d =
     optional_page (ux_transaction_htlc_creation_has_hash_algorithm_entry d) ''Hash Algorithm'' (Ok (hash_algorithm d))"

definition ux_htlc_creation_flow_hash_count_step :: "tx_data_htlc_creation_t \<Rightarrow> ('e, page list) result" where
  "ux_htlc_creation_flow_hash_count_step d =
     optional_page (ux_transaction_htlc_creation_has_hash_count_entry d) ''Hash Steps'' (Ok (hash_count d))"

definition ux_htlc_creation_flow_timeout_step :: "tx_data_htlc_creation_t \<Rightarrow> ('e, page list) result" where
  "ux_htlc_creation_flow_timeout_step d =
     optional_page (ux_transaction_htlc_creation_has_timeout_entry d) ''HTLC Expiry Block'' (Ok (timeout d))"

definition htlc_creation_steps :: "parsed_tx_t \<Rightarrow> tx_data_htlc_creation_t \<Rightarrow> ('e, page list) result list" where
  "htlc_creation_steps p d =
       [ux_transaction_generic_flow_amount_step p,
        ux_htlc_creation_flow_redeem_address_step d,
        ux_htlc_creation_flow_refund_address_step d,
        ux_htlc_creation_flow_hash_root_step d,
        ux_htlc_creation_flow_hash_algorithm_step d,
        ux_htlc_creation_flow_hash_count_step d,
        ux_htlc_creation_flow_timeout_step d,
        ux_transaction_generic_flow_fee_step p,
        ux_transaction_generic_flow_network_step p]"

definition ux_transaction_htlc_creation_flow :: "parsed_tx_t \<Rightarrow> ('e, page list) result" where
  "ux_transaction_htlc_creation_flow p =
     andthen (htlc_creation_tx (type_specific p)) (\<lambda>d.
     pages (htlc_creation_steps p d))"

definition ux_vesting_creation_flow_owner_address_step :: "tx_data_vesting_creation_t \<Rightarrow> ('e, page list) result" where
  "ux_vesting_creation_flow_owner_address_step d =
     optional_page (ux_transaction_vesting_creation_has_owner_address_entry d) ''Vesting Owner'' (Ok (owner_address d))"

definition ux_vesting_creation_flow_single_vesting_block_step :: "tx_data_vesting_creation_t \<Rightarrow> ('e, page list) result" where
  "ux_vesting_creation_flow_single_vesting_block_step d =
     optional_page (ux_transaction_vesting_creation_has_single_vesting_block_entry d) ''Vested at Block'' (Ok (first_step_block d))"

definition ux_vesting_creation_flow_start_block_step :: "tx_data_vesting_creation_t \<Rightarrow> ('e, page list) result" where
  "ux_vesting_creation_flow_start_block_step d =
     optional_page (ux_transaction_vesting_creation_has_start_and_period_and_step_count_and_step_duration_entries d) ''Vesting Start Block'' (Ok (start_block d))"

definition ux_vesting_creation_flow_period_step :: "tx_data_vesting_creation_t \<Rightarrow> ('e, page list) result" where
  "ux_vesting_creation_flow_period_step d =
     optional_page (ux_transaction_vesting_creation_has_start_and_period_and_step_count_and_step_duration_entries d) ''Vesting Period'' (Ok (period d))"

definition ux_vesting_creation_flow_step_count_step :: "tx_data_vesting_creation_t \<Rightarrow> ('e, page list) result" where
  "ux_vesting_creation_flow_step_count_step d =
     optional_page (ux_transaction_vesting_creation_has_start_and_period_and_step_count_and_step_duration_entries d) ''Vesting Steps'' (Ok (step_count d))"

definition ux_vesting_creation_flow_step_block_count_step :: "tx_data_vesting_creation_t \<Rightarrow> ('e, page list) result" where
  "ux_vesting_creation_flow_step_block_count_step d =
     optional_page (ux_transaction_vesting_creation_has_start_and_period_and_step_count_and_step_duration_entries d) ''Blocks Per Step'' (Ok (step_block_count d))"

definition ux_vesting_creation_flow_first_step_block_count_step :: "tx_data_vesting_creation_t \<Rightarrow> ('e, page list) result" where
  "ux_vesting_creation_flow_first_step_block_count_step d =
     optional_page (ux_transaction_vesting_creation_has_first_step_duration_entry d) ''First Step'' (Ok (first_step_block_count d))"

definition ux_vesting_creation_flow_step_amount_step :: "tx_data_vesting_creation_t \<Rightarrow> ('e, page list) result" where
  "ux_vesting_creation_flow_step_amount_step d =
     optional_page (ux_transaction_vesting_creation_has_step_amount_entry d) ''Vested per Step'' (Ok (step_amount d))"

definition ux_vesting_creation_flow_first_step_amount_step :: "tx_data_vesting_creation_t \<Rightarrow> ('e, page list) result" where
  "ux_vesting_creation_flow_first_step_amount_step d =
     optional_page (ux_transaction_vesting_creation_has_first_step_amount_entry d) ''First Step'' (Ok (first_step_amount d))"

definition ux_vesting_creation_flow_last_step_amount_step :: "tx_data_vesting_creation_t \<Rightarrow> ('e, page list) result" where
  "ux_vesting_creation_flow_last_step_amount_step d =
     optional_page (ux_transaction_vesting_creation_has_last_step_amount_entry d) ''Last Step'' (Ok (last_step_amount d))"

definition ux_vesting_creation_flow_pre_vested_amount_step :: "tx_data_vesting_creation_t \<Rightarrow> ('e, page list) result" where
  "ux_vesting_creation_flow_pre_vested_amount_step d =
     optional_page (ux_transaction_vesting_creation_has_pre_vested_amount_entry d) ''Pre-Vested'' (Ok (pre_vested_amount d))"

definition vesting_creation_steps :: "parsed_tx_t \<Rightarrow> tx_data_vesting_creation_t \<Rightarrow> ('e, page list) result list" where
  "vesting_creation_steps p d =
       [ux_transaction_generic_flow_amount_step p,
        ux_vesting_creation_flow_owner_address_step d,
        ux_vesting_creation_flow_single_vesting_block_step d,
        ux_vesting_creation_flow_start_block_step d,
        ux_vesting_creation_flow_period_step d,
        ux_vesting_creation_flow_step_count_step d,
        ux_vesting_creation_flow_step_block_count_step d,
        ux_vesting_creation_flow_first_step_block_count_step d,
        ux_vesting_creation_flow_step_amount_step d,
        ux_vesting_creation_flow_first_step_amount_step d,
        ux_vesting_creation_flow_last_step_amount_step d,
        ux_vesting_creation_flow_pre_vested_amount_step d,
        ux_transaction_generic_flow_fee_step p,
        ux_transaction_generic_flow_network_step p]"

definition ux_transaction_vesting_creation_flow :: "parsed_tx_t \<Rightarrow> ('e, page list) result" where
  "ux_transaction_vesting_creation_flow p =
     andthen (vesting_creation_tx (type_specific p)) (\<lambda>d.
     pages (vesting_creation_steps p d))"

definition ux_staking_incoming_flow_set_active_stake_or_retire_stake_amount_step :: "tx_data_staking_incoming_t \<Rightarrow> ('e, page list) result" where
  "ux_staking_incoming_flow_set_active_stake_or_retire_stake_amount_step d =
     optional_page (ux_transaction_staking_incoming_has_set_active_stake_or_retire_stake_amount_entry d) ''Amount'' (stake_amount_of (staking_specific d))"

definition ux_staking_incoming_flow_staker_address_step :: "tx_data_staking_incoming_t \<Rightarrow> ('e, page list) result" where
  "ux_staking_incoming_flow_staker_address_step d =
     optional_page (ux_transaction_staking_incoming_has_staker_address_entry d) ''Staker'' (Ok (validator_or_staker_address d))"

definition ux_staking_incoming_flow_create_staker_or_update_staker_delegation_step ::
    "tx_data_staking_incoming_t \<Rightarrow> ('e, page list) result" where
  "ux_staking_incoming_flow_create_staker_or_update_staker_delegation_step d =
     andthen (ux_transaction_staking_incoming_has_create_staker_or_update_staker_delegation_entry d) (\<lambda>condition.
     optional_page condition ''Delegation'' (delegation_of (staking_specific d)))"

definition ux_staking_incoming_flow_update_staker_reactivate_all_stake_step ::
    "tx_data_staking_incoming_t \<Rightarrow> ('e, page list) result" where
  "ux_staking_incoming_flow_update_staker_reactivate_all_stake_step d =
     optional_page (ux_transaction_staking_incoming_has_update_staker_reactivate_all_stake_entry d)
       ''Reactivate all Stake'' (reactivate_all_stake_of (staking_specific d))"

definition staking_incoming_steps :: "parsed_tx_t \<Rightarrow> tx_data_staking_incoming_t \<Rightarrow> ('e, page list) result list" where
  "staking_incoming_steps p d =
       [ux_transaction_generic_flow_amount_step p,
        ux_staking_incoming_flow_set_active_stake_or_retire_stake_amount_step d,
        ux_staking_incoming_flow_staker_address_step d,
        ux_staking_incoming_flow_create_staker_or_update_staker_delegation_step d,
        ux_staking_incoming_flow_update_staker_reactivate_all_stake_step d,
        ux_transaction_generic_flow_fee_step p,
        ux_transaction_generic_flow_network_step p]"

definition ux_transaction_staking_incoming_flow :: "parsed_tx_t \<Rightarrow> ('e, page list) result" where
  "ux_transaction_staking_incoming_flow p =
     andthen (staking_incoming_tx (type_specific p)) (\<lambda>d.
     pages (staking_incoming_steps p d))"

text \<open>What follows \<^verbatim>\<open>Confirm\<close> on the first page, \<^verbatim>\<open>PARSED_TX.transaction_label\<close>.\<close>

fun bagl_transaction_label :: "transaction_label_type_t \<Rightarrow> string" where
  "bagl_transaction_label TRANSACTION_LABEL_TYPE_REGULAR_TRANSACTION = ''Transaction''"
| "bagl_transaction_label TRANSACTION_LABEL_TYPE_CASHLINK = ''Cashlink''"
| "bagl_transaction_label TRANSACTION_LABEL_TYPE_VESTING_CREATION = ''Vesting''"
| "bagl_transaction_label TRANSACTION_LABEL_TYPE_HTLC_CREATION = ''HTLC / Swap''"
| "bagl_transaction_label TRANSACTION_LABEL_TYPE_STAKING_CREATE_STAKER = ''Create Staker''"
| "bagl_transaction_label TRANSACTION_LABEL_TYPE_STAKING_ADD_STAKE = ''Add Stake''"
| "bagl_transaction_label TRANSACTION_LABEL_TYPE_STAKING_UPDATE_STAKER = ''Update Staker''"
| "bagl_transaction_label TRANSACTION_LABEL_TYPE_STAKING_SET_ACTIVE_STAKE = ''Set Active Stake''"
| "bagl_transaction_label TRANSACTION_LABEL_TYPE_STAKING_RETIRE_STAKE = ''Retire Stake''"
| "bagl_transaction_label TRANSACTION_LABEL_TYPE_STAKING_REMOVE_STAKE = ''Unstake''"

fun bagl_transaction_flow :: "parsed_tx_t \<Rightarrow> transaction_type_t \<Rightarrow> ('e, page list) result" where
  "bagl_transaction_flow p TRANSACTION_TYPE_NORMAL = ux_transaction_normal_or_staking_outgoing_flow p"
| "bagl_transaction_flow p TRANSACTION_TYPE_STAKING_OUTGOING = ux_transaction_normal_or_staking_outgoing_flow p"
| "bagl_transaction_flow p TRANSACTION_TYPE_VESTING_CREATION = ux_transaction_vesting_creation_flow p"
| "bagl_transaction_flow p TRANSACTION_TYPE_HTLC_CREATION = ux_transaction_htlc_creation_flow p"
| "bagl_transaction_flow p TRANSACTION_TYPE_STAKING_INCOMING = ux_transaction_staking_incoming_flow p"

definition bagl_ui_transaction_signing :: "parsed_tx_t \<Rightarrow> ('e, string \<times> page list) result" where
  "bagl_ui_transaction_signing p =
     andthen (bagl_transaction_flow p (transaction_type p)) (\<lambda>flow.
     Ok (bagl_transaction_label (transaction_label_type p), flow))"

section \<open>NBGL: review lists\<close>

definition REVIEW_ENTRIES_MAX_COUNT :: nat where
  "REVIEW_ENTRIES_MAX_COUNT = 12"

definition review_entries_initialize :: "page list" where
  "review_entries_initialize = []"

definition review_entries_add :: "string \<Rightarrow> ('e, string) result \<Rightarrow> page list \<Rightarrow> ('e, page list) result" where
  "review_entries_add item content entries =
     andthen (ledger_assert (length entries < REVIEW_ENTRIES_MAX_COUNT)) (\<lambda>_.
     andthen content (\<lambda>text. Ok (entries @ [(item, text)])))"

definition review_entries_add_optional ::
    "string \<Rightarrow> ('e, string) result \<Rightarrow> bool \<Rightarrow> page list \<Rightarrow> ('e, page list) result" where
  "review_entries_add_optional item content condition entries =
     (if \<not> condition then Ok entries else review_entries_add item content entries)"

definition ui_transaction_prepare_review_entries_normal_or_staking_outgoing ::
    "parsed_tx_t \<Rightarrow> ('e, page list) result" where
  "ui_transaction_prepare_review_entries_normal_or_staking_outgoing p =
     andthen (normal_or_staking_outgoing_tx (type_specific p)) (\<lambda>d.
     andthen (review_entries_add_optional ''Amount'' (Ok (tx_value p))
       (ux_transaction_generic_has_amount_entry p) review_entries_initialize) (\<lambda>es.
     andthen (review_entries_add ''Recipient'' (Ok (recipient d)) es) (\<lambda>es.
     andthen (review_entries_add_optional (extra_data_label d) (Ok (extra_data d))
       (ux_transaction_normal_or_staking_outgoing_has_data_entry d) es) (\<lambda>es.
     andthen (review_entries_add_optional ''Fee'' (Ok (tx_fee p))
       (ux_transaction_generic_has_fee_entry p) es) (\<lambda>es.
     review_entries_add ''Network'' (Ok (tx_network p)) es)))))"

definition ui_transaction_prepare_review_entries_staking_incoming ::
    "parsed_tx_t \<Rightarrow> ('e, page list) result" where
  "ui_transaction_prepare_review_entries_staking_incoming p =
     andthen (staking_incoming_tx (type_specific p)) (\<lambda>d.
     andthen (review_entries_add_optional ''Amount'' (Ok (tx_value p))
       (ux_transaction_generic_has_amount_entry p) review_entries_initialize) (\<lambda>es.
     andthen (review_entries_add_optional ''Amount'' (stake_amount_of (staking_specific d))
       (ux_transaction_staking_incoming_has_set_active_stake_or_retire_stake_amount_entry d) es) (\<lambda>es.
     andthen (review_entries_add_optional ''Staker'' (Ok (validator_or_staker_address d))
       (ux_transaction_staking_incoming_has_staker_address_entry d) es) (\<lambda>es.
     andthen (ux_transaction_staking_incoming_has_create_staker_or_update_staker_delegation_entry d)
       (\<lambda>has_delegation.
     andthen (review_entries_add_optional ''Delegation'' (delegation_of (staking_specific d))
       has_delegation es) (\<lambda>es.
     andthen (review_entries_add_optional ''Reactivate all Stake'' (reactivate_all_stake_of (staking_specific d))
       (ux_transaction_staking_incoming_has_update_staker_reactivate_all_stake_entry d) es) (\<lambda>es.
     andthen (review_entries_add_optional ''Fee'' (Ok (tx_fee p))
       (ux_transaction_generic_has_fee_entry p) es) (\<lambda>es.
     review_entries_add ''Network'' (Ok (tx_network p)) es))))))))"

text \<open>The review title, the finish title and the subtitle; a line break in a title is \<open>NL\<close>.\<close>

abbreviation NL :: char where "NL \<equiv> CHR 0x0A"

fun nbgl_titles :: "transaction_label_type_t \<Rightarrow> string \<times> string \<times> string option" where
  "nbgl_titles TRANSACTION_LABEL_TYPE_REGULAR_TRANSACTION =
     (''Review transaction'' @ NL # ''to send NIM'', ''Sign transaction'' @ NL # ''to send NIM'', None)"
| "nbgl_titles TRANSACTION_LABEL_TYPE_CASHLINK =
     (''Review'' @ NL # ''Cashlink creation'', ''Sign'' @ NL # ''Cashlink creation'', None)"
| "nbgl_titles TRANSACTION_LABEL_TYPE_VESTING_CREATION =
     (''Review'' @ NL # ''Vesting Contract creation'', ''Sign'' @ NL # ''Vesting Contract creation'', None)"
| "nbgl_titles TRANSACTION_LABEL_TYPE_HTLC_CREATION =
     (''Review'' @ NL # ''HTLC creation / Swap'', ''Sign'' @ NL # ''HTLC creation / Swap'', None)"
| "nbgl_titles TRANSACTION_LABEL_TYPE_STAKING_CREATE_STAKER =
     (''Review staking setup'' @ NL # ''to start staking'', ''Sign staking setup'' @ NL # ''to start staking'', None)"
| "nbgl_titles TRANSACTION_LABEL_TYPE_STAKING_ADD_STAKE =
     (''Review'' @ NL # ''addition of stake'', ''Sign'' @ NL # ''addition of stake'', Some ''This transaction increases your amount of NIM assigned for staking.'')"
| "nbgl_titles TRANSACTION_LABEL_TYPE_STAKING_UPDATE_STAKER =
     (''Review update'' @ NL # ''of staking setup'', ''Sign update'' @ NL # ''of staking setup'', Some ''This transaction updates your current staking setup with the following changes.'')"
| "nbgl_titles TRANSACTION_LABEL_TYPE_STAKING_SET_ACTIVE_STAKE =
     (''Review setting'' @ NL # ''active stake amount'', ''Sign setting'' @ NL # ''active stake amount'', Some (''This transaction sets the NIM amount that will be actively used for staking. Set it to 0, if you want to change the validator you'' @ CHR 0x27 # ''re delegating to.''))"
| "nbgl_titles TRANSACTION_LABEL_TYPE_STAKING_RETIRE_STAKE =
     (''Review retiring'' @ NL # ''staked NIM'', ''Sign retiring'' @ NL # ''staked NIM'', Some ''This transaction will disable the given amount of NIM from staking. This needs to be done first, if you want to later withdraw them.'')"
| "nbgl_titles TRANSACTION_LABEL_TYPE_STAKING_REMOVE_STAKE =
     (''Review withrawal'' @ NL # ''of previously staked NIM'', ''Sign withdrawal'' @ NL # ''of previously staked NIM'', None)"

fun nbgl_review_entries :: "parsed_tx_t \<Rightarrow> transaction_type_t \<Rightarrow> ('e, page list) result" where
  "nbgl_review_entries p TRANSACTION_TYPE_NORMAL =
     ui_transaction_prepare_review_entries_normal_or_staking_outgoing p"
| "nbgl_review_entries p TRANSACTION_TYPE_STAKING_OUTGOING =
     ui_transaction_prepare_review_entries_normal_or_staking_outgoing p"
| "nbgl_review_entries p TRANSACTION_TYPE_STAKING_INCOMING =
     ui_transaction_prepare_review_entries_staking_incoming p"
| "nbgl_review_entries p _ = andthen (ledger_assert False) (\<lambda>_. Ok [])"

definition nbgl_ui_transaction_signing ::
    "parsed_tx_t \<Rightarrow> ('e, (string \<times> string \<times> string option) \<times> page list) result" where
  "nbgl_ui_transaction_signing p =
     andthen (nbgl_review_entries p (transaction_type p)) (\<lambda>entries.
     Ok (nbgl_titles (transaction_label_type p), entries))"

section \<open>The review screen of either device type\<close>

datatype device = BAGL | NBGL

datatype screen =
    Bagl_flow string "page list"
  | Nbgl_review "string \<times> string \<times> string option" "page list"

fun ui_transaction_signing :: "device \<Rightarrow> parsed_tx_t \<Rightarrow> ('e, screen) result" where
  "ui_transaction_signing BAGL p =
     andthen (bagl_ui_transaction_signing p) (\<lambda>(label, flow). Ok (Bagl_flow label flow))"
| "ui_transaction_signing NBGL p =
     andthen (nbgl_ui_transaction_signing p) (\<lambda>(titles, entries). Ok (Nbgl_review titles entries))"

fun screen_pages :: "screen \<Rightarrow> page list" where
  "screen_pages (Bagl_flow _ ps) = ps"
| "screen_pages (Nbgl_review _ ps) = ps"

section \<open>Transactions as the parser returns them\<close>

text \<open>The union members that the parser wrote are the ones its types announce.\<close>

fun staking_member_ok :: "tx_data_staking_incoming_t \<Rightarrow> bool" where
  "staking_member_ok d =
     (case staking_specific d of
        No_staking_specific \<Rightarrow> staking_type d = ADD_STAKE
      | Create_staker_or_update_staker _ _ \<Rightarrow> staking_type d = CREATE_STAKER \<or> staking_type d = UPDATE_STAKER
      | Set_active_stake_or_retire_stake _ \<Rightarrow> staking_type d = SET_ACTIVE_STAKE \<or> staking_type d = RETIRE_STAKE)"

definition members_ok :: "parsed_tx_t \<Rightarrow> bool" where
  "members_ok p =
     (case type_specific p of
        Normal_or_staking_outgoing_tx _ \<Rightarrow>
          transaction_type p = TRANSACTION_TYPE_NORMAL \<or> transaction_type p = TRANSACTION_TYPE_STAKING_OUTGOING
      | Htlc_creation_tx _ \<Rightarrow> transaction_type p = TRANSACTION_TYPE_HTLC_CREATION
      | Vesting_creation_tx _ \<Rightarrow> transaction_type p = TRANSACTION_TYPE_VESTING_CREATION
      | Staking_incoming_tx d \<Rightarrow> transaction_type p = TRANSACTION_TYPE_STAKING_INCOMING \<and> staking_member_ok d)"

lemma staking_display_members:
  assumes "staking_display blake2b sender d = Ok (t, specific, address)"
  shows "(case specific of No_staking_specific \<Rightarrow> t = ADD_STAKE
      | Create_staker_or_update_staker _ _ \<Rightarrow> t = CREATE_STAKER \<or> t = UPDATE_STAKER
      | Set_active_stake_or_retire_stake _ \<Rightarrow> t = SET_ACTIVE_STAKE \<or> t = RETIRE_STAKE)"
  using assms by (cases d) (auto simp: andthen_eq_Ok)

lemma display_members:
  assumes "tx_display blake2b version tx p = Ok (observe shown out)"
  shows "members_ok out"
  using assms
  by (cases p; cases "type_specific out")
    (auto simp: tx_display_def observe_def members_ok_def andthen_eq_Ok case_prod_unfold
      dest!: staking_display_members split: prod.splits)

lemma parse_tx_members:
  assumes "parse_tx blake2b mem version c = Ok out" "wf_cursor mem c" "hash_ok blake2b"
  shows "members_ok out"
  by (rule parse_tx_Ok_display [OF assms]) (rule display_members)

section \<open>Reviews without faults\<close>

lemma optional_page_Ok [simp]:
  "optional_page b item (Ok text) = Ok (if b then [(item, text)] else [])"
  by (simp add: optional_page_def)

named_theorems flow_steps \<open>the steps of the BAGL flows\<close>

lemmas [flow_steps] =
  normal_or_staking_outgoing_steps_def htlc_creation_steps_def vesting_creation_steps_def staking_incoming_steps_def
  ux_transaction_generic_flow_amount_step_def ux_transaction_generic_flow_fee_step_def
  ux_transaction_generic_flow_network_step_def
  ux_transaction_normal_or_staking_outgoing_flow_recipient_step_def
  ux_transaction_normal_or_staking_outgoing_flow_data_step_def
  ux_htlc_creation_flow_redeem_address_step_def ux_htlc_creation_flow_refund_address_step_def
  ux_htlc_creation_flow_hash_root_step_def ux_htlc_creation_flow_hash_algorithm_step_def
  ux_htlc_creation_flow_hash_count_step_def ux_htlc_creation_flow_timeout_step_def
  ux_vesting_creation_flow_owner_address_step_def ux_vesting_creation_flow_single_vesting_block_step_def
  ux_vesting_creation_flow_start_block_step_def ux_vesting_creation_flow_period_step_def
  ux_vesting_creation_flow_step_count_step_def ux_vesting_creation_flow_step_block_count_step_def
  ux_vesting_creation_flow_first_step_block_count_step_def ux_vesting_creation_flow_step_amount_step_def
  ux_vesting_creation_flow_first_step_amount_step_def ux_vesting_creation_flow_last_step_amount_step_def
  ux_vesting_creation_flow_pre_vested_amount_step_def
  ux_staking_incoming_flow_set_active_stake_or_retire_stake_amount_step_def
  ux_staking_incoming_flow_staker_address_step_def
  ux_staking_incoming_flow_create_staker_or_update_staker_delegation_step_def
  ux_staking_incoming_flow_update_staker_reactivate_all_stake_step_def

lemma entry_steps:
  "length es < REVIEW_ENTRIES_MAX_COUNT \<Longrightarrow> review_entries_add item (Ok text) es = Ok (es @ [(item, text)])"
  "length es < REVIEW_ENTRIES_MAX_COUNT \<Longrightarrow>
    review_entries_add_optional item (Ok text) b es = Ok (es @ (if b then [(item, text)] else []))"
  by (simp_all add: review_entries_add_def review_entries_add_optional_def)

definition amount_page :: "parsed_tx_t \<Rightarrow> page list" where
  "amount_page p = (if tx_value p \<noteq> ''0 NIM'' then [(''Amount'', tx_value p)] else [])"

definition fee_page :: "parsed_tx_t \<Rightarrow> page list" where
  "fee_page p = (if tx_fee p \<noteq> ''0 NIM'' then [(''Fee'', tx_fee p)] else [])"

definition transfer_pages :: "parsed_tx_t \<Rightarrow> tx_data_normal_or_staking_outgoing_t \<Rightarrow> page list" where
  "transfer_pages p d = amount_page p @ [(''Recipient'', recipient d)] @
     (if extra_data d \<noteq> [] then [(extra_data_label d, extra_data d)] else []) @
     fee_page p @ [(''Network'', tx_network p)]"

lemmas page_defs = amount_page_def fee_page_def ux_transaction_generic_has_amount_entry_def
  ux_transaction_generic_has_fee_entry_def ux_transaction_normal_or_staking_outgoing_has_data_entry_def

lemma transfer_flow:
  assumes "type_specific p = Normal_or_staking_outgoing_tx d"
  shows "ux_transaction_normal_or_staking_outgoing_flow p = Ok (transfer_pages p d)"
    "ui_transaction_prepare_review_entries_normal_or_staking_outgoing p = Ok (transfer_pages p d)"
  by (simp_all add: ux_transaction_normal_or_staking_outgoing_flow_def flow_steps assms transfer_pages_def
      page_defs ui_transaction_prepare_review_entries_normal_or_staking_outgoing_def entry_steps
      review_entries_initialize_def REVIEW_ENTRIES_MAX_COUNT_def)

definition staking_pages :: "parsed_tx_t \<Rightarrow> tx_data_staking_incoming_t \<Rightarrow> page list" where
  "staking_pages p d = amount_page p @
     (case staking_specific d of
        Set_active_stake_or_retire_stake amount \<Rightarrow> [(''Amount'', amount)] | _ \<Rightarrow> []) @
     (if validator_or_staker_address d \<noteq> [] then [(''Staker'', validator_or_staker_address d)] else []) @
     (case staking_specific d of
        Create_staker_or_update_staker delegation reactivate \<Rightarrow>
          (if delegation \<noteq> [] then [(''Delegation'', delegation)] else []) @
          (if staking_type d = UPDATE_STAKER
           then [(''Reactivate all Stake'', case reactivate of Some s \<Rightarrow> s | None \<Rightarrow> '''')] else [])
      | _ \<Rightarrow> []) @
     fee_page p @ [(''Network'', tx_network p)]"

lemmas staking_entry_defs =
  ux_transaction_staking_incoming_has_set_active_stake_or_retire_stake_amount_entry_def
  ux_transaction_staking_incoming_has_staker_address_entry_def
  ux_transaction_staking_incoming_has_create_staker_or_update_staker_delegation_entry_def
  ux_transaction_staking_incoming_has_update_staker_reactivate_all_stake_entry_def

lemma staking_flow:
  assumes "type_specific p = Staking_incoming_tx d" "staking_member_ok d"
  shows "ux_transaction_staking_incoming_flow p = Ok (staking_pages p d)"
    "ui_transaction_prepare_review_entries_staking_incoming p = Ok (staking_pages p d)"
  using assms(2)
  by (cases "staking_specific d"; force simp: ux_transaction_staking_incoming_flow_def flow_steps assms(1)
      staking_pages_def page_defs staking_entry_defs staking_type_defs optional_page_def
      ui_transaction_prepare_review_entries_staking_incoming_def entry_steps
      review_entries_add_optional_def [of _ "Fault _"]
      review_entries_initialize_def REVIEW_ENTRIES_MAX_COUNT_def)+

definition htlc_pages :: "parsed_tx_t \<Rightarrow> tx_data_htlc_creation_t \<Rightarrow> page list" where
  "htlc_pages p d = (let own = is_refund_address_sender_address d; soon = is_timing_out_soon d in
     amount_page p @ [(''HTLC Recipient'', redeem_address d)] @
     (if \<not> own then [(''Refund to'', refund_address d)] else []) @
     [(''Hashed Secret'', hash_root d)] @
     (if \<not> own \<or> \<not> soon \<or> \<not> is_using_sha256 d then [(''Hash Algorithm'', hash_algorithm d)] else []) @
     (if hash_count d \<noteq> ''1'' \<and> (\<not> own \<or> \<not> soon) then [(''Hash Steps'', hash_count d)] else []) @
     (if \<not> own \<or> \<not> soon then [(''HTLC Expiry Block'', timeout d)] else []) @
     fee_page p @ [(''Network'', tx_network p)])"

definition vesting_pages :: "parsed_tx_t \<Rightarrow> tx_data_vesting_creation_t \<Rightarrow> page list" where
  "vesting_pages p d = amount_page p @
     (if \<not> is_owner_address_sender_address d then [(''Vesting Owner'', owner_address d)] else []) @
     (if is_multi_step d then
        [(''Vesting Start Block'', start_block d), (''Vesting Period'', period d),
         (''Vesting Steps'', step_count d), (''Blocks Per Step'', step_block_count d)] @
        (if first_step_block_count d \<noteq> step_block_count d
         then [(''First Step'', first_step_block_count d)] else []) @
        (if step_count d = ''2'' \<and> first_step_amount d \<noteq> step_amount d \<and> last_step_amount d \<noteq> step_amount d
         then [] else [(''Vested per Step'', step_amount d)]) @
        (if first_step_amount d \<noteq> step_amount d then [(''First Step'', first_step_amount d)] else []) @
        (if last_step_amount d \<noteq> step_amount d then [(''Last Step'', last_step_amount d)] else [])
      else [(''Vested at Block'', first_step_block d)]) @
     (if pre_vested_amount d \<noteq> ''0 NIM'' then [(''Pre-Vested'', pre_vested_amount d)] else []) @
     fee_page p @ [(''Network'', tx_network p)]"

lemmas contract_entry_defs =
  ux_transaction_htlc_creation_has_refund_address_entry_def
  ux_transaction_htlc_creation_has_hash_algorithm_entry_def
  ux_transaction_htlc_creation_has_hash_count_entry_def
  ux_transaction_htlc_creation_has_timeout_entry_def
  ux_transaction_vesting_creation_has_owner_address_entry_def
  ux_transaction_vesting_creation_has_single_vesting_block_entry_def
  ux_transaction_vesting_creation_has_start_and_period_and_step_count_and_step_duration_entries_def
  ux_transaction_vesting_creation_has_first_step_duration_entry_def
  ux_transaction_vesting_creation_has_step_amount_entry_def
  ux_transaction_vesting_creation_has_first_step_amount_entry_def
  ux_transaction_vesting_creation_has_last_step_amount_entry_def
  ux_transaction_vesting_creation_has_pre_vested_amount_entry_def

lemma htlc_flow:
  assumes "type_specific p = Htlc_creation_tx d"
  shows "ux_transaction_htlc_creation_flow p = Ok (htlc_pages p d)"
  by (simp add: ux_transaction_htlc_creation_flow_def flow_steps assms htlc_pages_def Let_def
      page_defs contract_entry_defs)

lemma vesting_flow:
  assumes "type_specific p = Vesting_creation_tx d"
  shows "ux_transaction_vesting_creation_flow p = Ok (vesting_pages p d)"
  by (cases "is_multi_step d") (simp_all add: ux_transaction_vesting_creation_flow_def flow_steps assms
      vesting_pages_def page_defs contract_entry_defs)

definition review_pages :: "parsed_tx_t \<Rightarrow> page list" where
  "review_pages p = (case type_specific p of
     Normal_or_staking_outgoing_tx d \<Rightarrow> transfer_pages p d
   | Htlc_creation_tx d \<Rightarrow> htlc_pages p d
   | Vesting_creation_tx d \<Rightarrow> vesting_pages p d
   | Staking_incoming_tx d \<Rightarrow> staking_pages p d)"

lemma bagl_screen:
  assumes "members_ok p"
  shows "ui_transaction_signing BAGL p =
    Ok (Bagl_flow (bagl_transaction_label (transaction_label_type p)) (review_pages p))"
  using assms
  by (cases "type_specific p") (auto simp: members_ok_def bagl_ui_transaction_signing_def
      review_pages_def
      transfer_flow htlc_flow vesting_flow staking_flow simp del: staking_member_ok.simps)

lemma nbgl_screen:
  assumes "members_ok p"
  shows "ui_transaction_signing NBGL p =
    (if transaction_type p = TRANSACTION_TYPE_VESTING_CREATION \<or>
        transaction_type p = TRANSACTION_TYPE_HTLC_CREATION then Fault Assertion_failed
     else Ok (Nbgl_review (nbgl_titles (transaction_label_type p)) (review_pages p)))"
  using assms
  by (cases "type_specific p") (auto simp: members_ok_def nbgl_ui_transaction_signing_def review_pages_def
      transfer_flow staking_flow simp del: staking_member_ok.simps)


section \<open>The pages determine the transaction\<close>

lemma label_inject:
  "bagl_transaction_label a = bagl_transaction_label b \<longleftrightarrow> a = b"
  "nbgl_titles a = nbgl_titles b \<longleftrightarrow> a = b"
  by (cases a; cases b; simp)+

definition data_label_ok :: "tx_data_normal_or_staking_outgoing_t \<Rightarrow> bool" where
  "data_label_ok d = (if extra_data d = [] then extra_data_label d = []
     else extra_data_label d = ''Data'' \<or> extra_data_label d = ''Data Hex'')"

lemma transfer_pages_inject:
  assumes "transfer_pages p d = transfer_pages p' d'" "data_label_ok d" "data_label_ok d'"
  shows "tx_value p = tx_value p' \<and> d = d' \<and> tx_fee p = tx_fee p' \<and> tx_network p = tx_network p'"
proof -
  have "tx_value p = tx_value p' \<and> recipient d = recipient d' \<and> extra_data d = extra_data d' \<and>
      extra_data_label d = extra_data_label d' \<and> tx_fee p = tx_fee p' \<and> tx_network p = tx_network p'"
    using assms by (auto simp: transfer_pages_def amount_page_def fee_page_def data_label_ok_def split: if_splits)
  then show ?thesis by simp
qed

lemma normal_display_label:
  assumes "normal_display data = Ok ((label, text), b)"
  shows "data_label_ok \<lparr>recipient = r, extra_data_label = label, extra_data = text\<rparr>"
proof -
  have "hex_string data = [] \<longleftrightarrow> data = []"
    using length_hex_string [of data] by (metis length_0_conv mult_is_0 zero_neq_numeral)
  then show ?thesis
    using assms by (auto simp: normal_display_def data_label_ok_def split: if_splits)
qed

lemma displayed_data_label:
  assumes "tx_display blake2b version tx p = Ok (observe shown out)"
    and "type_specific out = Normal_or_staking_outgoing_tx d"
  shows "data_label_ok d"
  using assms
  by (cases p) (auto simp: tx_display_def observe_def andthen_eq_Ok case_prod_unfold data_label_ok_def
      dest: normal_display_label split: prod.splits)

text \<open>The label tells the kinds of transactions apart.\<close>

definition label_ok :: "parsed_tx_t \<Rightarrow> bool" where
  "label_ok p = (transaction_type p =
     (case transaction_label_type p of
        TRANSACTION_LABEL_TYPE_REGULAR_TRANSACTION \<Rightarrow> TRANSACTION_TYPE_NORMAL
      | TRANSACTION_LABEL_TYPE_CASHLINK \<Rightarrow> TRANSACTION_TYPE_NORMAL
      | TRANSACTION_LABEL_TYPE_VESTING_CREATION \<Rightarrow> TRANSACTION_TYPE_VESTING_CREATION
      | TRANSACTION_LABEL_TYPE_HTLC_CREATION \<Rightarrow> TRANSACTION_TYPE_HTLC_CREATION
      | TRANSACTION_LABEL_TYPE_STAKING_REMOVE_STAKE \<Rightarrow> TRANSACTION_TYPE_STAKING_OUTGOING
      | _ \<Rightarrow> TRANSACTION_TYPE_STAKING_INCOMING))"

lemma staking_data_label_ok:
  "label_ok p" if "transaction_label_type p = staking_data_label d"
    "transaction_type p = TRANSACTION_TYPE_STAKING_INCOMING"
  using that by (cases d) (simp_all add: label_ok_def)

lemma display_label:
  assumes "tx_display blake2b version tx p = Ok (observe shown out)"
  shows "label_ok out"
  using assms
  by (cases p) (auto simp: tx_display_def observe_def andthen_eq_Ok case_prod_unfold label_ok_def
      dest!: sym [of "staking_data_label _"] split: prod.splits staking_data.splits if_splits
      intro: staking_data_label_ok [unfolded label_ok_def])

text \<open>The screen determines the pages and the kind of the transaction.\<close>

lemma same_screen:
  assumes "members_ok p" "label_ok p" "members_ok p'" "label_ok p'"
    and "ui_transaction_signing dev p = Ok s" "ui_transaction_signing dev p' = Ok s"
  shows "review_pages p = review_pages p'" "transaction_label_type p = transaction_label_type p'"
    "transaction_type p = transaction_type p'"
proof -
  have "review_pages p = review_pages p' \<and> transaction_label_type p = transaction_label_type p'"
    using assms(5,6)
    by (cases dev) (auto simp: label_inject bagl_screen nbgl_screen assms(1,3)
        simp del: ui_transaction_signing.simps split: if_splits)
  with assms(2,4) show "review_pages p = review_pages p'"
    "transaction_label_type p = transaction_label_type p'" "transaction_type p = transaction_type p'"
    by (simp_all add: label_ok_def)
qed

lemma screen_determines_transfer:
  assumes "tx_display blake2b version tx q = Ok (observe shown p)"
    and "tx_display blake2b version' tx' q' = Ok (observe shown p')"
    and "ui_transaction_signing dev p = Ok s" "ui_transaction_signing dev p' = Ok s"
    and "transaction_type p = TRANSACTION_TYPE_NORMAL"
  shows "observe shown p = observe shown p'"
proof -
  note m = display_members [OF assms(1)] display_label [OF assms(1)]
    display_members [OF assms(2)] display_label [OF assms(2)]
  note same = same_screen [OF m assms(3,4)]
  obtain d d' where d: "type_specific p = Normal_or_staking_outgoing_tx d"
    "type_specific p' = Normal_or_staking_outgoing_tx d'"
    using m(1,3) same(3) assms(5) by (auto simp: members_ok_def split: type_specific_t.splits)
  have "transfer_pages p d = transfer_pages p' d'"
    using same(1) by (simp add: review_pages_def d)
  from transfer_pages_inject [OF this displayed_data_label [OF assms(1) d(1)] displayed_data_label [OF assms(2) d(2)]]
  show ?thesis using same(2,3) by (simp add: observe_def d)
qed

lemma shown_header:
  assumes "tx_display blake2b version tx p = Ok (observe shown out)"
    and "tx_display blake2b version tx' p' = Ok (observe shown out')"
    and "tx_value out = tx_value out'" "tx_fee out = tx_fee out'" "tx_network out = tx_network out'"
  shows "t_value tx = t_value tx' \<and> t_fee tx = t_fee tx' \<and> t_network tx = t_network tx'"
  using assms by (auto simp: tx_display_def observe_def andthen_eq_Ok case_prod_unfold
      dest: luna_text_inject network_name_inject)

section \<open>HTLC creation: what is hidden\<close>

lemma htlc_lookup:
  "map_of (htlc_pages p d) ''HTLC Recipient'' = Some (redeem_address d)"
  "map_of (htlc_pages p d) ''Hashed Secret'' = Some (hash_root d)"
  "map_of (htlc_pages p d) ''Refund to'' =
    (if is_refund_address_sender_address d then None else Some (refund_address d))"
  "map_of (htlc_pages p d) ''Hash Algorithm'' =
    (if is_refund_address_sender_address d \<and> is_timing_out_soon d \<and> is_using_sha256 d then None
     else Some (hash_algorithm d))"
  "map_of (htlc_pages p d) ''Hash Steps'' =
    (if hash_count d = ''1'' \<or> (is_refund_address_sender_address d \<and> is_timing_out_soon d) then None
     else Some (hash_count d))"
  "map_of (htlc_pages p d) ''HTLC Expiry Block'' =
    (if is_refund_address_sender_address d \<and> is_timing_out_soon d then None else Some (timeout d))"
  "map_of (htlc_pages p d) ''Amount'' = (if tx_value p \<noteq> ''0 NIM'' then Some (tx_value p) else None)"
  "map_of (htlc_pages p d) ''Fee'' = (if tx_fee p \<noteq> ''0 NIM'' then Some (tx_fee p) else None)"
  "map_of (htlc_pages p d) ''Network'' = Some (tx_network p)"
  by (simp_all add: htlc_pages_def Let_def amount_page_def fee_page_def)

definition hidden_htlc :: "tx_data_htlc_creation_t \<Rightarrow> bool" where
  "hidden_htlc d = (is_refund_address_sender_address d \<and> is_timing_out_soon d)"

lemma htlc_pages_inject:
  assumes "htlc_pages p d = htlc_pages p' d'"
  shows "tx_value p = tx_value p'" "tx_fee p = tx_fee p'" "tx_network p = tx_network p'"
    "redeem_address d = redeem_address d'" "hash_root d = hash_root d'"
    "is_refund_address_sender_address d = is_refund_address_sender_address d'"
    "\<not> is_refund_address_sender_address d \<Longrightarrow> refund_address d = refund_address d'"
    "hidden_htlc d = hidden_htlc d'"
    "hash_algorithm d = hash_algorithm d' \<or> is_using_sha256 d \<and> is_using_sha256 d'"
    "\<not> hidden_htlc d \<Longrightarrow> hash_count d = hash_count d' \<and> timeout d = timeout d'"
proof -
  have lookup: "map_of (htlc_pages p d) t = map_of (htlc_pages p' d') t" for t using assms by simp
  show "tx_value p = tx_value p'" "tx_fee p = tx_fee p'" "tx_network p = tx_network p'"
    "redeem_address d = redeem_address d'" "hash_root d = hash_root d'"
    using lookup [of "''Amount''"] lookup [of "''Fee''"] lookup [of "''Network''"]
      lookup [of "''HTLC Recipient''"] lookup [of "''Hashed Secret''"]
    by (auto simp: htlc_lookup split: if_splits)
  show "refund_address d = refund_address d'" if "\<not> is_refund_address_sender_address d"
    using lookup [of "''Refund to''"] that by (auto simp: htlc_lookup split: if_splits)
  show own: "is_refund_address_sender_address d = is_refund_address_sender_address d'"
    using lookup [of "''Refund to''"] by (auto simp: htlc_lookup split: if_splits)
  show hidden: "hidden_htlc d = hidden_htlc d'"
    using lookup [of "''HTLC Expiry Block''"] by (auto simp: htlc_lookup hidden_htlc_def split: if_splits)
  show "hash_algorithm d = hash_algorithm d' \<or> is_using_sha256 d \<and> is_using_sha256 d'"
    using lookup [of "''Hash Algorithm''"] by (auto simp: htlc_lookup split: if_splits)
  show "hash_count d = hash_count d' \<and> timeout d = timeout d'" if "\<not> hidden_htlc d"
    using lookup [of "''HTLC Expiry Block''"] lookup [of "''Hash Steps''"] that hidden
    by (auto simp: htlc_lookup hidden_htlc_def split: if_splits)
qed

lemma htlc_display_values:
  assumes "htlc_display sender st height h = Ok d"
  shows "algorithm_text (h_algorithm h) = Ok (hash_algorithm d)"
    and "is_refund_address_sender_address d = (h_refund h = sender)"
    and "is_timing_out_soon d = (unat (h_timeout h) < unat height + 89280)"
    and "is_using_sha256 d = (h_algorithm h = HASH_ALGORITHM_SHA256)"
    and "redeem_address d = address_text (h_redeem h)" "refund_address d = address_text (h_refund h)"
    and "hash_root d = hex_string (h_root h)" "hash_count d = dec (unat (h_count h))"
    and "timeout d = dec (unat (h_timeout h))"
  using assms by (auto simp: htlc_display_def andthen_eq_Ok)

text \<open>An HTLC that refunds to the sender and times out within the threshold.\<close>

definition harmless_htlc :: "tx_content \<Rightarrow> htlc_data \<Rightarrow> bool" where
  "harmless_htlc tx h = (h_refund h = t_sender tx \<and> unat (h_timeout h) < unat (t_height tx) + 89280)"

definition same_htlc :: "tx_content \<Rightarrow> htlc_data \<Rightarrow> tx_content \<Rightarrow> htlc_data \<Rightarrow> bool" where
  "same_htlc tx h tx' h' =
     (h_redeem h = h_redeem h' \<and> h_root h = h_root h' \<and> h_algorithm h = h_algorithm h' \<and>
      (h_refund h = h_refund h' \<or> h_refund h = t_sender tx \<and> h_refund h' = t_sender tx') \<and>
      (h_count h = h_count h' \<and> h_timeout h = h_timeout h' \<or> harmless_htlc tx h \<and> harmless_htlc tx' h'))"

lemma htlc_pages_same:
  assumes "htlc_pages p d = htlc_pages p' d'" "htlc_ok h" "htlc_ok h'"
    and "htlc_display (t_sender tx) st (t_height tx) h = Ok d"
    and "htlc_display (t_sender tx') st' (t_height tx') h' = Ok d'"
  shows "same_htlc tx h tx' h'"
proof -
  note inject = htlc_pages_inject [OF assms(1)]
  note v = htlc_display_values [OF assms(4)] and v' = htlc_display_values [OF assms(5)]
  have len: "length (h_redeem h) = 20" "length (h_redeem h') = 20" "length (h_refund h) = 20" "length (h_refund h') = 20"
    using assms(2,3) by (simp_all add: htlc_ok_def)
  have "h_redeem h = h_redeem h'"
    using inject(4) by (simp add: v v' address_text_inject len)
  moreover have "h_root h = h_root h'" using inject(5) by (simp add: v v' hex_string_inject)
  moreover have "h_algorithm h = h_algorithm h'"
    using inject(9) v(1) v'(1) by (auto simp: v(4) v'(4) dest: algorithm_text_inject)
  moreover have "h_refund h = h_refund h' \<or> h_refund h = t_sender tx \<and> h_refund h' = t_sender tx'"
    using inject(6,7) by (auto simp: v v' address_text_inject len)
  moreover have "hidden_htlc d = harmless_htlc tx h" "hidden_htlc d' = harmless_htlc tx' h'"
    by (simp_all add: hidden_htlc_def harmless_htlc_def v v')
  ultimately show ?thesis
    using inject(8,10) by (auto simp: same_htlc_def v(8,9) v'(8,9) dec_inject word_unat_eq_iff)
qed

lemma screen_determines_htlc:
  assumes "tx_display blake2b version tx (Htlc_creation h) = Ok (observe shown p)"
    and "tx_display blake2b version' tx' q' = Ok (observe shown p')"
    and "carries version tx (Htlc_creation h)" "carries version' tx' q'"
    and "ui_transaction_signing dev p = Ok s" "ui_transaction_signing dev p' = Ok s"
  shows "\<exists>h'. q' = Htlc_creation h' \<and> same_htlc tx h tx' h' \<and> tx_value p = tx_value p' \<and>
    tx_fee p = tx_fee p' \<and> tx_network p = tx_network p'"
proof -
  note m = display_members [OF assms(1)] display_label [OF assms(1)]
    display_members [OF assms(2)] display_label [OF assms(2)]
  note same = same_screen [OF m assms(5,6)]
  have t: "transaction_type p = TRANSACTION_TYPE_HTLC_CREATION"
    using assms(1) by (auto simp: tx_display_def observe_def andthen_eq_Ok)
  obtain h' where q': "q' = Htlc_creation h'"
    using assms(2) t same(3) by (cases q') (auto simp: tx_display_def observe_def andthen_eq_Ok case_prod_unfold)
  obtain d d' where d: "htlc_display (t_sender tx) (t_sender_type tx) (t_height tx) h = Ok d"
      "htlc_display (t_sender tx') (t_sender_type tx') (t_height tx') h' = Ok d'"
      "shown (type_specific p) = Shown_htlc d" "shown (type_specific p') = Shown_htlc d'"
    using assms(1,2) q' by (auto simp: tx_display_def observe_def andthen_eq_Ok)
  then have ts: "type_specific p = Htlc_creation_tx d" "type_specific p' = Htlc_creation_tx d'"
    by (cases "type_specific p"; cases "type_specific p'"; simp)+
  then have pages: "htlc_pages p d = htlc_pages p' d'" using same(1) by (simp add: review_pages_def)
  have "same_htlc tx h tx' h'"
    using assms(3,4) q' by (intro htlc_pages_same [OF pages _ _ d(1,2)]) simp_all
  with htlc_pages_inject(1-3) [OF pages] q' show ?thesis by blast
qed

section \<open>Vesting creation: the pages determine the release\<close>

definition texts_of :: "string \<Rightarrow> page list \<Rightarrow> string list" where
  "texts_of item ps = map snd (filter (\<lambda>p. fst p = item) ps)"

lemma vesting_lookup:
  "texts_of ''Amount'' (vesting_pages p d) = (if tx_value p \<noteq> ''0 NIM'' then [tx_value p] else [])"
  "texts_of ''Fee'' (vesting_pages p d) = (if tx_fee p \<noteq> ''0 NIM'' then [tx_fee p] else [])"
  "texts_of ''Network'' (vesting_pages p d) = [tx_network p]"
  "texts_of ''Vesting Owner'' (vesting_pages p d) =
    (if is_owner_address_sender_address d then [] else [owner_address d])"
  "texts_of ''Vested at Block'' (vesting_pages p d) = (if is_multi_step d then [] else [first_step_block d])"
  "texts_of ''Vesting Start Block'' (vesting_pages p d) = (if is_multi_step d then [start_block d] else [])"
  "texts_of ''Vesting Steps'' (vesting_pages p d) = (if is_multi_step d then [step_count d] else [])"
  "texts_of ''Blocks Per Step'' (vesting_pages p d) = (if is_multi_step d then [step_block_count d] else [])"
  "is_multi_step d \<Longrightarrow> texts_of ''First Step'' (vesting_pages p d) =
    (if first_step_block_count d \<noteq> step_block_count d then [first_step_block_count d] else []) @
    (if first_step_amount d \<noteq> step_amount d then [first_step_amount d] else [])"
  "is_multi_step d \<Longrightarrow> texts_of ''Vested per Step'' (vesting_pages p d) =
    (if step_count d = ''2'' \<and> first_step_amount d \<noteq> step_amount d \<and> last_step_amount d \<noteq> step_amount d
     then [] else [step_amount d])"
  "texts_of ''Pre-Vested'' (vesting_pages p d) =
    (if pre_vested_amount d \<noteq> ''0 NIM'' then [pre_vested_amount d] else [])"
  by (simp_all add: texts_of_def vesting_pages_def amount_page_def fee_page_def)

definition shows_schedule :: "tx_data_vesting_creation_t \<Rightarrow> vesting_schedule_t \<Rightarrow> bool" where
  "shows_schedule d s \<longleftrightarrow>
     is_multi_step d = (unat (vs_step_count s) > 1) \<and>
     start_block d = dec (unat (vs_start_block s)) \<and> step_count d = dec (unat (vs_step_count s)) \<and>
     step_block_count d = blocks_text (vs_step_block_count s) \<and>
     first_step_block_count d = blocks_text (vs_first_step_block_count s) \<and>
     first_step_block d = dec (unat (vs_start_block s + vs_first_step_block_count s)) \<and>
     luna_text (vs_step_amount s) = Ok (step_amount d) \<and>
     luna_text (vs_first_step_amount s) = Ok (first_step_amount d) \<and>
     luna_text (vs_pre_vested_amount s) = Ok (pre_vested_amount d)"

lemma print_vesting_shows:
  assumes "print_vesting_schedule own text s = Ok d"
  shows "shows_schedule d s \<and> is_owner_address_sender_address d = own \<and> owner_address d = text"
  using assms by (auto simp: print_vesting_schedule_def shows_schedule_def andthen_eq_Ok luna_text_eq
      word_less_nat_alt)

lemma blocks_text_not_amount: "luna_text n = Ok a \<Longrightarrow> blocks_text m \<noteq> a"
  by (auto simp: luna_text_def blocks_text_eq split: if_splits dest!: arg_cong [of _ _ last])

lemma single_step_release:
  assumes "unat (vs_step_count s) \<le> 1"
  shows "displayed_unlocked T s block =
    (if block < unat (vs_start_block s + vs_first_step_block_count s)
     then unat (vs_pre_vested_amount s) else T)"
  using assms by (simp add: displayed_unlocked_def Let_def)

lemma vesting_pages_release:
  assumes "vesting_pages p d = vesting_pages p' d'" "shows_schedule d s" "shows_schedule d' s'"
  shows "displayed_unlocked T s block = displayed_unlocked T s' block"
proof -
  have texts: "texts_of t (vesting_pages p d) = texts_of t (vesting_pages p' d')" for t
    using assms(1) by simp
  note D = assms(2,3) [unfolded shows_schedule_def]
  have multi: "is_multi_step d = is_multi_step d'"
    using texts [of "''Vested at Block''"] by (simp add: vesting_lookup split: if_splits)
  have "pre_vested_amount d = pre_vested_amount d'"
    using texts [of "''Pre-Vested''"] by (simp add: vesting_lookup split: if_splits)
  with D have pre: "vs_pre_vested_amount s = vs_pre_vested_amount s'" by (metis luna_text_inject)
  show ?thesis
  proof (cases "is_multi_step d")
    case False
    then have "first_step_block d = first_step_block d'"
      using texts [of "''Vested at Block''"] multi by (simp add: vesting_lookup)
    with False D multi pre show ?thesis by (simp add: single_step_release dec_inject)
  next
    case True
    have "start_block d = start_block d'" "step_count d = step_count d'" "step_block_count d = step_block_count d'"
      using texts [of "''Vesting Start Block''"] texts [of "''Vesting Steps''"] texts [of "''Blocks Per Step''"]
        True multi by (simp_all add: vesting_lookup)
    then have eqs: "vs_start_block s = vs_start_block s'" "vs_step_count s = vs_step_count s'"
      "vs_step_block_count s = vs_step_block_count s'"
      using D by (simp_all add: dec_inject blocks_text_inject word_unat_eq_iff)
    have differ: "first_step_block_count d \<noteq> first_step_amount d'" "first_step_amount d \<noteq> first_step_block_count d'"
      using D blocks_text_not_amount by metis+
    have first: "(if first_step_block_count d \<noteq> step_block_count d then [first_step_block_count d] else []) @
        (if first_step_amount d \<noteq> step_amount d then [first_step_amount d] else []) =
        (if first_step_block_count d' \<noteq> step_block_count d' then [first_step_block_count d'] else []) @
        (if first_step_amount d' \<noteq> step_amount d' then [first_step_amount d'] else [])"
      using texts [of "''First Step''"] True multi by (simp add: vesting_lookup)
    have "first_step_block_count d = first_step_block_count d'"
      using first differ \<open>step_block_count d = _\<close> by (auto split: if_splits)
    then have count: "vs_first_step_block_count s = vs_first_step_block_count s'"
      using D by (simp add: blocks_text_inject)
    have amount: "first_step_amount d \<noteq> step_amount d \<longleftrightarrow> first_step_amount d' \<noteq> step_amount d'"
      "first_step_amount d \<noteq> step_amount d \<Longrightarrow> first_step_amount d = first_step_amount d'"
      using first differ by (auto split: if_splits)
    have step: "(if step_count d = ''2'' \<and> first_step_amount d \<noteq> step_amount d \<and> last_step_amount d \<noteq> step_amount d
         then [] else [step_amount d]) =
       (if step_count d' = ''2'' \<and> first_step_amount d' \<noteq> step_amount d' \<and> last_step_amount d' \<noteq> step_amount d'
         then [] else [step_amount d'])"
      using texts [of "''Vested per Step''"] True multi by (simp add: vesting_lookup)
    then consider "step_amount d = step_amount d'" "first_step_amount d = first_step_amount d'"
      | "step_count d = ''2''" "first_step_amount d = first_step_amount d'"
      using amount by (auto split: if_splits)
    then show ?thesis
    proof cases
      case 1
      with D have "vs_step_amount s = vs_step_amount s'" "vs_first_step_amount s = vs_first_step_amount s'"
        by (metis luna_text_inject)+
      then show ?thesis using eqs count pre by (simp add: displayed_unlocked_def Let_def)
    next
      case 2
      with D have "vs_first_step_amount s = vs_first_step_amount s'" by (metis luna_text_inject)
      moreover have "unat (vs_step_count s) = 2"
        using 2(1) D dec_inject [of "unat (vs_step_count s)" 2] by (simp add: dec_small digit_char_def char_of_def bit_iff_odd)
      ultimately show ?thesis using eqs count pre by (auto simp: displayed_unlocked_def Let_def)
    qed
  qed
qed

text \<open>What the vesting contract of a transaction has released at a block.\<close>

definition vesting_release :: "tx_content \<Rightarrow> vesting_params \<Rightarrow> nat \<Rightarrow> nat" where
  "vesting_release tx v block =
     (case vesting_params_values (t_value tx) v of (start, block_count, amount, locked) \<Rightarrow>
       contract_unlocked (unat (t_value tx)) (unat start) (unat block_count) (unat amount) (unat locked) block)"

lemma vesting_display_shows:
  assumes "vesting_display (t_sender tx) st (t_value tx) owner v = Ok d"
  obtains s where "shows_schedule d s"
    "is_owner_address_sender_address d = (owner = t_sender tx)" "owner_address d = address_text owner"
    "\<And>block. 0 < t_value tx \<Longrightarrow>
      displayed_unlocked (unat (t_value tx)) s block = vesting_release tx v block"
proof -
  obtain start bc a l where v: "vesting_params_values (t_value tx) v = (start, bc, a, l)"
    by (cases "vesting_params_values (t_value tx) v")
  with assms obtain s where s: "vesting_schedule (t_value tx) start bc a l = Ok s"
    "print_vesting_schedule (owner = t_sender tx) (address_text owner) s = Ok d"
    by (auto simp: vesting_display_code andthen_eq_Ok)
  from print_vesting_shows [OF s(2)] displayed_is_unlocked [OF s(1)] show thesis
    by (intro that [of s]) (simp_all add: vesting_release_def v)
qed

lemma screen_determines_vesting:
  assumes "tx_display blake2b version tx (Vesting_creation owner v) = Ok (observe shown p)"
    and "tx_display blake2b version' tx' q' = Ok (observe shown p')"
    and "carries version tx (Vesting_creation owner v)" "carries version' tx' q'"
    and "ui_transaction_signing dev p = Ok s" "ui_transaction_signing dev p' = Ok s"
  shows "\<exists>owner' v'. q' = Vesting_creation owner' v' \<and>
    (owner = owner' \<or> owner = t_sender tx \<and> owner' = t_sender tx') \<and>
    (\<forall>block. vesting_release tx v block = vesting_release tx' v' block) \<and>
    t_value tx = t_value tx' \<and> tx_fee p = tx_fee p' \<and> tx_network p = tx_network p'"
proof -
  note m = display_members [OF assms(1)] display_label [OF assms(1)]
    display_members [OF assms(2)] display_label [OF assms(2)]
  note same = same_screen [OF m assms(5,6)]
  have t: "transaction_type p = TRANSACTION_TYPE_VESTING_CREATION"
    using assms(1) by (auto simp: tx_display_def observe_def andthen_eq_Ok)
  obtain owner' v' where q': "q' = Vesting_creation owner' v'"
    using assms(2) t same(3) by (cases q') (auto simp: tx_display_def observe_def andthen_eq_Ok case_prod_unfold)
  obtain d d' where d: "vesting_display (t_sender tx) (t_sender_type tx) (t_value tx) owner v = Ok d"
      "vesting_display (t_sender tx') (t_sender_type tx') (t_value tx') owner' v' = Ok d'"
      "shown (type_specific p) = Shown_vesting d" "shown (type_specific p') = Shown_vesting d'"
      "luna_text (t_value tx) = Ok (tx_value p)" "luna_text (t_value tx') = Ok (tx_value p')"
    using assms(1,2) q' by (auto simp: tx_display_def observe_def andthen_eq_Ok)
  then have ts: "type_specific p = Vesting_creation_tx d" "type_specific p' = Vesting_creation_tx d'"
    by (cases "type_specific p"; cases "type_specific p'"; simp)+
  then have pages: "vesting_pages p d = vesting_pages p' d'" using same(1) by (simp add: review_pages_def)
  have texts: "texts_of t (vesting_pages p d) = texts_of t (vesting_pages p' d')" for t
    using pages by simp
  obtain vs where vs: "shows_schedule d vs" "is_owner_address_sender_address d = (owner = t_sender tx)"
    "owner_address d = address_text owner" "\<And>block. 0 < t_value tx \<Longrightarrow>
      displayed_unlocked (unat (t_value tx)) vs block = vesting_release tx v block"
    by (rule vesting_display_shows [OF d(1)]) blast
  obtain vs' where vs': "shows_schedule d' vs'" "is_owner_address_sender_address d' = (owner' = t_sender tx')"
    "owner_address d' = address_text owner'" "\<And>block. 0 < t_value tx' \<Longrightarrow>
      displayed_unlocked (unat (t_value tx')) vs' block = vesting_release tx' v' block"
    by (rule vesting_display_shows [OF d(2)]) blast
  have heads: "tx_value p = tx_value p'" "tx_fee p = tx_fee p'" "tx_network p = tx_network p'"
    using texts [of "''Amount''"] texts [of "''Fee''"] texts [of "''Network''"]
    by (auto simp: vesting_lookup split: if_splits)
  then have T: "t_value tx = t_value tx'" using d(5,6) luna_text_inject by metis
  have "owner = owner' \<or> owner = t_sender tx \<and> owner' = t_sender tx'"
    using texts [of "''Vesting Owner''"] vs(2,3) vs'(2,3) assms(3,4) q'
    by (auto simp: vesting_lookup address_text_inject split: if_splits)
  moreover have "vesting_release tx v block = vesting_release tx' v' block" for block
  proof (cases "t_value tx = 0")
    case True
    then show ?thesis using T by (simp add: vesting_release_def contract_unlocked_def case_prod_unfold)
  next
    case False
    then show ?thesis
      using vesting_pages_release [OF pages vs(1) vs'(1), of "unat (t_value tx)" block] vs(4) vs'(4) T
      by (simp add: word_gt_0)
  qed
  ultimately show ?thesis using q' T heads(2,3) by blast
qed

section \<open>Staking: the pages determine the terms\<close>

text \<open>The delegation, the reactivation flag and the amount of staking data, where it has them.\<close>

fun staking_terms :: "staking_data \<Rightarrow> u8 list option \<times> bool option \<times> u64 option" where
  "staking_terms (Create_staker b delegation _ _) = (if b = 0 then None else Some delegation, None, None)"
| "staking_terms (Update_staker b delegation x _ _) =
     (if b = 0 then None else Some delegation, Some (x \<noteq> 0), None)"
| "staking_terms (Add_stake _) = (None, None, None)"
| "staking_terms (Set_active_stake n _ _) = (None, None, Some n)"
| "staking_terms (Retire_stake n _ _) = (None, None, Some n)"

text \<open>The staker, where the data or its signature proof names one.\<close>

fun staker_of :: "(u8 list \<Rightarrow> u8 list option) \<Rightarrow> staking_data \<Rightarrow> (error_t, u8 list option) result" where
  "staker_of blake2b (Create_staker _ _ pk sig) = staker_of_proof blake2b pk sig"
| "staker_of blake2b (Update_staker _ _ _ pk sig) = staker_of_proof blake2b pk sig"
| "staker_of blake2b (Add_stake a) = Ok (Some a)"
| "staker_of blake2b (Set_active_stake _ pk sig) = staker_of_proof blake2b pk sig"
| "staker_of blake2b (Retire_stake _ pk sig) = staker_of_proof blake2b pk sig"

lemma yes_no_inject: "yes_no a = yes_no b \<longleftrightarrow> a = b"
  by (simp add: yes_no_def)

lemma address_text_nonempty: "length a = 20 \<Longrightarrow> address_text a \<noteq> []"
  by (simp add: address_text_def Let_def)

lemma staking_lookup:
  "texts_of ''Amount'' (staking_pages p d) = (if tx_value p \<noteq> ''0 NIM'' then [tx_value p] else []) @
    (case staking_specific d of Set_active_stake_or_retire_stake a \<Rightarrow> [a] | _ \<Rightarrow> [])"
  "texts_of ''Fee'' (staking_pages p d) = (if tx_fee p \<noteq> ''0 NIM'' then [tx_fee p] else [])"
  "texts_of ''Network'' (staking_pages p d) = [tx_network p]"
  "texts_of ''Staker'' (staking_pages p d) =
    (if validator_or_staker_address d \<noteq> [] then [validator_or_staker_address d] else [])"
  "texts_of ''Delegation'' (staking_pages p d) = (case staking_specific d of
      Create_staker_or_update_staker delegation _ \<Rightarrow> if delegation \<noteq> [] then [delegation] else []
    | _ \<Rightarrow> [])"
  "texts_of ''Reactivate all Stake'' (staking_pages p d) = (case staking_specific d of
      Create_staker_or_update_staker _ reactivate \<Rightarrow>
        if staking_type d = UPDATE_STAKER then [case reactivate of Some s \<Rightarrow> s | None \<Rightarrow> ''''] else []
    | _ \<Rightarrow> [])"
  by (simp_all add: texts_of_def staking_pages_def amount_page_def fee_page_def split: staking_specific_t.split)

definition staking_texts :: "staking_specific_t \<Rightarrow> string option \<times> string option \<times> string option" where
  "staking_texts specific = (case specific of
     No_staking_specific \<Rightarrow> (None, None, None)
   | Create_staker_or_update_staker delegation reactivate \<Rightarrow> (Some delegation, reactivate, None)
   | Set_active_stake_or_retire_stake a \<Rightarrow> (None, None, Some a))"

lemma staking_pages_inject:
  assumes "staking_pages p d = staking_pages p' d'" "staking_type d = staking_type d'"
    and "staking_member_ok d" "staking_member_ok d'"
  shows "tx_value p = tx_value p'" "tx_fee p = tx_fee p'" "tx_network p = tx_network p'"
    "validator_or_staker_address d = validator_or_staker_address d'"
    and "fst (staking_texts (staking_specific d)) = fst (staking_texts (staking_specific d'))"
    "snd (snd (staking_texts (staking_specific d))) = snd (snd (staking_texts (staking_specific d')))"
    "staking_type d = UPDATE_STAKER \<Longrightarrow> fst (snd (staking_texts (staking_specific d))) = Some r \<Longrightarrow>
      fst (snd (staking_texts (staking_specific d'))) = Some r' \<Longrightarrow> r = r'"
proof -
  have texts: "texts_of t (staking_pages p d) = texts_of t (staking_pages p' d')" for t
    using assms(1) by simp
  note T = texts [of "''Amount''"] texts [of "''Delegation''"] texts [of "''Reactivate all Stake''"]
  show "tx_fee p = tx_fee p'" "tx_network p = tx_network p'"
    "validator_or_staker_address d = validator_or_staker_address d'"
    using texts [of "''Fee''"] texts [of "''Network''"] texts [of "''Staker''"]
    by (auto simp: staking_lookup split: if_splits)
  show "tx_value p = tx_value p'"
    "fst (staking_texts (staking_specific d)) = fst (staking_texts (staking_specific d'))"
    "snd (snd (staking_texts (staking_specific d))) = snd (snd (staking_texts (staking_specific d')))"
    "staking_type d = UPDATE_STAKER \<Longrightarrow> fst (snd (staking_texts (staking_specific d))) = Some r \<Longrightarrow>
      fst (snd (staking_texts (staking_specific d'))) = Some r' \<Longrightarrow> r = r'"
    using assms(2-4) T
    by (cases "staking_specific d"; cases "staking_specific d'";
        auto simp: staking_lookup staking_texts_def staking_type_defs split: if_splits)+
qed

lemma delegation_text_inject:
  assumes "length d = (if b = 0 then 0 else 20)" "length d' = (if b' = 0 then 0 else 20)"
  shows "delegation_text b d = delegation_text b' d' \<longleftrightarrow>
    (if b = 0 then None else Some d) = (if b' = 0 then None else Some d')"
  using assms address_text_nonempty [of d] address_text_nonempty [of d'] address_text_inject [of d d']
  by (auto simp: delegation_text_def)

lemma staking_terms_inject:
  assumes "staking_display blake2b sender d = Ok (t, specific, address)"
    and "staking_display blake2b sender' d' = Ok (t, specific', address')"
    and "staking_data_ok d" "staking_data_ok d'"
    and "fst (staking_texts specific) = fst (staking_texts specific')"
    "snd (snd (staking_texts specific)) = snd (snd (staking_texts specific'))"
    "t = UPDATE_STAKER \<Longrightarrow> fst (snd (staking_texts specific)) = fst (snd (staking_texts specific'))"
  shows "staking_data_type d = staking_data_type d' \<and> staking_terms d = staking_terms d'"
  using assms
  by (cases d; cases d') (auto simp: andthen_eq_Ok staking_type_defs staking_texts_def
      delegation_text_inject yes_no_inject luna_text_eq dest: luna_text_inject split: if_splits)

lemma staking_display_staker:
  assumes "staking_display blake2b sender d = Ok (t, specific, address)"
  shows "\<exists>eff. staker_of blake2b d = Ok eff \<and> address = shown_staker sender eff"
    and "t = staking_data_type d"
    and "t = UPDATE_STAKER \<Longrightarrow> \<exists>r. fst (snd (staking_texts specific)) = Some r"
  using assms by (cases d; auto simp: andthen_eq_Ok staking_texts_def staking_type_defs)+

lemma screen_determines_staking:
  assumes "tx_display blake2b version tx (Staking_call sd) = Ok (observe shown p)"
    and "tx_display blake2b version' tx' q' = Ok (observe shown p')"
    and "carries version tx (Staking_call sd)" "carries version' tx' q'"
    and "ui_transaction_signing dev p = Ok s" "ui_transaction_signing dev p' = Ok s"
  shows "\<exists>sd' eff eff'. q' = Staking_call sd' \<and>
    staking_data_type sd = staking_data_type sd' \<and> staking_terms sd = staking_terms sd' \<and>
    staker_of blake2b sd = Ok eff \<and> staker_of blake2b sd' = Ok eff' \<and>
    shown_staker (t_sender tx) eff = shown_staker (t_sender tx') eff' \<and>
    tx_value p = tx_value p' \<and> tx_fee p = tx_fee p' \<and> tx_network p = tx_network p'"
proof -
  note m = display_members [OF assms(1)] display_label [OF assms(1)]
    display_members [OF assms(2)] display_label [OF assms(2)]
  note same = same_screen [OF m assms(5,6)]
  have t: "transaction_type p = TRANSACTION_TYPE_STAKING_INCOMING"
    using assms(1) by (auto simp: tx_display_def observe_def andthen_eq_Ok case_prod_unfold)
  obtain sd' where q': "q' = Staking_call sd'"
    using assms(2) t same(3) by (cases q') (auto simp: tx_display_def observe_def andthen_eq_Ok case_prod_unfold)
  obtain d d' where ts: "type_specific p = Staking_incoming_tx d" "type_specific p' = Staking_incoming_tx d'"
    using m(1,3) t same(3) by (auto simp: members_ok_def split: type_specific_t.splits)
  then have d: "staking_display blake2b (t_sender tx) sd =
        Ok (staking_type d, staking_specific d, validator_or_staker_address d)"
      "staking_display blake2b (t_sender tx') sd' =
        Ok (staking_type d', staking_specific d', validator_or_staker_address d')"
    using assms(1,2) q' by (auto simp: tx_display_def observe_def andthen_eq_Ok)
  have label: "transaction_label_type p = staking_data_label sd" "transaction_label_type p' = staking_data_label sd'"
    using assms(1,2) q' by (auto simp: tx_display_def observe_def andthen_eq_Ok)
  then have type: "staking_type d = staking_type d'"
    using same(2) staking_display_staker(2) [OF d(1)] staking_display_staker(2) [OF d(2)]
    by (cases sd; cases sd') simp_all
  have ok: "staking_member_ok d" "staking_member_ok d'"
    using m(1,3) by (simp_all add: members_ok_def ts)
  have pages: "staking_pages p d = staking_pages p' d'" using same(1) by (simp add: review_pages_def ts)
  note inject = staking_pages_inject [OF pages type ok]
  have "staking_data_type sd = staking_data_type sd' \<and> staking_terms sd = staking_terms sd'"
  proof (rule staking_terms_inject [OF d(1) d(2) [folded type]])
    show "fst (snd (staking_texts (staking_specific d))) = fst (snd (staking_texts (staking_specific d')))"
      if "staking_type d = UPDATE_STAKER"
      using inject(7) that staking_display_staker(3) [OF d(1)] staking_display_staker(3) [OF d(2)] type
      by auto
  qed (use assms(3,4) q' inject(5,6) in simp_all)
  then show ?thesis
    using staking_display_staker(1) [OF d(1)] staking_display_staker(1) [OF d(2)] inject(1-4) q' by metis
qed

text \<open>Two accepted buffers, each with the transaction it holds.\<close>

lemma both_displayed:
  assumes "parse_tx blake2b mem version c = Ok out" "wf_cursor mem c" "hash_ok blake2b"
    and "parse_tx blake2b mem' version c' = Ok out'" "wf_cursor mem' c'"
  obtains tx p tx' p' where "tx_ok version tx" "carries version tx p" "view mem c = tx_bytes version tx"
      "tx_display blake2b version tx p = Ok (observe shown out)"
    "tx_ok version tx'" "carries version tx' p'" "view mem' c' = tx_bytes version tx'"
      "tx_display blake2b version tx' p' = Ok (observe shown out')"
  by (rule parse_tx_Ok_display [OF assms(1-3)], rule parse_tx_Ok_display [OF assms(4,5,3)]) (rule that)

section \<open>Properties\<close>

text \<open>
  C8: What you see is what you sign, for transfers. If the screens reviewing two accepted buffers of
  the same version are the same (title and pages, on either type of device), and the first is a
  normal transfer, then both are transfers of the same value and fee, to the same recipient, with
  the same data, on the same network. Hiding a zero amount, a zero fee or empty data loses nothing.
\<close>

theorem transfer_review_determines_transaction:
  assumes "parse_tx blake2b mem version c = Ok out" "wf_cursor mem c" "hash_ok blake2b"
    and "parse_tx blake2b mem' version c' = Ok out'" "wf_cursor mem' c'"
    and "ui_transaction_signing dev out = Ok s" "ui_transaction_signing dev out' = Ok s"
    and "transaction_type out = TRANSACTION_TYPE_NORMAL"
  shows "\<exists>tx tx'. view mem c = tx_bytes version tx \<and> view mem' c' = tx_bytes version tx' \<and>
    carries version tx Basic_transfer \<and> carries version tx' Basic_transfer \<and>
    t_recipient tx = t_recipient tx' \<and> t_data tx = t_data tx' \<and> t_value tx = t_value tx' \<and>
    t_fee tx = t_fee tx' \<and> t_network tx = t_network tx'"
proof (rule both_displayed [OF assms(1-5)])
  fix tx p tx' p'
  assume tx: "tx_ok version tx" "carries version tx p" "view mem c = tx_bytes version tx"
      "tx_display blake2b version tx p = Ok (observe shown out)"
    and tx': "tx_ok version tx'" "carries version tx' p'" "view mem' c' = tx_bytes version tx'"
      "tx_display blake2b version tx' p' = Ok (observe shown out')"
  have same: "observe shown out = observe shown out'"
    by (rule screen_determines_transfer [OF tx(4) tx'(4) assms(6-8)])
  have p: "p = Basic_transfer"
    using tx(4) assms(8) by (cases p) (auto simp: tx_display_def observe_def andthen_eq_Ok case_prod_unfold)
  from display_determines_transfer [OF tx(4) [unfolded p] tx'(4) [folded same] tx(1) tx'(1)] tx tx' p
  show ?thesis by blast
qed

lemma transfer_example:
  obtains out s where "parse_tx example_hash (tx_bytes TRANSACTION_VERSION_ALBATROSS example_transfer)
      TRANSACTION_VERSION_ALBATROSS (Some 0, 69) = Ok out"
    "transaction_type out = TRANSACTION_TYPE_NORMAL"
    "ui_transaction_signing NBGL out = (Ok s :: (unit, screen) result)"
proof -
  obtain out where out: "parse_tx example_hash (tx_bytes TRANSACTION_VERSION_ALBATROSS example_transfer)
      TRANSACTION_VERSION_ALBATROSS (Some 0, 69) = Ok out" "transaction_type out = TRANSACTION_TYPE_NORMAL"
    by (rule example_accepted) (simp add: observe_def)
  with that [OF out] show thesis
    by (simp add: nbgl_screen [OF parse_tx_members [OF out(1) example_ok(4,1)]]
        del: ui_transaction_signing.simps)
qed

theorem transfer_review_determines_transaction_witness:
  "\<exists>tx. tx_bytes TRANSACTION_VERSION_ALBATROSS example_transfer = tx_bytes TRANSACTION_VERSION_ALBATROSS tx \<and>
    carries TRANSACTION_VERSION_ALBATROSS tx Basic_transfer"
proof (rule transfer_example)
  fix out s
  assume out: "parse_tx example_hash (tx_bytes TRANSACTION_VERSION_ALBATROSS example_transfer)
      TRANSACTION_VERSION_ALBATROSS (Some 0, 69) = Ok out"
    and "transaction_type out = TRANSACTION_TYPE_NORMAL"
    and "ui_transaction_signing NBGL out = (Ok s :: (unit, screen) result)"
  from transfer_review_determines_transaction [OF out example_ok(4,1) out example_ok(4) this(3,3,2)]
    example_ok(5)
  show ?thesis by auto
qed

text \<open>
  C9: The same for HTLC creation. Two accepted buffers with the same review, the first of which
  creates an HTLC, create HTLCs with the same redeem address, hash root and hash algorithm, the same
  refund address unless each refunds to its own sender, and the same hash count and timeout unless
  both refund to the sender and time out within about two months: the details that the flow hides
  are determined by what it shows, or are the harmless ones its comments name.
\<close>

theorem htlc_review_determines_transaction:
  assumes "parse_tx blake2b mem version c = Ok out" "wf_cursor mem c" "hash_ok blake2b"
    and "parse_tx blake2b mem' version c' = Ok out'" "wf_cursor mem' c'"
    and "ui_transaction_signing dev out = Ok s" "ui_transaction_signing dev out' = Ok s"
    and "transaction_type out = TRANSACTION_TYPE_HTLC_CREATION"
  shows "\<exists>tx h tx' h'. view mem c = tx_bytes version tx \<and> view mem' c' = tx_bytes version tx' \<and>
    carries version tx (Htlc_creation h) \<and> carries version tx' (Htlc_creation h') \<and>
    same_htlc tx h tx' h' \<and> t_value tx = t_value tx' \<and> t_fee tx = t_fee tx' \<and> t_network tx = t_network tx'"
proof (rule both_displayed [OF assms(1-5)])
  fix tx p tx' p'
  assume tx: "tx_ok version tx" "carries version tx p" "view mem c = tx_bytes version tx"
      "tx_display blake2b version tx p = Ok (observe shown out)"
    and tx': "tx_ok version tx'" "carries version tx' p'" "view mem' c' = tx_bytes version tx'"
      "tx_display blake2b version tx' p' = Ok (observe shown out')"
  obtain h where p: "p = Htlc_creation h"
    using tx(4) assms(8) by (cases p) (auto simp: tx_display_def observe_def andthen_eq_Ok case_prod_unfold)
  from screen_determines_htlc [OF tx(4) [unfolded p] tx'(4) tx(2) [unfolded p] tx'(2) assms(6,7)]
  obtain h' where h': "p' = Htlc_creation h'" "same_htlc tx h tx' h'" "tx_value out = tx_value out'"
    "tx_fee out = tx_fee out'" "tx_network out = tx_network out'" by blast
  with shown_header [OF tx(4) tx'(4)] tx tx' p show ?thesis by blast
qed

lemma contract_example:
  assumes "parse_tx example_hash mem version c = Ok out" "wf_cursor mem c"
  obtains s where "ui_transaction_signing BAGL out = (Ok s :: (unit, screen) result)"
  using bagl_screen [OF parse_tx_members [OF assms example_ok(1)]] by blast

theorem htlc_review_determines_transaction_witness:
  "\<exists>tx h. tx_bytes TRANSACTION_VERSION_LEGACY example_htlc_tx = tx_bytes TRANSACTION_VERSION_LEGACY tx \<and>
    carries TRANSACTION_VERSION_LEGACY tx (Htlc_creation h)"
proof (rule example_htlc_accepted)
  fix out
  assume out: "parse_tx example_hash (tx_bytes TRANSACTION_VERSION_LEGACY example_htlc_tx)
      TRANSACTION_VERSION_LEGACY (Some 0, 144) = Ok out"
    and t: "transaction_type out = TRANSACTION_TYPE_HTLC_CREATION"
  obtain s where s: "ui_transaction_signing BAGL out = (Ok s :: (unit, screen) result)"
    by (rule contract_example [OF out example_htlc_ok(3)])
  from htlc_review_determines_transaction [OF out example_htlc_ok(3) example_ok(1) out example_htlc_ok(3) s s t]
    example_htlc_ok(4)
  show ?thesis by auto
qed

text \<open>
  C10: The same for vesting creation. Two accepted buffers with the same review, the first of which
  creates a vesting contract, create vesting contracts of the same value that release the same
  amount at every block, to the same owner unless each vests to its own sender. Every hidden page
  (single or multiple steps, first and last step amounts, pre-vested amount) is implied by the
  pages that are shown.
\<close>

theorem vesting_review_determines_transaction:
  assumes "parse_tx blake2b mem version c = Ok out" "wf_cursor mem c" "hash_ok blake2b"
    and "parse_tx blake2b mem' version c' = Ok out'" "wf_cursor mem' c'"
    and "ui_transaction_signing dev out = Ok s" "ui_transaction_signing dev out' = Ok s"
    and "transaction_type out = TRANSACTION_TYPE_VESTING_CREATION"
  shows "\<exists>tx owner v tx' owner' v'. view mem c = tx_bytes version tx \<and> view mem' c' = tx_bytes version tx' \<and>
    carries version tx (Vesting_creation owner v) \<and> carries version tx' (Vesting_creation owner' v') \<and>
    (owner = owner' \<or> owner = t_sender tx \<and> owner' = t_sender tx') \<and>
    (\<forall>block. vesting_release tx v block = vesting_release tx' v' block) \<and>
    t_value tx = t_value tx' \<and> t_fee tx = t_fee tx' \<and> t_network tx = t_network tx'"
proof (rule both_displayed [OF assms(1-5)])
  fix tx p tx' p'
  assume tx: "tx_ok version tx" "carries version tx p" "view mem c = tx_bytes version tx"
      "tx_display blake2b version tx p = Ok (observe shown out)"
    and tx': "tx_ok version tx'" "carries version tx' p'" "view mem' c' = tx_bytes version tx'"
      "tx_display blake2b version tx' p' = Ok (observe shown out')"
  obtain owner v where p: "p = Vesting_creation owner v"
    using tx(4) assms(8) by (cases p) (auto simp: tx_display_def observe_def andthen_eq_Ok case_prod_unfold)
  from screen_determines_vesting [OF tx(4) [unfolded p] tx'(4) tx(2) [unfolded p] tx'(2) assms(6,7)]
  obtain owner' v' where v': "p' = Vesting_creation owner' v'"
    "owner = owner' \<or> owner = t_sender tx \<and> owner' = t_sender tx'"
    "\<forall>block. vesting_release tx v block = vesting_release tx' v' block" "t_value tx = t_value tx'"
    "tx_fee out = tx_fee out'" "tx_network out = tx_network out'" by blast
  moreover have "t_fee tx = t_fee tx' \<and> t_network tx = t_network tx'"
    using tx(4) tx'(4) v'(5,6) by (auto simp: tx_display_def observe_def andthen_eq_Ok case_prod_unfold
        dest: luna_text_inject network_name_inject)
  ultimately show ?thesis using tx tx' p by blast
qed

theorem vesting_review_determines_transaction_witness:
  "\<exists>tx owner v. tx_bytes TRANSACTION_VERSION_LEGACY example_vesting_tx = tx_bytes TRANSACTION_VERSION_LEGACY tx \<and>
    carries TRANSACTION_VERSION_LEGACY tx (Vesting_creation owner v)"
proof (rule example_vesting_accepted)
  fix out
  assume out: "parse_tx example_hash (tx_bytes TRANSACTION_VERSION_LEGACY example_vesting_tx)
      TRANSACTION_VERSION_LEGACY (Some 0, 102) = Ok out"
    and t: "transaction_type out = TRANSACTION_TYPE_VESTING_CREATION"
  obtain s where s: "ui_transaction_signing BAGL out = (Ok s :: (unit, screen) result)"
    by (rule contract_example [OF out example_vesting_ok(3)])
  from vesting_review_determines_transaction [OF out example_vesting_ok(3) example_ok(1) out
      example_vesting_ok(3) s s t] example_vesting_ok(4)
  show ?thesis by auto
qed

text \<open>
  C11: The same for staking. Two accepted buffers with the same review, the first of which calls the
  staking contract, make the same staking call: the same operation with the same delegation,
  reactivation flag and stake amount, for stakers that are displayed alike, with the same value, fee
  and network.
\<close>

theorem staking_review_determines_transaction:
  assumes "parse_tx blake2b mem version c = Ok out" "wf_cursor mem c" "hash_ok blake2b"
    and "parse_tx blake2b mem' version c' = Ok out'" "wf_cursor mem' c'"
    and "ui_transaction_signing dev out = Ok s" "ui_transaction_signing dev out' = Ok s"
    and "transaction_type out = TRANSACTION_TYPE_STAKING_INCOMING"
  shows "\<exists>tx d tx' d' eff eff'. view mem c = tx_bytes version tx \<and> view mem' c' = tx_bytes version tx' \<and>
    carries version tx (Staking_call d) \<and> carries version tx' (Staking_call d') \<and>
    staking_data_type d = staking_data_type d' \<and> staking_terms d = staking_terms d' \<and>
    staker_of blake2b d = Ok eff \<and> staker_of blake2b d' = Ok eff' \<and>
    shown_staker (t_sender tx) eff = shown_staker (t_sender tx') eff' \<and>
    t_value tx = t_value tx' \<and> t_fee tx = t_fee tx' \<and> t_network tx = t_network tx'"
proof (rule both_displayed [OF assms(1-5)])
  fix tx p tx' p'
  assume tx: "tx_ok version tx" "carries version tx p" "view mem c = tx_bytes version tx"
      "tx_display blake2b version tx p = Ok (observe shown out)"
    and tx': "tx_ok version tx'" "carries version tx' p'" "view mem' c' = tx_bytes version tx'"
      "tx_display blake2b version tx' p' = Ok (observe shown out')"
  obtain d where p: "p = Staking_call d"
    using tx(4) assms(8) by (cases p) (auto simp: tx_display_def observe_def andthen_eq_Ok case_prod_unfold)
  from screen_determines_staking [OF tx(4) [unfolded p] tx'(4) tx(2) [unfolded p] tx'(2) assms(6,7)]
  obtain d' eff eff' where d': "p' = Staking_call d'"
    "staking_data_type d = staking_data_type d'" "staking_terms d = staking_terms d'"
    "staker_of blake2b d = Ok eff" "staker_of blake2b d' = Ok eff'"
    "shown_staker (t_sender tx) eff = shown_staker (t_sender tx') eff'"
    "tx_value out = tx_value out'" "tx_fee out = tx_fee out'" "tx_network out = tx_network out'" by blast
  with shown_header [OF tx(4) tx'(4)] tx tx' p show ?thesis by blast
qed

theorem staking_review_determines_transaction_witness:
  "\<exists>tx d. tx_bytes TRANSACTION_VERSION_ALBATROSS example_staking_tx = tx_bytes TRANSACTION_VERSION_ALBATROSS tx \<and>
    carries TRANSACTION_VERSION_ALBATROSS tx (Staking_call d)"
proof (rule example_staking_accepted)
  fix out
  assume out: "parse_tx example_hash (tx_bytes TRANSACTION_VERSION_ALBATROSS example_staking_tx)
      TRANSACTION_VERSION_ALBATROSS (Some 0, 88) = Ok out"
    and t: "transaction_type out = TRANSACTION_TYPE_STAKING_INCOMING"
  obtain s where s: "ui_transaction_signing BAGL out = (Ok s :: (unit, screen) result)"
    by (rule contract_example [OF out example_staking_ok(3)])
  from staking_review_determines_transaction [OF out example_staking_ok(3) example_ok(1) out
      example_staking_ok(3) s s t] example_staking_ok(4)
  show ?thesis by (auto simp del: carries.simps)
qed

text \<open>
  C23: What the review of an accepted buffer does on either type of device: BAGL devices show it,
  whatever its type; NBGL devices show it too unless it creates a vesting contract or an HTLC, which
  the parser accepts in legacy transactions and for which the review fails its assertion, which ends
  the app. No review reads a union member that the parser did not write.
\<close>

theorem review_of_accepted_transaction:
  assumes "parse_tx blake2b mem version c = Ok out" "wf_cursor mem c" "hash_ok blake2b"
  shows "(\<exists>label ps. ui_transaction_signing BAGL out = Ok (Bagl_flow label ps)) \<and>
    (if transaction_type out \<in> {TRANSACTION_TYPE_VESTING_CREATION, TRANSACTION_TYPE_HTLC_CREATION}
     then ui_transaction_signing NBGL out = Fault Assertion_failed
     else \<exists>titles ps. ui_transaction_signing NBGL out = Ok (Nbgl_review titles ps) \<and>
       length ps \<le> REVIEW_ENTRIES_MAX_COUNT)"
proof -
  note m = parse_tx_members [OF assms]
  have "length (review_pages out) \<le> REVIEW_ENTRIES_MAX_COUNT"
    if "transaction_type out \<notin> {TRANSACTION_TYPE_VESTING_CREATION, TRANSACTION_TYPE_HTLC_CREATION}"
    using that m by (auto simp: members_ok_def review_pages_def REVIEW_ENTRIES_MAX_COUNT_def transfer_pages_def
        staking_pages_def amount_page_def fee_page_def split: type_specific_t.splits staking_specific_t.splits)
  then show ?thesis
    by (cases "nbgl_titles (transaction_label_type out)")
      (simp add: bagl_screen [OF m] nbgl_screen [OF m] del: ui_transaction_signing.simps)
qed

theorem review_of_accepted_transaction_witness:
  "\<exists>out. parse_tx example_hash (tx_bytes TRANSACTION_VERSION_LEGACY example_htlc_tx)
      TRANSACTION_VERSION_LEGACY (Some 0, 144) = Ok out \<and>
    ui_transaction_signing NBGL out = (Fault Assertion_failed :: (unit, screen) result)"
proof (rule example_htlc_accepted)
  fix out
  assume out: "parse_tx example_hash (tx_bytes TRANSACTION_VERSION_LEGACY example_htlc_tx)
      TRANSACTION_VERSION_LEGACY (Some 0, 144) = Ok out"
    and t: "transaction_type out = TRANSACTION_TYPE_HTLC_CREATION"
  from review_of_accepted_transaction [OF out example_htlc_ok(3) example_ok(1)] t out
  show ?thesis by auto
qed

end
