(* ===== verification/Platform.thy ===== *)
theory Platform
  imports Review
begin

text \<open>
  The memory of the app (\<^verbatim>\<open>src/src/globals.h\<close>) and the functions of the Ledger SDK it calls.

  The SDK is not part of the repository: its functions are fields of the record \<open>platform\<close>, an
  argument of every definition that uses them. A field returns \<open>None\<close> where the SDK function
  returns an error. What the theorems need of them are the documented output lengths
  (\<open>platform_ok\<close>) and that the incremental hash functions hash the concatenation of their inputs
  (\<open>incremental_hash\<close>).

  The requests share one union. The model keeps the member written last; another member is read
  through the memory layout of the compiler, which the record holds as functions
  \<open>pk_layout\<close>, \<open>tx_layout\<close>, \<open>msg_layout\<close>, so that a request that continues another kind of request
  reads the bytes that happen to be there, as it does on the device.
\<close>

section \<open>Memory writes\<close>

text \<open>\<^verbatim>\<open>memmove\<close> into an array at an index.\<close>

definition memmove_at :: "nat \<Rightarrow> 'a list \<Rightarrow> 'a list \<Rightarrow> ('e, 'a list) result" where
  "memmove_at i xs arr =
     (if i + length xs \<le> length arr then Ok (take i arr @ xs @ drop (i + length xs) arr)
      else Fault Out_of_bounds)"

text \<open>\<^verbatim>\<open>memmove\<close> to the target of a pointer into an array.\<close>

definition memmove_to :: "ptr \<Rightarrow> u8 list \<Rightarrow> u8 list \<Rightarrow> ('e, u8 list) result" where
  "memmove_to p xs arr =
     (case p of None \<Rightarrow> Fault Null_dereference | Some i \<Rightarrow> memmove_at i xs arr)"

lemma memmove_at_Ok [simp]:
  "i + length xs \<le> length arr \<Longrightarrow> memmove_at i xs arr = Ok (take i arr @ xs @ drop (i + length xs) arr)"
  by (simp add: memmove_at_def)

lemma memmove_at_eq_Ok:
  "memmove_at i xs arr = Ok r \<longleftrightarrow> i + length xs \<le> length arr \<and> r = take i arr @ xs @ drop (i + length xs) arr"
  by (auto simp: memmove_at_def)

lemma length_memmove_at: "memmove_at i xs arr = Ok r \<Longrightarrow> length r = length arr"
  by (auto simp: memmove_at_eq_Ok)

section \<open>The context of a request\<close>

type_synonym private_key = "u8 list"

record publicKeyContext_t =
  publicKey :: "u8 list"
  address :: string
  pk_signature :: "u8 list"
  returnSignature :: bool

record transactionContext_t =
  tx_bip32PathLength :: u8
  tx_bip32Path :: "u32 list"
  transactionVersion :: transaction_version_t
  rawTx :: "u8 list"
  rawTxLength :: u32
  parsed :: parsed_tx_t

record confirm_t =
  displayType :: message_display_type_t
  printedMessageLabel :: string
  printedMessage :: string
  messageHash :: "u8 list"
  prefixedMessageHash :: "u8 list"

text \<open>The two hash contexts share their memory with what is confirmed.\<close>

datatype 'h msg_union = Prepare 'h 'h | Confirm confirm_t

record 'h messageSigningContext_t =
  msg_bip32Path :: "u32 list"
  messageLength :: u32
  processedMessageLength :: u32
  msg_union :: "'h msg_union"
  printableMessage :: "u8 list"
  isPrintableAscii :: bool
  msg_bip32PathLength :: u8
  msg_flags :: u8

text \<open>\<open>Zeroed\<close> is the union after \<^verbatim>\<open>memset(&ctx, 0, sizeof(ctx))\<close>.\<close>

datatype 'h request =
    Zeroed
  | Pk publicKeyContext_t
  | Tx transactionContext_t
  | Msg "'h messageSigningContext_t"

definition PRINTED_MESSAGE_BUFFER_LENGTH :: nat where
  "PRINTED_MESSAGE_BUFFER_LENGTH = MAX_PRINTABLE_MESSAGE_LENGTH * 2 + 1"

definition MESSAGE_SIGNING_PREFIX :: "u8 list" where
  "MESSAGE_SIGNING_PREFIX = 0x16 # map of_char ''Nimiq Signed Message:'' @ [0x0A]"

definition zero_parsed :: parsed_tx_t where
  "zero_parsed = \<lparr>type_specific = Normal_or_staking_outgoing_tx
      \<lparr>recipient = '''', extra_data_label = '''', extra_data = ''''\<rparr>,
    transaction_type = TRANSACTION_TYPE_NORMAL,
    transaction_label_type = TRANSACTION_LABEL_TYPE_REGULAR_TRANSACTION,
    tx_value = '''', tx_fee = '''', tx_network = ''''\<rparr>"

definition zero_pk :: publicKeyContext_t where
  "zero_pk = \<lparr>publicKey = replicate 65 0, address = '''', pk_signature = replicate 64 0,
    returnSignature = False\<rparr>"

definition zero_tx :: transactionContext_t where
  "zero_tx = \<lparr>tx_bip32PathLength = 0, tx_bip32Path = replicate MAX_BIP32_PATH_LENGTH 0,
    transactionVersion = 0, rawTx = replicate MAX_RAW_TX 0, rawTxLength = 0, parsed = zero_parsed\<rparr>"

definition zero_confirm :: confirm_t where
  "zero_confirm = \<lparr>displayType = MESSAGE_DISPLAY_TYPE_ASCII, printedMessageLabel = '''',
    printedMessage = replicate PRINTED_MESSAGE_BUFFER_LENGTH NUL, messageHash = replicate 32 0,
    prefixedMessageHash = replicate 32 0\<rparr>"

definition zero_msg :: "'h messageSigningContext_t" where
  "zero_msg = \<lparr>msg_bip32Path = replicate MAX_BIP32_PATH_LENGTH 0, messageLength = 0,
    processedMessageLength = 0, msg_union = Confirm zero_confirm,
    printableMessage = replicate MAX_PRINTABLE_MESSAGE_LENGTH 0, isPrintableAscii = False,
    msg_bip32PathLength = 0, msg_flags = 0\<rparr>"

section \<open>The platform\<close>

text \<open>
  \<open>derive_bip32\<close> returns the 64 bytes of \<^verbatim>\<open>privateKeyData\<close>, \<open>generate_pair\<close> the 65 bytes \<^verbatim>\<open>W\<close> of the
  public key, \<open>eddsa_sign\<close> the 64 bytes of the signature. \<open>public_key_struct\<close> is the struct that
  holds \<^verbatim>\<open>W\<close> where the app keeps one in \<^verbatim>\<open>G_io_apdu_buffer\<close>, \<open>tag_value_list_size\<close> the size of the
  list it keeps there for the NBGL review; \<open>apdu_buffer_address\<close> is where the buffer is in memory.
\<close>

record 'h platform =
  device :: device
  derive_bip32 :: "u32 list \<Rightarrow> u8 list option"
  init_private_key :: "u8 list \<Rightarrow> private_key option"
  generate_pair :: "private_key \<Rightarrow> u8 list option"
  eddsa_sign :: "private_key \<Rightarrow> u8 list \<Rightarrow> u8 list option"
  blake2b :: "u8 list \<Rightarrow> u8 list option"
  sha256_init :: 'h
  hash_update :: "'h \<Rightarrow> u8 list \<Rightarrow> 'h option"
  hash_final :: "'h \<Rightarrow> u8 list option"
  public_key_struct :: "u8 list \<Rightarrow> u8 list"
  tag_value_list_size :: nat
  apdu_buffer_address :: nat
  pk_layout :: "'h request \<Rightarrow> publicKeyContext_t"
  tx_layout :: "'h request \<Rightarrow> transactionContext_t"
  msg_layout :: "'h request \<Rightarrow> 'h messageSigningContext_t"
  prepare_layout :: "confirm_t \<Rightarrow> 'h \<times> 'h"
  confirm_layout :: "'h \<Rightarrow> 'h \<Rightarrow> confirm_t"

text \<open>Reading a member of the union.\<close>

fun req_pk :: "'h platform \<Rightarrow> 'h request \<Rightarrow> publicKeyContext_t" where
  "req_pk P (Pk c) = c"
| "req_pk P Zeroed = zero_pk"
| "req_pk P r = pk_layout P r"

fun req_tx :: "'h platform \<Rightarrow> 'h request \<Rightarrow> transactionContext_t" where
  "req_tx P (Tx c) = c"
| "req_tx P Zeroed = zero_tx"
| "req_tx P r = tx_layout P r"

fun req_msg :: "'h platform \<Rightarrow> 'h request \<Rightarrow> 'h messageSigningContext_t" where
  "req_msg P (Msg c) = c"
| "req_msg P Zeroed = zero_msg"
| "req_msg P r = msg_layout P r"

fun prepare_member :: "'h platform \<Rightarrow> 'h msg_union \<Rightarrow> 'h \<times> 'h" where
  "prepare_member P (Prepare h h') = (h, h')"
| "prepare_member P (Confirm c) = prepare_layout P c"

fun confirm_member :: "'h platform \<Rightarrow> 'h msg_union \<Rightarrow> confirm_t" where
  "confirm_member P (Confirm c) = c"
| "confirm_member P (Prepare h h') = confirm_layout P h h'"

text \<open>
  Both steps of obtaining the private key of a path: \<^verbatim>\<open>os_derive_bip32_with_seed_no_throw\<close> and
  \<^verbatim>\<open>cx_ecfp_init_private_key_no_throw\<close> on the first 32 bytes it returns.
\<close>

definition private_key_of :: "'h platform \<Rightarrow> u32 list \<Rightarrow> u8 \<Rightarrow> private_key option" where
  "private_key_of P path path_length =
     Option.bind (derive_bip32 P (take (unat path_length) path)) (\<lambda>data. init_private_key P (take 32 data))"

text \<open>An SDK function with the error code for its failure.\<close>

definition sdk :: "'a option \<Rightarrow> 'e \<Rightarrow> ('e, 'a) result" where
  "sdk x e = (case x of Some y \<Rightarrow> Ok y | None \<Rightarrow> Err e)"

lemma sdk_simps [simp]: "sdk (Some y) e = Ok y" "sdk None e = Err e"
  by (simp_all add: sdk_def)

lemma sdk_eq_Ok [simp]: "sdk x e = Ok y \<longleftrightarrow> x = Some y"
  by (cases x) simp_all

lemma delivers_sdk [simp]: "delivers Q (sdk x e) \<longleftrightarrow> (\<forall>y. x = Some y \<longrightarrow> Q y)"
  by (cases x) simp_all

text \<open>The 32 bytes of a public key: \<^verbatim>\<open>W\<close> in reverse, and the parity of the other coordinate.\<close>

definition compress_public_key :: "u8 list \<Rightarrow> u8 list" where
  "compress_public_key W =
     (let k = map (\<lambda>i. W ! (64 - i)) [0..<32] in
      if W ! 32 AND 1 \<noteq> 0 then k[31 := k ! 31 OR 0x80] else k)"

text \<open>The arrays of the contexts have the sizes they are declared with.\<close>

definition pk_arrays :: "publicKeyContext_t \<Rightarrow> bool" where
  "pk_arrays c = (length (publicKey c) = 65 \<and> length (pk_signature c) = 64)"

definition tx_arrays :: "transactionContext_t \<Rightarrow> bool" where
  "tx_arrays c = (length (rawTx c) = MAX_RAW_TX \<and> length (tx_bip32Path c) = MAX_BIP32_PATH_LENGTH)"

definition confirm_arrays :: "confirm_t \<Rightarrow> bool" where
  "confirm_arrays c = (length (printedMessage c) = PRINTED_MESSAGE_BUFFER_LENGTH \<and>
     length (messageHash c) = 32 \<and> length (prefixedMessageHash c) = 32)"

definition msg_arrays :: "'h messageSigningContext_t \<Rightarrow> bool" where
  "msg_arrays m = (length (printableMessage m) = MAX_PRINTABLE_MESSAGE_LENGTH \<and>
     length (msg_bip32Path m) = MAX_BIP32_PATH_LENGTH \<and>
     (case msg_union m of Prepare h h' \<Rightarrow> True | Confirm c \<Rightarrow> confirm_arrays c))"

lemmas arrays_defs = pk_arrays_def tx_arrays_def confirm_arrays_def msg_arrays_def

definition platform_ok :: "'h platform \<Rightarrow> bool" where
  "platform_ok P =
     ((\<forall>k W. generate_pair P k = Some W \<longrightarrow> length W = 65) \<and>
      (\<forall>k m s. eddsa_sign P k m = Some s \<longrightarrow> length s = 64) \<and>
      (\<forall>m h. blake2b P m = Some h \<longrightarrow> length h = 32) \<and>
      (\<forall>h d. hash_final P h = Some d \<longrightarrow> length d = 32) \<and>
      (\<forall>W. length (public_key_struct P W) \<le> 253) \<and> tag_value_list_size P \<le> 257 \<and>
      (\<forall>r. pk_arrays (pk_layout P r)) \<and> (\<forall>r. tx_arrays (tx_layout P r)) \<and>
      (\<forall>r. msg_arrays (msg_layout P r)) \<and> (\<forall>h h'. confirm_arrays (confirm_layout P h h')))"

text \<open>
  The incremental hash functions compute \<open>sha256\<close> of the concatenation of the data they were given:
  a context stands for the data hashed so far.
\<close>

definition incremental_hash :: "'h platform \<Rightarrow> ('h \<Rightarrow> u8 list) \<Rightarrow> (u8 list \<Rightarrow> u8 list) \<Rightarrow> bool" where
  "incremental_hash P hashed sha256 =
     (hashed (sha256_init P) = [] \<and>
      (\<forall>h d h'. hash_update P h d = Some h' \<longrightarrow> hashed h' = hashed h @ d) \<and>
      (\<forall>h d. hash_final P h = Some d \<longrightarrow> d = sha256 (hashed h)))"

lemma platform_okD:
  assumes "platform_ok P"
  shows "generate_pair P k = Some W \<Longrightarrow> length W = 65"
    and "eddsa_sign P k data = Some s \<Longrightarrow> length s = 64"
    and "blake2b P data = Some h \<Longrightarrow> length h = 32"
    and "hash_final P context = Some d \<Longrightarrow> length d = 32"
    and "length (public_key_struct P W) \<le> 253" and "tag_value_list_size P \<le> 257"
    and "confirm_arrays (confirm_layout P g g')"
  using assms by (auto simp: platform_ok_def)

lemma hash_ok_platform: "platform_ok P \<Longrightarrow> hash_ok (blake2b P)"
  by (auto simp: platform_ok_def)

lemma incremental_hashD:
  assumes "incremental_hash P hashed sha256"
  shows "hashed (sha256_init P) = []"
    and "hash_update P h d = Some h' \<Longrightarrow> hashed h' = hashed h @ d"
    and "hash_final P h = Some x \<Longrightarrow> x = sha256 (hashed h)"
  using assms by (auto simp: incremental_hash_def)

text \<open>Whatever the union holds, its members are made of arrays of the right sizes.\<close>

fun request_ok :: "'h request \<Rightarrow> bool" where
  "request_ok Zeroed = True"
| "request_ok (Pk c) = pk_arrays c"
| "request_ok (Tx c) = tx_arrays c"
| "request_ok (Msg m) = msg_arrays m"

lemma request_members:
  assumes "platform_ok P" "request_ok r"
  shows "pk_arrays (req_pk P r)" "tx_arrays (req_tx P r)" "msg_arrays (req_msg P r)"
  using assms by (cases r; simp add: platform_ok_def arrays_defs zero_pk_def zero_tx_def zero_msg_def
      zero_confirm_def)+

lemma confirm_member_arrays:
  "platform_ok P \<Longrightarrow> msg_arrays m \<Longrightarrow> confirm_arrays (confirm_member P (msg_union m))"
  by (cases "msg_union m") (simp_all add: platform_okD msg_arrays_def)

lemma length_compress_public_key [simp]: "length (compress_public_key W) = 32"
  by (simp add: compress_public_key_def Let_def)

section \<open>The state of the app\<close>

text \<open>
  The global variables \<^verbatim>\<open>ctx\<close> and \<^verbatim>\<open>G_io_apdu_buffer\<close>, and what the screen shows. The pages of the
  BAGL message flow are printed when the user opens them, so the flow has no content of its own.
\<close>

datatype shown_screen =
    Main_menu
  | Address_review string
  | Transaction_review screen
  | Message_flow
  | Message_review "string option" "page list"

record 'h app_state =
  ctx_req :: "'h request"
  ctx_u2fTimer :: u16
  G_io_apdu_buffer :: "u8 list"
  on_screen :: shown_screen

text \<open>\<^verbatim>\<open>memset(&ctx, 0, sizeof(ctx))\<close>\<close>

definition wipe_ctx :: "'h app_state \<Rightarrow> 'h app_state" where
  "wipe_ctx st = st\<lparr>ctx_req := Zeroed, ctx_u2fTimer := 0\<rparr>"

definition IO_APDU_BUFFER_SIZE :: nat where
  "IO_APDU_BUFFER_SIZE = 5 + 255"

definition state_ok :: "'h app_state \<Rightarrow> bool" where
  "state_ok st = (request_ok (ctx_req st) \<and> length (G_io_apdu_buffer st) = IO_APDU_BUFFER_SIZE)"

text \<open>
  Temporary use of the APDU buffer for data other than bytes starts at the first address in it that
  is a multiple of the size of a pointer.
\<close>

definition POINTER_SIZE :: nat where
  "POINTER_SIZE = 4"

definition POINTER_MEMORY_ALIGNMENT_OFFSET :: "nat \<Rightarrow> nat" where
  "POINTER_MEMORY_ALIGNMENT_OFFSET pointer = pointer mod POINTER_SIZE"

definition temporary_offset :: "'h platform \<Rightarrow> nat" where
  "temporary_offset P =
     (if POINTER_MEMORY_ALIGNMENT_OFFSET (apdu_buffer_address P) \<noteq> 0
      then POINTER_SIZE - POINTER_MEMORY_ALIGNMENT_OFFSET (apdu_buffer_address P) else 0)"

lemma temporary_offset_aligned:
  "(apdu_buffer_address P + temporary_offset P) mod POINTER_SIZE = 0" "temporary_offset P \<le> 3"
proof -
  have "\<exists>q r. a = 4 * q + r \<and> r < 4" for a :: nat
    by (metis mult_div_mod_eq mod_less_divisor zero_less_numeral)
  then obtain q r where a: "apdu_buffer_address P = 4 * q + r" "r < 4" by blast
  show "(apdu_buffer_address P + temporary_offset P) mod POINTER_SIZE = 0" "temporary_offset P \<le> 3"
    using a(2) by (auto simp: temporary_offset_def POINTER_MEMORY_ALIGNMENT_OFFSET_def POINTER_SIZE_def a(1))
qed

text \<open>Temporary use of the APDU buffer by a review on NBGL devices, which zeroes what it used.\<close>

definition review_scratch :: "'h platform \<Rightarrow> 'h app_state \<Rightarrow> 'h app_state" where
  "review_scratch P st =
     (case device P of
        BAGL \<Rightarrow> st
      | NBGL \<Rightarrow> st\<lparr>G_io_apdu_buffer := take (temporary_offset P) (G_io_apdu_buffer st) @
                    replicate (tag_value_list_size P) 0 @
                    drop (temporary_offset P + tag_value_list_size P) (G_io_apdu_buffer st)\<rparr>)"

lemma review_scratch_simps [simp]:
  "ctx_req (review_scratch P st) = ctx_req st" "on_screen (review_scratch P st) = on_screen st"
  "ctx_u2fTimer (review_scratch P st) = ctx_u2fTimer st"
  by (simp_all add: review_scratch_def split: device.split)

lemma length_review_scratch:
  "platform_ok P \<Longrightarrow> length (G_io_apdu_buffer st) = IO_APDU_BUFFER_SIZE \<Longrightarrow>
    length (G_io_apdu_buffer (review_scratch P st)) = IO_APDU_BUFFER_SIZE"
  using platform_okD(6) [of P] temporary_offset_aligned(2) [of P]
  by (auto simp: review_scratch_def IO_APDU_BUFFER_SIZE_def split: device.split)

section \<open>Derivation paths in requests\<close>

definition path_bytes :: "u32 list \<Rightarrow> u8 list" where
  "path_bytes path = of_nat (length path) # concat (map (\<lambda>x. be_bytes 4 (unat x)) path)"

lemma read_u32s_OkD:
  assumes "read_u32s n mem c = Ok (xs, c')" "wf_cursor mem c"
  shows "wf_cursor mem c' \<and> length xs = n \<and> view mem c = concat (map (\<lambda>x. be_bytes 4 (unat x)) xs) @ view mem c'"
  using assms
proof (induction n arbitrary: c xs)
  case (Suc n)
  then obtain x ys c1 where 1: "read_u32 mem c = Ok (x, c1)" "read_u32s n mem c1 = Ok (ys, c')" "xs = x # ys"
    by (auto simp: andthen_eq_Ok)
  have "wf_cursor mem c1 \<and> view mem c = be_bytes 4 (unat x) @ view mem c1"
    by (rule r32.run_elim [of mem c "()" "\<lambda>x c. Ok (x, c)" "(x, c1)"]) (use 1 Suc.prems in simp_all)
  with Suc.IH [OF 1(2)] 1(3) show ?case by simp
qed simp

lemma read_bip32_path_OkD:
  assumes "read_bip32_path mem c = Ok ((path, n), c')" "wf_cursor mem c"
  shows "wf_cursor mem c' \<and> length path = unat n \<and> 1 \<le> length path \<and> length path \<le> MAX_BIP32_PATH_LENGTH \<and>
    view mem c = path_bytes path @ view mem c'"
proof -
  obtain b c1 where 1: "read_u8 mem c = Ok (b, c1)" "\<not> (b < 1 \<or> unat b > MAX_BIP32_PATH_LENGTH)"
    "read_u32s (unat b) mem c1 = Ok (path, c')" "n = b"
    using assms(1) by (auto simp: read_bip32_path_def andthen_eq_Ok)
  have "wf_cursor mem c1 \<and> view mem c = b # view mem c1"
    by (rule read_elims_u8 [of mem c "()" "\<lambda>x c. Ok (x, c)" "(b, c1)"]) (use 1 assms(2) in simp_all)
  with read_u32s_OkD [OF 1(3)] 1(2,4) show ?thesis
    by (auto simp: path_bytes_def word_less_nat_alt)
qed

lemma read_elims_bip32_path [read_elims]:
  assumes "andthen (or_error (read_bip32_path mem c) e) (\<lambda>(p, c). k p c) = Ok r" "wf_cursor mem c"
  obtains path n c' where "wf_cursor mem c'" "length path = unat n" "1 \<le> length path"
    "length path \<le> MAX_BIP32_PATH_LENGTH" "view mem c = path_bytes path @ view mem c'" "k (path, n) c' = Ok r"
proof -
  obtain path n c' where "read_bip32_path mem c = Ok ((path, n), c')" "k (path, n) c' = Ok r"
    using assms(1) by (auto simp: andthen_eq_Ok)
  with read_bip32_path_OkD [OF this(1) assms(2)] show thesis by (intro that) auto
qed

lemma read_u8_OkD:
  "read_u8 mem c = Ok (b, c') \<Longrightarrow> wf_cursor mem c \<Longrightarrow> wf_cursor mem c' \<and> view mem c = b # view mem c'"
  by (rule read_elims_u8 [of mem c "()" "\<lambda>x c. Ok (x, c)" "(b, c')"]) simp_all

lemma read_u32_OkD:
  "read_u32 mem c = Ok (x, c') \<Longrightarrow> wf_cursor mem c \<Longrightarrow>
    wf_cursor mem c' \<and> view mem c = be_bytes 4 (unat x) @ view mem c'"
  by (rule r32.run_elim [of mem c "()" "\<lambda>x c. Ok (x, c)" "(x, c')"]) simp_all

lemma advance_0 [simp]: "advance 0 c = c"
  by (cases c rule: cursor_cases) simp_all

lemma read_u32s_advance:
  "read_u32s n mem c = Ok (xs, c') \<Longrightarrow> wf_cursor mem c \<Longrightarrow> c' = advance (4 * n) c"
proof (induction n arbitrary: c xs)
  case (Suc n)
  then obtain x ys c1 where 1: "read_u32 mem c = Ok (x, c1)" "read_u32s n mem c1 = Ok (ys, c')"
    by (auto simp: andthen_eq_Ok)
  note c1 = r32.read_OkD [OF Suc.prems(2) 1(1)]
  from Suc.IH [OF 1(2) c1(1)] show ?case by (simp add: c1(5) advance_advance add.commute)
qed simp

lemma read_bip32_path_advance:
  assumes "read_bip32_path mem c = Ok ((path, n), c')" "wf_cursor mem c"
  shows "c' = advance (1 + 4 * unat n) c"
proof -
  obtain c1 where 1: "read_u8 mem c = Ok (n, c1)" "read_u32s (unat n) mem c1 = Ok (path, c')"
    using assms(1) by (auto simp: read_bip32_path_def andthen_eq_Ok)
  note c1 = r8.read_OkD [OF assms(2) 1(1)]
  from read_u32s_advance [OF 1(2) c1(1)] show ?thesis by (simp add: c1(5) advance_advance)
qed

text \<open>The data of a command: the bytes behind its header, as many as its length byte says.\<close>

definition OFFSET_CDATA :: nat where
  "OFFSET_CDATA = 5"

lemma wf_command_data:
  "length mem = IO_APDU_BUFFER_SIZE \<Longrightarrow> wf_cursor mem (Some OFFSET_CDATA, ucast (lc :: u8))"
proof -
  have "unat (ucast lc :: u16) = unat lc" by (rule unat_u16_of_u8)
  then show "length mem = IO_APDU_BUFFER_SIZE \<Longrightarrow> ?thesis"
    using unat_bounds(1) [of lc] by (simp add: OFFSET_CDATA_def IO_APDU_BUFFER_SIZE_def)
qed

section \<open>An example platform\<close>

text \<open>
  A platform on which the laws assumed of the SDK hold: hash contexts are the bytes hashed so far,
  the hash of a message is its first 32 bytes, a signature is the first 64 bytes of the message, each
  filled up with zeros.
\<close>

definition pad :: "nat \<Rightarrow> u8 list \<Rightarrow> u8 list" where
  "pad n bs = take n (bs @ replicate n 0)"

definition example_platform :: "device \<Rightarrow> u8 list platform" where
  "example_platform d = \<lparr>device = d, derive_bip32 = (\<lambda>path. Some (replicate 64 7)),
    init_private_key = Some, generate_pair = (\<lambda>k. Some (pad 65 k)),
    eddsa_sign = (\<lambda>k m. Some (pad 64 m)), blake2b = example_hash,
    sha256_init = [], hash_update = (\<lambda>h d. Some (h @ d)), hash_final = (\<lambda>h. Some (pad 32 h)),
    public_key_struct = pad 73, tag_value_list_size = 32, apdu_buffer_address = 0,
    pk_layout = (\<lambda>_. zero_pk), tx_layout = (\<lambda>_. zero_tx), msg_layout = (\<lambda>_. zero_msg),
    prepare_layout = (\<lambda>_. ([], [])), confirm_layout = (\<lambda>_ _. zero_confirm)\<rparr>"

lemma length_pad [simp]: "length (pad n bs) = n"
  by (simp add: pad_def)

lemma example_platform_simps [simp]:
  "device (example_platform d) = d" "blake2b (example_platform d) = example_hash"
  by (simp_all add: example_platform_def)

lemma example_incremental_hash: "incremental_hash (example_platform d) id (pad 32)"
  by (auto simp: incremental_hash_def example_platform_def)

lemma example_platform_ok [simp]: "platform_ok (example_platform d)"
  by (simp add: platform_ok_def example_platform_def example_hash_def arrays_defs zero_pk_def zero_tx_def
      zero_msg_def zero_confirm_def)

text \<open>The state before the first command, with some bytes in the APDU buffer.\<close>

definition apdu_state :: "u8 list \<Rightarrow> 'h app_state" where
  "apdu_state apdu = \<lparr>ctx_req = Zeroed, ctx_u2fTimer = 0,
    G_io_apdu_buffer = apdu @ replicate (IO_APDU_BUFFER_SIZE - length apdu) 0, on_screen = Main_menu\<rparr>"

lemma apdu_state_ok: "length apdu \<le> IO_APDU_BUFFER_SIZE \<Longrightarrow> state_ok (apdu_state apdu)"
  by (simp add: apdu_state_def state_ok_def)

lemma apdu_state_data:
  "length header = OFFSET_CDATA \<Longrightarrow> length data < 256 \<Longrightarrow>
    view (G_io_apdu_buffer (apdu_state (header @ data))) (Some OFFSET_CDATA, of_nat (length data)) = data"
  by (simp add: apdu_state_def unat_of_nat)

end
