(* ===== verification/Message_Signing.thy ===== *)
theory Message_Signing
  imports Platform
begin

text \<open>
  Signing of messages: \<^verbatim>\<open>handle_sign_message\<close> of \<^verbatim>\<open>src/src/main.c\<close>, the printed message of
  \<^verbatim>\<open>src/src/nimiq_ux_utils_message_signing.c\<close> and the message reviews of
  \<^verbatim>\<open>src/src/nimiq_ux_bagl.c\<close> and \<^verbatim>\<open>src/src/nimiq_ux_nbgl.c\<close>. A chunk of the message is the rest of
  the APDU data behind a cursor, as in the parser.

  The lemmas show what a sequence of chunks leaves in the context, that what is signed is the hash
  of prefix, length and the whole message, and what the review shows of the message.
\<close>

section \<open>The printed message\<close>

text \<open>\<^verbatim>\<open>LEDGER_ASSERT(f(...) == ERROR_NONE)\<close>\<close>

definition assert_no_error :: "(error_t, 'a) result \<Rightarrow> ('e, 'a) result" where
  "assert_no_error r = (case r of Ok x \<Rightarrow> Ok x | Err _ \<Rightarrow> Fault Assertion_failed | Fault f \<Rightarrow> Fault f)"

definition print_in_confirm ::
    "string \<Rightarrow> string \<Rightarrow> confirm_t \<Rightarrow> 'h messageSigningContext_t \<Rightarrow> 'h messageSigningContext_t" where
  "print_in_confirm label out c m =
     m\<lparr>msg_union := Confirm (c\<lparr>printedMessageLabel := label, printedMessage := out\<rparr>)\<rparr>"

definition ux_message_signing_prepare_printed_message ::
    "'h platform \<Rightarrow> 'h messageSigningContext_t \<Rightarrow> ('e, 'h messageSigningContext_t) result" where
  "ux_message_signing_prepare_printed_message P m =
     (let c = confirm_member P (msg_union m) in
      case displayType c of
        MESSAGE_DISPLAY_TYPE_ASCII \<Rightarrow>
          andthen (bytes_at (printableMessage m) (Some 0) (unat (messageLength m))) (\<lambda>data.
          andthen (memmove_at 0 (map char_of_byte data) (printedMessage c)) (\<lambda>out.
          andthen (memmove_at (unat (messageLength m)) [NUL] out) (\<lambda>out.
          Ok (print_in_confirm ''Message'' out c m))))
      | MESSAGE_DISPLAY_TYPE_HEX \<Rightarrow>
          andthen (bytes_at (printableMessage m) (Some 0) (unat (ucast (messageLength m) :: u16))) (\<lambda>data.
          andthen (assert_no_error (print_hex data (printedMessage c) (length (printedMessage c)))) (\<lambda>out.
          Ok (print_in_confirm ''Message Hex'' out c m)))
      | MESSAGE_DISPLAY_TYPE_HASH \<Rightarrow>
          andthen (assert_no_error (print_hex (messageHash c) (printedMessage c) (length (printedMessage c)))) (\<lambda>out.
          Ok (print_in_confirm ''Message Hash'' out c m)))"

section \<open>The review\<close>

definition set_display_type ::
    "'h platform \<Rightarrow> message_display_type_t \<Rightarrow> 'h messageSigningContext_t \<Rightarrow> 'h messageSigningContext_t" where
  "set_display_type P t m = m\<lparr>msg_union := Confirm ((confirm_member P (msg_union m))\<lparr>displayType := t\<rparr>)\<rparr>"

text \<open>BAGL: the pages that print into the context when they are opened, and the optional ones.\<close>

definition ux_message_flow_message_length_step ::
    "'h platform \<Rightarrow> 'h messageSigningContext_t \<Rightarrow> ('e, 'h messageSigningContext_t \<times> page) result" where
  "ux_message_flow_message_length_step P m =
     (let c = confirm_member P (msg_union m) in
      andthen (snprintf_at 0 (length (printedMessage c)) (dec (unat (messageLength m))) (printedMessage c)) (\<lambda>out.
      Ok (m\<lparr>msg_union := Confirm (c\<lparr>printedMessage := out\<rparr>)\<rparr>, ''Message Length'', c_string out)))"

definition ux_message_flow_message_step ::
    "'h platform \<Rightarrow> 'h messageSigningContext_t \<Rightarrow> ('e, 'h messageSigningContext_t \<times> page) result" where
  "ux_message_flow_message_step P m =
     andthen (ux_message_signing_prepare_printed_message P m) (\<lambda>m.
     let c = confirm_member P (msg_union m) in
     Ok (m, printedMessageLabel c, c_string (printedMessage c)))"

definition ux_message_flow_display_ascii_step :: "'h platform \<Rightarrow> 'h messageSigningContext_t \<Rightarrow> bool" where
  "ux_message_flow_display_ascii_step P m =
     (isPrintableAscii m \<and> displayType (confirm_member P (msg_union m)) \<noteq> MESSAGE_DISPLAY_TYPE_ASCII)"

definition ux_message_flow_display_hex_step :: "'h platform \<Rightarrow> 'h messageSigningContext_t \<Rightarrow> bool" where
  "ux_message_flow_display_hex_step P m =
     (unat (messageLength m) \<le> MAX_PRINTABLE_MESSAGE_LENGTH \<and>
      displayType (confirm_member P (msg_union m)) \<noteq> MESSAGE_DISPLAY_TYPE_HEX)"

definition ux_message_flow_display_hash_step :: "'h platform \<Rightarrow> 'h messageSigningContext_t \<Rightarrow> bool" where
  "ux_message_flow_display_hash_step P m =
     (displayType (confirm_member P (msg_union m)) \<noteq> MESSAGE_DISPLAY_TYPE_HASH)"

text \<open>NBGL: the review entry is printed when the review starts.\<close>

fun message_review_subtitle :: "message_display_type_t \<Rightarrow> string option" where
  "message_review_subtitle MESSAGE_DISPLAY_TYPE_ASCII = None"
| "message_review_subtitle MESSAGE_DISPLAY_TYPE_HEX = Some ''The message is displayed in HEX format.''"
| "message_review_subtitle MESSAGE_DISPLAY_TYPE_HASH = Some ''The message is displayed as SHA-256 hash.''"

definition ui_message_prepare_review_entries ::
    "'h platform \<Rightarrow> message_display_type_t \<Rightarrow> 'h messageSigningContext_t \<Rightarrow>
     ('e, 'h messageSigningContext_t \<times> page list) result" where
  "ui_message_prepare_review_entries P t m =
     andthen (ux_message_signing_prepare_printed_message P (set_display_type P t m)) (\<lambda>m.
     let c = confirm_member P (msg_union m) in
     andthen (review_entries_add (printedMessageLabel c) (Ok (c_string (printedMessage c)))
       review_entries_initialize) (\<lambda>entries.
     Ok (m, entries)))"

definition ui_message_signing ::
    "'h platform \<Rightarrow> message_display_type_t \<Rightarrow> 'h app_state \<Rightarrow> ('e, 'h app_state) result" where
  "ui_message_signing P t st =
     (let m = req_msg P (ctx_req st) in
      case device P of
        BAGL \<Rightarrow> Ok (st\<lparr>ctx_req := Msg (set_display_type P t m), on_screen := Message_flow\<rparr>)
      | NBGL \<Rightarrow>
          andthen (ui_message_prepare_review_entries P t m) (\<lambda>(m, entries).
          Ok (review_scratch P (st\<lparr>ctx_req := Msg m,
            on_screen := Message_review (message_review_subtitle t) entries\<rparr>))))"

section \<open>The request\<close>

definition P1_FIRST :: u8 where "P1_FIRST = 0x00"
definition P1_MORE :: u8 where "P1_MORE = 0x80"
definition P2_LAST :: u8 where "P2_LAST = 0x00"
definition P2_MORE :: u8 where "P2_MORE = 0x80"

lemmas chunk_parameter_defs = P1_FIRST_def P1_MORE_def P2_LAST_def P2_MORE_def

text \<open>
  The head of the first chunk: derivation path, flags and message length, from which the hash
  contexts are set up with the prefix and the printed length.
\<close>

definition sign_message_first ::
    "'h platform \<Rightarrow> u8 list \<Rightarrow> cursor \<Rightarrow> 'h messageSigningContext_t \<Rightarrow>
     (sw_t, 'h messageSigningContext_t \<times> cursor) result" where
  "sign_message_first P mem cur m =
     andthen (or_error (read_bip32_path mem cur) SW_WRONG_DATA_LENGTH) (\<lambda>((path, path_length), cur).
     andthen (or_error (read_u8 mem cur) SW_WRONG_DATA_LENGTH) (\<lambda>(flags, cur).
     andthen (or_error (read_u32 mem cur) SW_WRONG_DATA_LENGTH) (\<lambda>(len, cur).
     andthen (sdk (hash_update P (sha256_init P) MESSAGE_SIGNING_PREFIX) SW_CRYPTOGRAPHY_FAIL) (\<lambda>h.
     andthen (sdk (hash_update P h (map of_char (snprintf STRING_LENGTH_UINT32 (dec (unat len)))))
       SW_CRYPTOGRAPHY_FAIL) (\<lambda>h.
     Ok (m\<lparr>msg_bip32Path := path @ drop (length path) (msg_bip32Path m),
           msg_bip32PathLength := path_length, msg_flags := flags, messageLength := len,
           processedMessageLength := 0,
           isPrintableAscii := (unat len \<le> MAX_PRINTABLE_MESSAGE_LENGTH),
           msg_union := Prepare (sha256_init P) h\<rparr>, cur))))))"

text \<open>The part of \<^verbatim>\<open>printableMessage\<close> that a chunk fills, for messages that are short enough.\<close>

definition store_printable ::
    "u8 list \<Rightarrow> 'h messageSigningContext_t \<Rightarrow> ('e, 'h messageSigningContext_t) result" where
  "store_printable data m =
     (if unat (messageLength m) \<le> MAX_PRINTABLE_MESSAGE_LENGTH
      then andthen (memmove_at (unat (processedMessageLength m)) data (printableMessage m)) (\<lambda>bs.
        Ok (m\<lparr>printableMessage := bs, isPrintableAscii := isPrintableAscii m \<and> is_printable_ascii data\<rparr>))
      else Ok m)"

definition update_hashes ::
    "'h platform \<Rightarrow> u8 list \<Rightarrow> 'h messageSigningContext_t \<Rightarrow> (sw_t, 'h messageSigningContext_t) result" where
  "update_hashes P data m =
     (case prepare_member P (msg_union m) of (h, h') \<Rightarrow>
      andthen (sdk (hash_update P h data) SW_CRYPTOGRAPHY_FAIL) (\<lambda>h.
      andthen (sdk (hash_update P h' data) SW_CRYPTOGRAPHY_FAIL) (\<lambda>h'.
      Ok (m\<lparr>msg_union := Prepare h h'\<rparr>))))"

text \<open>
  The message bytes of a chunk. The sum of the length check is computed with 32 bits, the width of
  \<^verbatim>\<open>unsigned long\<close> on the devices.
\<close>

definition sign_message_data ::
    "'h platform \<Rightarrow> u8 list \<Rightarrow> cursor \<Rightarrow> 'h messageSigningContext_t \<Rightarrow>
     (sw_t, 'h messageSigningContext_t) result" where
  "sign_message_data P mem cur m =
     (if snd cur = 0 then Ok m
      else
        andthen (check (processedMessageLength m + ucast (snd cur) > messageLength m)
          SW_WRONG_DATA_LENGTH) (\<lambda>_.
        andthen (bytes_at mem (fst cur) (unat (snd cur))) (\<lambda>data.
        andthen (store_printable data m) (\<lambda>m.
        andthen (update_hashes P data m) (\<lambda>m.
        Ok (m\<lparr>processedMessageLength := processedMessageLength m + ucast (snd cur)\<rparr>))))))"

text \<open>The hashes overwrite the contexts, in memory that the contexts do not reach.\<close>

definition sign_message_hashes ::
    "'h platform \<Rightarrow> 'h messageSigningContext_t \<Rightarrow> (sw_t, 'h messageSigningContext_t) result" where
  "sign_message_hashes P m =
     andthen (check (processedMessageLength m \<noteq> messageLength m) SW_WRONG_DATA_LENGTH) (\<lambda>_.
     case prepare_member P (msg_union m) of (h, h') \<Rightarrow>
     andthen (sdk (hash_final P h) SW_CRYPTOGRAPHY_FAIL) (\<lambda>d.
     andthen (sdk (hash_final P h') SW_CRYPTOGRAPHY_FAIL) (\<lambda>d'.
     Ok (m\<lparr>msg_union := Confirm ((confirm_layout P h h')\<lparr>messageHash := d, prefixedMessageHash := d'\<rparr>)\<rparr>))))"

definition message_display_type :: "'h messageSigningContext_t \<Rightarrow> message_display_type_t" where
  "message_display_type m =
     (if isPrintableAscii m \<and>
         msg_flags m AND (MESSAGE_FLAG_PREFER_DISPLAY_TYPE_HEX OR MESSAGE_FLAG_PREFER_DISPLAY_TYPE_HASH) = 0
      then MESSAGE_DISPLAY_TYPE_ASCII
      else if unat (messageLength m) \<le> MAX_PRINTABLE_MESSAGE_LENGTH \<and>
         msg_flags m AND MESSAGE_FLAG_PREFER_DISPLAY_TYPE_HASH = 0
      then MESSAGE_DISPLAY_TYPE_HEX
      else MESSAGE_DISPLAY_TYPE_HASH)"

text \<open>What follows the head of the first chunk, and the whole handling of the other chunks.\<close>

definition sign_message_chunk ::
    "'h platform \<Rightarrow> u8 \<Rightarrow> 'h messageSigningContext_t \<Rightarrow> cursor \<Rightarrow> 'h app_state \<Rightarrow>
     (sw_t, 'h app_state \<times> bool) result" where
  "sign_message_chunk P p2 m cur st =
     andthen (sign_message_data P (G_io_apdu_buffer st) cur m) (\<lambda>m.
     if p2 = P2_MORE then Ok (st\<lparr>ctx_req := Msg m\<rparr>, False)
     else
       andthen (sign_message_hashes P m) (\<lambda>m.
       andthen (ui_message_signing P (message_display_type m) (st\<lparr>ctx_req := Msg m\<rparr>)) (\<lambda>st.
       Ok (st, True))))"

definition handle_sign_message ::
    "'h platform \<Rightarrow> u8 \<Rightarrow> u8 \<Rightarrow> cursor \<Rightarrow> 'h app_state \<Rightarrow> (sw_t, 'h app_state \<times> bool) result" where
  "handle_sign_message P p1 p2 cur st =
     andthen (check (p1 \<noteq> P1_FIRST \<and> p1 \<noteq> P1_MORE \<or> p2 \<noteq> P2_LAST \<and> p2 \<noteq> P2_MORE) SW_WRONG_P1P2) (\<lambda>_.
     andthen
       (if p1 = P1_FIRST
        then sign_message_first P (G_io_apdu_buffer st) cur (req_msg P (ctx_req st))
        else Ok (req_msg P (ctx_req st), cur)) (\<lambda>(m, cur).
     sign_message_chunk P p2 m cur st))"

section \<open>Messages in progress\<close>

text \<open>What stands in front of the message in the data whose hash is signed.\<close>

definition message_prefix :: "u32 \<Rightarrow> u8 list" where
  "message_prefix len = MESSAGE_SIGNING_PREFIX @ map of_char (dec (unat len))"

text \<open>
  The context after some chunks: \<open>data\<close> are the message bytes received so far. The length counter
  wraps around at \<open>2\<^sup>3\<^sup>2\<close>, the hash contexts do not.
\<close>

definition receiving ::
    "('h \<Rightarrow> u8 list) \<Rightarrow> u32 list \<Rightarrow> u8 \<Rightarrow> u32 \<Rightarrow> u8 list \<Rightarrow> 'h messageSigningContext_t \<Rightarrow> bool" where
  "receiving hashed path flags len data m =
     (unat (msg_bip32PathLength m) = length path \<and> take (length path) (msg_bip32Path m) = path \<and> msg_flags m = flags \<and>
      messageLength m = len \<and> processedMessageLength m = of_nat (length data) \<and>
      (\<exists>h h'. msg_union m = Prepare h h' \<and> hashed h = data \<and> hashed h' = message_prefix len @ data) \<and>
      (if unat len \<le> MAX_PRINTABLE_MESSAGE_LENGTH
       then length data \<le> unat len \<and> take (length data) (printableMessage m) = data \<and>
         isPrintableAscii m = is_printable_ascii data
       else \<not> isPrintableAscii m))"

lemma snprintf_dec_u32: "snprintf STRING_LENGTH_UINT32 (dec (unat (len :: u32))) = dec (unat len)"
  using length_dec_u32 [of len] by (simp add: snprintf_def STRING_LENGTH_UINT32_def sizeof_def)

lemma is_printable_ascii_append:
  "is_printable_ascii (xs @ ys) \<longleftrightarrow> is_printable_ascii xs \<and> is_printable_ascii ys"
  by (auto simp: is_printable_ascii_iff)

lemma sign_message_first_OkD:
  assumes "sign_message_first P mem cur m = Ok (m', cur')" "wf_cursor mem cur"
    and "incremental_hash P hashed sha256" "msg_arrays m"
  obtains path flags len where "view mem cur = path_bytes path @ flags # be_bytes 4 (unat len) @ view mem cur'"
    "1 \<le> length path" "length path \<le> MAX_BIP32_PATH_LENGTH" "wf_cursor mem cur'"
    "receiving hashed path flags len [] m'" "msg_arrays m'"
proof -
  note h = incremental_hashD [OF assms(3)]
  obtain path n c flags c1 len g g' where r: "read_bip32_path mem cur = Ok ((path, n), c)"
      "read_u8 mem c = Ok (flags, c1)" "read_u32 mem c1 = Ok (len, cur')"
    and m': "hash_update P (sha256_init P) MESSAGE_SIGNING_PREFIX = Some g"
      "hash_update P g (map of_char (dec (unat len))) = Some g'"
      "m' = m\<lparr>msg_bip32Path := path @ drop (length path) (msg_bip32Path m), msg_bip32PathLength := n,
        msg_flags := flags, messageLength := len, processedMessageLength := 0,
        isPrintableAscii := (unat len \<le> MAX_PRINTABLE_MESSAGE_LENGTH),
        msg_union := Prepare (sha256_init P) g'\<rparr>"
    using assms(1) by (auto simp: sign_message_first_def andthen_eq_Ok snprintf_dec_u32)
  note path = read_bip32_path_OkD [OF r(1) assms(2)]
  have flags: "wf_cursor mem c1 \<and> view mem c = flags # view mem c1" using read_u8_OkD [OF r(2)] path by blast
  have len: "wf_cursor mem cur' \<and> view mem c1 = be_bytes 4 (unat len) @ view mem cur'"
    using read_u32_OkD [OF r(3)] flags by blast
  have "receiving hashed path flags len [] m'"
    using path h(2) [OF m'(1)] h(2) [OF m'(2)] by (auto simp: receiving_def m'(3) message_prefix_def h(1))
  moreover have "msg_arrays m'" using path assms(4) by (simp add: m'(3) msg_arrays_def)
  ultimately show thesis using path flags len by (intro that [of path flags len]) simp_all
qed

lemma receiving_processed:
  assumes "receiving hashed path flags len data m" "unat len \<le> MAX_PRINTABLE_MESSAGE_LENGTH"
  shows "unat (processedMessageLength m) = length data" "length data \<le> MAX_PRINTABLE_MESSAGE_LENGTH"
  using assms by (simp_all add: receiving_def unat_of_nat MAX_PRINTABLE_MESSAGE_LENGTH_def)

text \<open>A chunk that passes the length check fits behind the bytes received, also if the check wraps.\<close>

lemma chunk_fits:
  assumes "unat (processed :: u32) \<le> 160" "\<not> processed + ucast (n :: u16) > len"
  shows "unat processed + unat n \<le> unat (len :: u32)"
proof -
  have n: "unat (ucast n :: u32) = unat n"
    using unat_bounds(2) [of n] by (simp add: unsigned_ucast_eq take_bit_nat_eq_self)
  have "unat processed + unat (ucast n :: u32) < 2 ^ LENGTH(32)" using assms(1) unat_bounds(2) [of n] by (simp add: n)
  then have "unat (processed + ucast n) = unat processed + unat n"
    unfolding unat_add_lem by (simp add: n)
  with assms(2) show ?thesis by (simp add: word_less_nat_alt)
qed

lemma store_printable_OkD:
  assumes "store_printable new m = Ok m'" "receiving hashed path flags len data m" "msg_arrays m"
    and "\<not> processedMessageLength m + ucast (n :: u16) > len" "length new = unat n"
  shows "\<exists>bs b. m' = m\<lparr>printableMessage := bs, isPrintableAscii := b\<rparr> \<and>
    length bs = MAX_PRINTABLE_MESSAGE_LENGTH \<and>
    (if unat len \<le> MAX_PRINTABLE_MESSAGE_LENGTH
     then length (data @ new) \<le> unat len \<and> take (length (data @ new)) bs = data @ new \<and>
       b = is_printable_ascii (data @ new)
     else \<not> b)"
proof (cases "unat len \<le> MAX_PRINTABLE_MESSAGE_LENGTH")
  case True
  note p = receiving_processed [OF assms(2) True]
  have fits: "length data + length new \<le> unat len"
    using chunk_fits [OF _ assms(4)] p assms(5) by (simp add: MAX_PRINTABLE_MESSAGE_LENGTH_def)
  obtain bs where "memmove_at (length data) new (printableMessage m) = (Ok bs :: ('a, _) result)"
    "m' = m\<lparr>printableMessage := bs, isPrintableAscii := isPrintableAscii m \<and> is_printable_ascii new\<rparr>"
    using assms(1,2) True p(1) by (auto simp: store_printable_def andthen_eq_Ok receiving_def)
  then show ?thesis using True fits assms(2,3)
    by (intro exI [of _ bs] exI [of _ "is_printable_ascii (data @ new)"])
      (auto simp: memmove_at_eq_Ok receiving_def msg_arrays_def is_printable_ascii_append)
next
  case False
  then show ?thesis using assms(1,2,3)
    by (intro exI [of _ "printableMessage m"] exI [of _ False])
      (auto simp: store_printable_def receiving_def msg_arrays_def)
qed

lemma sign_message_data_OkD:
  assumes "sign_message_data P mem cur m = Ok m'" "wf_cursor mem cur"
    and "incremental_hash P hashed sha256" "msg_arrays m" "receiving hashed path flags len data m"
  shows "receiving hashed path flags len (data @ view mem cur) m'" "msg_arrays m'"
proof -
  let ?new = "view mem cur"
  have "receiving hashed path flags len (data @ ?new) m' \<and> msg_arrays m'"
  proof (cases "snd cur = 0")
    case True
    then show ?thesis
      using assms(1,2,4,5) by (simp add: sign_message_data_def view_Nil_iff [symmetric])
  next
    case False
    have new: "length ?new = unat (snd cur)" using assms(2) by (rule length_view)
    have at: "bytes_at mem (fst cur) (unat (snd cur)) = (Ok ?new :: (sw_t, _) result)"
      using bytes_at_cursor [OF assms(2), of "unat (snd cur)"] new False by (simp add: unat_gt_0)
    obtain h h' where r: "msg_union m = Prepare h h'" "hashed h = data" "hashed h' = message_prefix len @ data"
      using assms(5) by (auto simp: receiving_def)
    obtain m1 g g' where s: "\<not> processedMessageLength m + ucast (snd cur) > len"
        "store_printable ?new m = (Ok m1 :: (sw_t, _) result)"
      and g: "hash_update P h ?new = Some g" "hash_update P h' ?new = Some g'"
        "m' = m1\<lparr>msg_union := Prepare g g', processedMessageLength := processedMessageLength m1 + ucast (snd cur)\<rparr>"
    proof -
      obtain m1 m2 where 1: "\<not> processedMessageLength m + ucast (snd cur) > len"
          "store_printable ?new m = (Ok m1 :: (sw_t, _) result)"
        and 2: "update_hashes P ?new m1 = Ok m2"
          "m' = m2\<lparr>processedMessageLength := processedMessageLength m2 + ucast (snd cur)\<rparr>"
        using assms(1,5) False at by (auto simp: sign_message_data_def andthen_eq_Ok receiving_def)
      have "msg_union m1 = Prepare h h'"
        using store_printable_OkD [OF 1(2) assms(5,4) 1(1) new] r(1) by auto
      with 2 that [OF 1] show thesis by (auto simp: update_hashes_def andthen_eq_Ok)
    qed
    have len: "of_nat (length data) + ucast (snd cur) = (of_nat (length (data @ ?new)) :: u32)"
      by (simp add: new)
    from store_printable_OkD [OF s(2) assms(5,4) s(1) new]
    obtain bs b where m1: "m1 = m\<lparr>printableMessage := bs, isPrintableAscii := b\<rparr>"
      "length bs = MAX_PRINTABLE_MESSAGE_LENGTH"
      "if unat len \<le> MAX_PRINTABLE_MESSAGE_LENGTH
       then length (data @ ?new) \<le> unat len \<and> take (length (data @ ?new)) bs = data @ ?new \<and>
         b = is_printable_ascii (data @ ?new)
       else \<not> b" by auto
    with assms(4,5) g len r incremental_hashD(2) [OF assms(3)] show ?thesis
      by (simp add: receiving_def msg_arrays_def del: length_append)
  qed
  then show "receiving hashed path flags len (data @ ?new) m'" "msg_arrays m'" by simp_all
qed

section \<open>What the review shows\<close>

definition shown_message :: "'h messageSigningContext_t \<Rightarrow> confirm_t \<Rightarrow> page" where
  "shown_message m c =
     (let data = take (unat (messageLength m)) (printableMessage m) in
      case displayType c of
        MESSAGE_DISPLAY_TYPE_ASCII \<Rightarrow> (''Message'', c_string (map char_of_byte data @ [NUL]))
      | MESSAGE_DISPLAY_TYPE_HEX \<Rightarrow>
          (''Message Hex'', if data = [] then c_string (printedMessage c) else hex_string data)
      | MESSAGE_DISPLAY_TYPE_HASH \<Rightarrow> (''Message Hash'', hex_string (messageHash c)))"

lemma c_string_append_NUL: "c_string (xs @ NUL # ys) = c_string (xs @ [NUL])"
  by (induction xs) (simp_all add: c_string_def)

lemma print_hex_fits:
  assumes "length (data :: u8 list) * 2 + 1 \<le> length out"
  shows "\<exists>out'. print_hex data out (length out) = Ok out' \<and> length out' = length out \<and>
    c_string out' = (if data = [] then c_string out else hex_string data)"
  using assms by (auto simp: print_hex_result c_string_no_NUL [OF hex_string_no_NUL] length_hex_string)

lemma memmove_string:
  assumes "length cs < length arr"
  shows "andthen (memmove_at 0 cs arr) (\<lambda>out. andthen (memmove_at (length cs) [x] out) k) =
    k (cs @ x # drop (Suc (length cs)) arr)"
  using assms by (simp add: drop_overwritten)

lemma prepare_printed_message:
  assumes "msg_union m = Confirm c" "msg_arrays m"
    and "displayType c \<noteq> MESSAGE_DISPLAY_TYPE_HASH \<Longrightarrow> unat (messageLength m) \<le> MAX_PRINTABLE_MESSAGE_LENGTH"
  obtains out where "ux_message_signing_prepare_printed_message P m =
      Ok (print_in_confirm (fst (shown_message m c)) out c m)"
    "length out = PRINTED_MESSAGE_BUFFER_LENGTH" "c_string out = snd (shown_message m c)"
proof -
  note len = assms(2)[unfolded msg_arrays_def assms(1) confirm_arrays_def, simplified]
  show thesis
  proof (cases "displayType c")
    case MESSAGE_DISPLAY_TYPE_ASCII
    then have n: "unat (messageLength m) \<le> 160" using assms(3) by (simp add: MAX_PRINTABLE_MESSAGE_LENGTH_def)
    let ?cs = "map char_of_byte (take (unat (messageLength m)) (printableMessage m))"
    let ?out = "?cs @ NUL # drop (Suc (unat (messageLength m))) (printedMessage c)"
    have cs: "length ?cs = unat (messageLength m)" "length (printedMessage c) = 321"
      using n len by (simp_all add: PRINTED_MESSAGE_BUFFER_LENGTH_def MAX_PRINTABLE_MESSAGE_LENGTH_def)
    have data: "bytes_at (printableMessage m) (Some 0) (unat (messageLength m)) =
        (Ok (take (unat (messageLength m)) (printableMessage m)) :: ('b, _) result)"
      using n len by (simp add: bytes_at_def MAX_PRINTABLE_MESSAGE_LENGTH_def)
    have "length ?cs < length (printedMessage c)" using n cs by linarith
    note stored = memmove_string [OF this, unfolded cs(1)]
    have "ux_message_signing_prepare_printed_message P m =
        (Ok (print_in_confirm ''Message'' ?out c m) :: ('b, _) result)"
      unfolding ux_message_signing_prepare_printed_message_def Let_def assms(1) confirm_member.simps
        MESSAGE_DISPLAY_TYPE_ASCII message_display_type_t.case data andthen_simps stored ..
    moreover have "c_string ?out = snd (shown_message m c)"
      unfolding shown_message_def Let_def MESSAGE_DISPLAY_TYPE_ASCII message_display_type_t.case snd_conv
      by (rule c_string_append_NUL)
    moreover have "length ?out = PRINTED_MESSAGE_BUFFER_LENGTH"
      using n cs by (simp add: PRINTED_MESSAGE_BUFFER_LENGTH_def MAX_PRINTABLE_MESSAGE_LENGTH_def)
    ultimately show thesis
      by (intro that [of ?out]) (simp_all add: shown_message_def Let_def MESSAGE_DISPLAY_TYPE_ASCII)
  next
    case MESSAGE_DISPLAY_TYPE_HEX
    let ?data = "take (unat (messageLength m)) (printableMessage m)"
    have "unat (messageLength m) \<le> 160"
      using MESSAGE_DISPLAY_TYPE_HEX assms(3) by (simp add: MAX_PRINTABLE_MESSAGE_LENGTH_def)
    moreover from this have "unat (ucast (messageLength m) :: u16) = unat (messageLength m)"
      by (simp add: unsigned_ucast_eq take_bit_nat_eq_self)
    moreover obtain out where "print_hex ?data (printedMessage c) (length (printedMessage c)) = Ok out"
        "length out = length (printedMessage c)"
        "c_string out = (if ?data = [] then c_string (printedMessage c) else hex_string ?data)"
      using print_hex_fits [of ?data "printedMessage c"] len calculation(1)
      by (auto simp: PRINTED_MESSAGE_BUFFER_LENGTH_def MAX_PRINTABLE_MESSAGE_LENGTH_def)
    ultimately show thesis using MESSAGE_DISPLAY_TYPE_HEX len assms(1)
      by (intro that [of out]) (auto simp: ux_message_signing_prepare_printed_message_def shown_message_def Let_def
          bytes_at_def assert_no_error_def MAX_PRINTABLE_MESSAGE_LENGTH_def)
  next
    case MESSAGE_DISPLAY_TYPE_HASH
    have "messageHash c \<noteq> []" using len by auto
    then obtain out where "print_hex (messageHash c) (printedMessage c) (length (printedMessage c)) = Ok out"
        "length out = length (printedMessage c)" "c_string out = hex_string (messageHash c)"
      using print_hex_fits [of "messageHash c" "printedMessage c"] len
      by (auto simp: PRINTED_MESSAGE_BUFFER_LENGTH_def MAX_PRINTABLE_MESSAGE_LENGTH_def)
    then show thesis using MESSAGE_DISPLAY_TYPE_HASH len assms(1)
      by (intro that [of out]) (auto simp: ux_message_signing_prepare_printed_message_def shown_message_def Let_def
          assert_no_error_def)
  qed
qed

section \<open>The handler\<close>

text \<open>What holds of a message context between two commands.\<close>

definition message_ok :: "'h messageSigningContext_t \<Rightarrow> bool" where
  "message_ok m = (msg_arrays m \<and> processedMessageLength m \<le> messageLength m \<and>
     (isPrintableAscii m \<longrightarrow> unat (messageLength m) \<le> MAX_PRINTABLE_MESSAGE_LENGTH))"

text \<open>What holds of it when its message is reviewed.\<close>

definition reviewed :: "'h messageSigningContext_t \<Rightarrow> confirm_t \<Rightarrow> bool" where
  "reviewed m c = (msg_union m = Confirm c \<and>
     (displayType c \<noteq> MESSAGE_DISPLAY_TYPE_HASH \<longrightarrow> unat (messageLength m) \<le> MAX_PRINTABLE_MESSAGE_LENGTH))"

lemma message_ok_zero [simp]: "message_ok zero_msg"
  by (simp add: message_ok_def zero_msg_def msg_arrays_def zero_confirm_def confirm_arrays_def)

lemma delivers_sign_message_first:
  assumes "wf_cursor mem cur" "msg_arrays m"
    and "\<And>m' cur'. message_ok m' \<Longrightarrow> wf_cursor mem cur' \<Longrightarrow> Q (m', cur')"
  shows "delivers Q (sign_message_first P mem cur m)"
  unfolding sign_message_first_def
  using assms
  by (auto intro!: delivers_intros simp: message_ok_def msg_arrays_def)

lemma delivers_store_printable:
  assumes "message_ok m" "\<not> processedMessageLength m + ucast (n :: u16) > messageLength m" "length new = unat n"
    and "\<And>bs b. length bs = MAX_PRINTABLE_MESSAGE_LENGTH \<Longrightarrow> (b \<Longrightarrow> isPrintableAscii m) \<Longrightarrow>
      Q (m\<lparr>printableMessage := bs, isPrintableAscii := b\<rparr>)"
  shows "delivers Q (store_printable new m)"
proof (cases "unat (messageLength m) \<le> MAX_PRINTABLE_MESSAGE_LENGTH")
  case True
  then have p: "unat (processedMessageLength m) \<le> 160"
    using assms(1) by (simp add: message_ok_def MAX_PRINTABLE_MESSAGE_LENGTH_def word_le_nat_alt)
  have "unat (processedMessageLength m) + length new \<le> length (printableMessage m)"
    using chunk_fits [OF p assms(2)] True assms(1,3)
    by (simp add: message_ok_def msg_arrays_def)
  then show ?thesis using assms(1) True
    by (auto simp: store_printable_def message_ok_def msg_arrays_def intro!: assms(4))
next
  case False
  have "m\<lparr>printableMessage := printableMessage m, isPrintableAscii := isPrintableAscii m\<rparr> = m" by simp
  then have "Q m"
    using assms(1) assms(4) [of "printableMessage m" "isPrintableAscii m"]
    by (simp only: message_ok_def msg_arrays_def)
  with False show ?thesis by (simp add: store_printable_def)
qed

lemma delivers_sign_message_data:
  assumes "message_ok m" "wf_cursor mem cur" and "\<And>m'. message_ok m' \<Longrightarrow> Q m'"
  shows "delivers Q (sign_message_data P mem cur m)"
proof (cases "snd cur = 0")
  case False
  have new: "length (view mem cur) = unat (snd cur)" using assms(2) by (rule length_view)
  have at: "bytes_at mem (fst cur) (unat (snd cur)) = (Ok (view mem cur) :: (sw_t, _) result)"
    using bytes_at_cursor [OF assms(2), of "unat (snd cur)"] new False by (simp add: unat_gt_0)
  show ?thesis
    using assms(1) False at new
    by (auto simp: sign_message_data_def update_hashes_def case_prod_unfold message_ok_def msg_arrays_def
        intro!: delivers_store_printable [OF assms(1)] assms(3))
qed (simp add: sign_message_data_def assms)

text \<open>Displaying a message changes nothing but how it is displayed.\<close>

definition same_content ::
    "'h messageSigningContext_t \<Rightarrow> confirm_t \<Rightarrow> 'h messageSigningContext_t \<Rightarrow> confirm_t \<Rightarrow> bool" where
  "same_content m c m' c' =
     (m' = m\<lparr>msg_union := Confirm c'\<rparr> \<and> messageHash c' = messageHash c \<and>
      prefixedMessageHash c' = prefixedMessageHash c)"

definition message_screen :: "'h platform \<Rightarrow> 'h messageSigningContext_t \<Rightarrow> confirm_t \<Rightarrow> shown_screen" where
  "message_screen P m c = (case device P of BAGL \<Rightarrow> Message_flow
     | NBGL \<Rightarrow> Message_review (message_review_subtitle (displayType c)) [shown_message m c])"

lemma delivers_ui_message_signing:
  assumes "platform_ok P" "length (G_io_apdu_buffer st) = IO_APDU_BUFFER_SIZE" "message_ok (req_msg P (ctx_req st))"
    and "t \<noteq> MESSAGE_DISPLAY_TYPE_HASH \<Longrightarrow>
      unat (messageLength (req_msg P (ctx_req st))) \<le> MAX_PRINTABLE_MESSAGE_LENGTH"
    and "\<And>m c st'. ctx_req st' = Msg m \<Longrightarrow> message_ok m \<Longrightarrow> reviewed m c \<Longrightarrow> displayType c = t \<Longrightarrow>
      same_content (req_msg P (ctx_req st)) (confirm_member P (msg_union (req_msg P (ctx_req st)))) m c \<Longrightarrow>
      length (G_io_apdu_buffer st') = IO_APDU_BUFFER_SIZE \<Longrightarrow> ctx_u2fTimer st' = ctx_u2fTimer st \<Longrightarrow>
      on_screen st' = message_screen P m c \<Longrightarrow> Q st'"
  shows "delivers Q (ui_message_signing P t st :: ('e, 'h app_state) result)"
proof -
  let ?m = "set_display_type P t (req_msg P (ctx_req st))"
  let ?c = "(confirm_member P (msg_union (req_msg P (ctx_req st))))\<lparr>displayType := t\<rparr>"
  have u: "msg_union ?m = Confirm ?c" by (simp add: set_display_type_def)
  have "confirm_arrays (confirm_member P (msg_union (req_msg P (ctx_req st))))"
    using confirm_member_arrays [OF assms(1)] assms(3) by (simp add: message_ok_def)
  then have c: "confirm_arrays ?c" by (simp add: confirm_arrays_def)
  have ok: "message_ok ?m" using assms(3) c by (simp add: message_ok_def msg_arrays_def set_display_type_def)
  have len: "messageLength ?m = messageLength (req_msg P (ctx_req st))" by (simp add: set_display_type_def)
  show ?thesis
  proof (cases "device P")
    case BAGL
    have "Q (st\<lparr>ctx_req := Msg ?m, on_screen := Message_flow\<rparr>)"
      by (rule assms(5) [of _ ?m ?c]) (use BAGL ok u assms(2,4) len in \<open>simp_all add: reviewed_def same_content_def set_display_type_def
          message_screen_def\<close>)
    with BAGL show ?thesis by (simp add: ui_message_signing_def Let_def)
  next
    case NBGL
    obtain out where out: "ux_message_signing_prepare_printed_message P ?m =
        (Ok (print_in_confirm (fst (shown_message ?m ?c)) out ?c ?m) :: ('e, _) result)"
      "length out = PRINTED_MESSAGE_BUFFER_LENGTH" "c_string out = snd (shown_message ?m ?c)"
    proof (rule prepare_printed_message [OF u, of P])
      show "msg_arrays ?m" using ok by (simp add: message_ok_def)
    qed (use assms(4) len in simp_all)
    let ?m' = "print_in_confirm (fst (shown_message ?m ?c)) out ?c ?m"
    let ?c' = "?c\<lparr>printedMessageLabel := fst (shown_message ?m ?c), printedMessage := out\<rparr>"
    have r: "message_ok ?m'" "reviewed ?m' ?c'"
      using ok c out(2) assms(4) len
      by (auto simp: message_ok_def msg_arrays_def reviewed_def print_in_confirm_def confirm_arrays_def)
    let ?st = "review_scratch P (st\<lparr>ctx_req := Msg ?m', on_screen :=
      Message_review (message_review_subtitle t) [(fst (shown_message ?m ?c), c_string out)]\<rparr>)"
    have "ui_message_prepare_review_entries P t (req_msg P (ctx_req st)) =
        (Ok (?m', [(fst (shown_message ?m ?c), c_string out)]) :: ('e, _) result)"
      unfolding ui_message_prepare_review_entries_def out(1)
      by (simp add: Let_def print_in_confirm_def entry_steps review_entries_initialize_def
          REVIEW_ENTRIES_MAX_COUNT_def)
    then have ui: "ui_message_signing P t st = (Ok ?st :: ('e, _) result)"
      using NBGL by (simp add: ui_message_signing_def Let_def)
    have "same_content (req_msg P (ctx_req st)) (confirm_member P (msg_union (req_msg P (ctx_req st)))) ?m' ?c'"
      by (simp add: same_content_def print_in_confirm_def set_display_type_def)
    moreover have "shown_message ?m' ?c' = (fst (shown_message ?m ?c), c_string out)"
      using out(3) by (simp add: shown_message_def Let_def print_in_confirm_def split: message_display_type_t.splits)
    ultimately have "Q ?st"
      by (intro assms(5) [of _ ?m' ?c'])
        (use NBGL r assms(2) in \<open>simp_all add: length_review_scratch [OF assms(1)] message_screen_def\<close>)
    with ui show ?thesis by simp
  qed
qed

lemma message_ok_arrays: "message_ok m \<Longrightarrow> msg_arrays m"
  by (simp add: message_ok_def)

lemma display_type_fits:
  "message_ok m \<Longrightarrow> message_display_type m \<noteq> MESSAGE_DISPLAY_TYPE_HASH \<Longrightarrow>
    unat (messageLength m) \<le> MAX_PRINTABLE_MESSAGE_LENGTH"
  by (auto simp: message_display_type_def message_ok_def split: if_splits)

lemma delivers_sign_message_hashes:
  assumes "platform_ok P" "message_ok m"
    and "\<And>c. message_ok (m\<lparr>msg_union := Confirm c\<rparr>) \<Longrightarrow> Q (m\<lparr>msg_union := Confirm c\<rparr>)"
  shows "delivers Q (sign_message_hashes P m)"
  using assms platform_okD(4,7) [OF assms(1)]
  by (auto simp: sign_message_hashes_def case_prod_unfold message_ok_def msg_arrays_def confirm_arrays_def
      intro!: assms(3))

text \<open>
  The handler on a context that is its own, or in the first chunk: no fault, and what it leaves.
\<close>

lemma delivers_handle_sign_message:
  assumes "platform_ok P" "state_ok st" "wf_cursor (G_io_apdu_buffer st) cur"
    and "p1 \<noteq> P1_FIRST \<Longrightarrow> message_ok (req_msg P (ctx_req st))"
    and "\<And>m st'. ctx_req st' = Msg m \<Longrightarrow> message_ok m \<Longrightarrow> on_screen st' = on_screen st \<Longrightarrow>
      G_io_apdu_buffer st' = G_io_apdu_buffer st \<Longrightarrow> ctx_u2fTimer st' = ctx_u2fTimer st \<Longrightarrow> p2 = P2_MORE \<Longrightarrow>
      Q (st', False)"
    and "\<And>m c st'. ctx_req st' = Msg m \<Longrightarrow> message_ok m \<Longrightarrow> reviewed m c \<Longrightarrow> state_ok st' \<Longrightarrow>
      on_screen st' = message_screen P m c \<Longrightarrow> ctx_u2fTimer st' = ctx_u2fTimer st \<Longrightarrow> p2 = P2_LAST \<Longrightarrow> Q (st', True)"
  shows "delivers Q (handle_sign_message P p1 p2 cur st)"
proof -
  have arrays: "msg_arrays (req_msg P (ctx_req st))"
    using request_members(3) [OF assms(1)] assms(2) by (simp add: state_ok_def)
  have buf: "length (G_io_apdu_buffer st) = IO_APDU_BUFFER_SIZE" using assms(2) by (simp add: state_ok_def)
  have last: "delivers (\<lambda>m. delivers (\<lambda>st. Q (st, True))
      (ui_message_signing P (message_display_type m) (st\<lparr>ctx_req := Msg m\<rparr>))) (sign_message_hashes P m)"
    if "message_ok m" "p2 = P2_LAST" for m
  proof (rule delivers_sign_message_hashes [OF assms(1) that(1)])
    fix c
    let ?m = "m\<lparr>msg_union := Confirm c\<rparr>"
    assume ok: "message_ok ?m"
    show "delivers (\<lambda>st. Q (st, True))
        (ui_message_signing P (message_display_type ?m) (st\<lparr>ctx_req := Msg ?m\<rparr>))"
    proof (rule delivers_ui_message_signing [OF assms(1)], goal_cases)
      case (4 m' c' st')
      then show ?case
        by (intro assms(6) [OF 4(1-3)]) (simp_all add: state_ok_def message_ok_arrays that(2))
    qed (use buf ok display_type_fits [OF ok] in simp_all)
  qed
  have chunk: "delivers Q (sign_message_chunk P p2 m cur' st)"
    if "message_ok m" "wf_cursor (G_io_apdu_buffer st) cur'" "p2 = P2_LAST \<or> p2 = P2_MORE" for m cur'
    using that last unfolding sign_message_chunk_def delivers_andthen
    by (intro delivers_sign_message_data) (auto intro!: assms(5))
  have first: "delivers (\<lambda>(m, cur). delivers Q (sign_message_chunk P p2 m cur st))
      (sign_message_first P (G_io_apdu_buffer st) cur (req_msg P (ctx_req st)))"
    if "p2 = P2_LAST \<or> p2 = P2_MORE"
    by (rule delivers_sign_message_first [OF assms(3) arrays]) (simp add: chunk that)
  show ?thesis
    using chunk [OF _ assms(3)] first assms(4)
    by (auto simp: handle_sign_message_def case_prod_unfold)
qed

section \<open>What is hashed\<close>

text \<open>The context while the message \<open>data\<close> is reviewed.\<close>

definition confirming ::
    "(u8 list \<Rightarrow> u8 list) \<Rightarrow> u32 list \<Rightarrow> u8 \<Rightarrow> u32 \<Rightarrow> u8 list \<Rightarrow> 'h messageSigningContext_t \<Rightarrow> confirm_t \<Rightarrow> bool" where
  "confirming sha256 path flags len data m c =
     (msg_union m = Confirm c \<and> unat (msg_bip32PathLength m) = length path \<and> take (length path) (msg_bip32Path m) = path \<and>
      msg_flags m = flags \<and> messageLength m = len \<and> len = of_nat (length data) \<and>
      messageHash c = sha256 data \<and> prefixedMessageHash c = sha256 (message_prefix len @ data) \<and>
      (if unat len \<le> MAX_PRINTABLE_MESSAGE_LENGTH
       then take (unat len) (printableMessage m) = data \<and> isPrintableAscii m = is_printable_ascii data
       else \<not> isPrintableAscii m))"

lemma confirming_same_content:
  "confirming sha256 path flags len data m c \<Longrightarrow> same_content m c m' c' \<Longrightarrow>
    confirming sha256 path flags len data m' c'"
  by (auto simp: confirming_def same_content_def)

lemma sign_message_hashes_OkD:
  assumes "sign_message_hashes P m = Ok m'" "incremental_hash P hashed sha256"
    and "receiving hashed path flags len data m"
  obtains c where "m' = m\<lparr>msg_union := Confirm c\<rparr>" "confirming sha256 path flags len data m' c"
proof -
  note h = incremental_hashD [OF assms(2)]
  obtain g g' where r: "msg_union m = Prepare g g'" "hashed g = data" "hashed g' = message_prefix len @ data"
    using assms(3) by (auto simp: receiving_def)
  then obtain d d' where d: "hash_final P g = Some d" "hash_final P g' = Some d'"
    "processedMessageLength m = messageLength m"
    "m' = m\<lparr>msg_union := Confirm ((confirm_layout P g g')\<lparr>messageHash := d, prefixedMessageHash := d'\<rparr>)\<rparr>"
    using assms(1) by (auto simp: sign_message_hashes_def andthen_eq_Ok)
  have len: "len = of_nat (length data)" using d(3) assms(3) unfolding receiving_def by metis
  have "unat len = length data" if "length data \<le> unat len"
  proof -
    have "length data < 2 ^ 32" using that unat_bounds(3) [of len] by simp
    then show ?thesis by (simp add: len unat_of_nat)
  qed
  with d len h(3) [OF d(1)] h(3) [OF d(2)] r assms(3) show thesis
    by (intro that [OF d(4)]) (auto simp: confirming_def receiving_def split: if_splits)
qed

text \<open>
  What the handler leaves when all of \<open>data\<close> has been received: a context that waits for more, or the
  review of the whole message.
\<close>

definition message_outcome ::
    "'h platform \<Rightarrow> ('h \<Rightarrow> u8 list) \<Rightarrow> (u8 list \<Rightarrow> u8 list) \<Rightarrow> u8 \<Rightarrow> u32 list \<Rightarrow> u8 \<Rightarrow> u32 \<Rightarrow> u8 list \<Rightarrow>
     'h app_state \<Rightarrow> bool \<Rightarrow> bool" where
  "message_outcome P hashed sha256 p2 path flags len data st async =
     (if p2 = P2_MORE
      then \<not> async \<and> (\<exists>m. ctx_req st = Msg m \<and> message_ok m \<and> receiving hashed path flags len data m)
      else async \<and> (\<exists>m c. ctx_req st = Msg m \<and> message_ok m \<and> confirming sha256 path flags len data m c \<and>
        reviewed m c \<and> on_screen st = message_screen P m c \<and> displayType c = message_display_type m))"

lemma message_display_type_simps [simp]:
  "message_display_type (m\<lparr>msg_union := u\<rparr>) = message_display_type m"
  by (simp add: message_display_type_def)

lemma message_last:
  assumes "sign_message_hashes P m = Ok m'" "message_ok m"
    and "ui_message_signing P (message_display_type m') (st\<lparr>ctx_req := Msg m'\<rparr>) = (Ok st' :: (sw_t, _) result)"
    and "platform_ok P" "length (G_io_apdu_buffer st) = IO_APDU_BUFFER_SIZE"
    and "incremental_hash P hashed sha256" "receiving hashed path flags len data m"
  shows "message_outcome P hashed sha256 P2_LAST path flags len data st' True"
proof (rule sign_message_hashes_OkD [OF assms(1,6,7)])
  fix c
  assume m': "m' = m\<lparr>msg_union := Confirm c\<rparr>" and c: "confirming sha256 path flags len data m' c"
  have ok: "message_ok m'"
    by (rule deliversD [OF delivers_sign_message_hashes [OF assms(4,2)] assms(1)])
  have "delivers (\<lambda>st'. message_outcome P hashed sha256 P2_LAST path flags len data st' True)
      (ui_message_signing P (message_display_type m') (st\<lparr>ctx_req := Msg m'\<rparr>))"
  proof (rule delivers_ui_message_signing [OF assms(4)], goal_cases)
    case (4 m1 c1 st1)
    have "confirming sha256 path flags len data m1 c1"
      using 4(5) confirming_same_content [OF c] by (simp add: m')
    moreover have "message_display_type m1 = message_display_type m'"
      using 4(5) by (simp add: m' same_content_def)
    ultimately show ?case
      using 4 by (auto simp: message_outcome_def chunk_parameter_defs)
  qed (use assms(5) ok display_type_fits [OF ok] in simp_all)
  from deliversD [OF this assms(3)] show ?thesis .
qed

lemma message_chunk:
  assumes "sign_message_chunk P p2 m cur st = Ok (st', async)"
    and "p2 = P2_LAST \<or> p2 = P2_MORE" "platform_ok P" "length (G_io_apdu_buffer st) = IO_APDU_BUFFER_SIZE"
    and "wf_cursor (G_io_apdu_buffer st) cur" "incremental_hash P hashed sha256"
    and "message_ok m" "receiving hashed path flags len data m"
  shows "message_outcome P hashed sha256 p2 path flags len (data @ view (G_io_apdu_buffer st) cur) st' async"
proof -
  obtain m1 where m1: "sign_message_data P (G_io_apdu_buffer st) cur m = Ok m1"
    and rest: "(if p2 = P2_MORE then Ok (st\<lparr>ctx_req := Msg m1\<rparr>, False)
      else andthen (sign_message_hashes P m1) (\<lambda>m.
        andthen (ui_message_signing P (message_display_type m) (st\<lparr>ctx_req := Msg m\<rparr>)) (\<lambda>st. Ok (st, True))))
      = Ok (st', async)"
    using assms(1) unfolding sign_message_chunk_def andthen_eq_Ok [of "sign_message_data _ _ _ _"] by blast
  note r = sign_message_data_OkD(1) [OF m1 assms(5,6) message_ok_arrays [OF assms(7)] assms(8)]
  have ok: "message_ok m1"
    by (rule deliversD [OF delivers_sign_message_data [OF assms(7,5)] m1])
  show ?thesis
  proof (cases "p2 = P2_MORE")
    case True
    with rest r ok show ?thesis by (auto simp: message_outcome_def)
  next
    case False
    then obtain m2 where "sign_message_hashes P m1 = Ok m2"
      "ui_message_signing P (message_display_type m2) (st\<lparr>ctx_req := Msg m2\<rparr>) = (Ok st' :: (sw_t, _) result)" "async"
      using rest by (auto simp: andthen_eq_Ok)
    with False assms(2) message_last [OF _ ok _ assms(3,4,6) r] show ?thesis by auto
  qed
qed

lemma handle_sign_message_OkD:
  assumes "handle_sign_message P p1 p2 cur st = Ok r"
  shows "p1 = P1_FIRST \<or> p1 = P1_MORE" "p2 = P2_LAST \<or> p2 = P2_MORE"
    and "p1 = P1_FIRST \<Longrightarrow> \<exists>m cur'. sign_message_first P (G_io_apdu_buffer st) cur (req_msg P (ctx_req st)) =
      Ok (m, cur') \<and> sign_message_chunk P p2 m cur' st = Ok r"
    and "p1 = P1_MORE \<Longrightarrow> sign_message_chunk P p2 (req_msg P (ctx_req st)) cur st = Ok r"
  using assms by (auto simp: handle_sign_message_def chunk_parameter_defs andthen_eq_Ok [of "check _ _"]
      andthen_eq_Ok [of "sign_message_first _ _ _ _"])

lemma handle_sign_message_first:
  assumes "handle_sign_message P P1_FIRST p2 cur st = Ok (st', async)" "platform_ok P" "state_ok st"
    and "wf_cursor (G_io_apdu_buffer st) cur" "incremental_hash P hashed sha256"
  shows "\<exists>path flags len chunk.
    view (G_io_apdu_buffer st) cur = path_bytes path @ flags # be_bytes 4 (unat len) @ chunk \<and>
    1 \<le> length path \<and> length path \<le> MAX_BIP32_PATH_LENGTH \<and>
    message_outcome P hashed sha256 p2 path flags len chunk st' async"
proof -
  have arrays: "msg_arrays (req_msg P (ctx_req st))" and buf: "length (G_io_apdu_buffer st) = IO_APDU_BUFFER_SIZE"
    using request_members(3) [OF assms(2)] assms(3) by (simp_all add: state_ok_def)
  note ok = handle_sign_message_OkD [OF assms(1)]
  obtain m cur' where m: "sign_message_first P (G_io_apdu_buffer st) cur (req_msg P (ctx_req st)) = Ok (m, cur')"
    and rest: "sign_message_chunk P p2 m cur' st = Ok (st', async)"
    using ok(3) by auto
  obtain path flags len where r: "view (G_io_apdu_buffer st) cur =
      path_bytes path @ flags # be_bytes 4 (unat len) @ view (G_io_apdu_buffer st) cur'"
    "1 \<le> length path" "length path \<le> MAX_BIP32_PATH_LENGTH" "wf_cursor (G_io_apdu_buffer st) cur'"
    "receiving hashed path flags len [] m"
    by (rule sign_message_first_OkD [OF m assms(4,5) arrays])
  have "message_ok m"
    using deliversD [OF delivers_sign_message_first [OF assms(4) arrays, of "\<lambda>(m, c). message_ok m"] m] by simp
  with message_chunk [OF rest ok(2) assms(2) buf r(4) assms(5) _ r(5)] r(1-3) show ?thesis by auto
qed

lemma handle_sign_message_more:
  assumes "handle_sign_message P P1_MORE p2 cur st = Ok (st', async)" "platform_ok P" "state_ok st"
    and "wf_cursor (G_io_apdu_buffer st) cur" "incremental_hash P hashed sha256"
    and "ctx_req st = Msg m" "receiving hashed path flags len data m" "message_ok m"
  shows "message_outcome P hashed sha256 p2 path flags len (data @ view (G_io_apdu_buffer st) cur) st' async"
  by (rule message_chunk [OF _ handle_sign_message_OkD(2) [OF assms(1)] assms(2) _ assms(4,5,8,7)])
    (use handle_sign_message_OkD(4) [OF assms(1)] assms(3,6) in \<open>simp_all add: state_ok_def\<close>)

end
