(* ===== verification/Error_Codes.thy ===== *)
theory Error_Codes
  imports Review
begin

text \<open>
  Which errors the parsers return. \<^verbatim>\<open>error_to_sw\<close> of \<^verbatim>\<open>src/src/error_macros.c\<close> ends the app for
  errors that are not meant to reach it; the lemmas show that no parser or printer returns one of
  these, so every parse error becomes a status word.
\<close>

definition reports :: "('e \<Rightarrow> bool) \<Rightarrow> ('e, 'a) result \<Rightarrow> bool" where
  "reports E r = (\<forall>e. r = Err e \<longrightarrow> E e)"

named_theorems reports_intros \<open>rules that establish which errors an operation reports\<close>

lemma reports_simps [simp]: "reports E (Ok x)" "reports E (Err e) = E e" "reports E (Fault f)"
  by (simp_all add: reports_def)

lemma reports_andthen [reports_intros]:
  "reports E r \<Longrightarrow> (\<And>x. r = Ok x \<Longrightarrow> reports E (k x)) \<Longrightarrow> reports E (andthen r k)"
  by (cases r) simp_all

lemma reports_or_error [reports_intros]: "E e \<Longrightarrow> reports E (or_error r e)"
  by (cases r) simp_all

lemma reports_check [reports_intros]: "E e \<Longrightarrow> reports E (check b e)"
  by (simp add: check_def)

lemma reports_ledger_assert [reports_intros]: "reports E (ledger_assert b)"
  by (simp add: ledger_assert_def)

lemma reports_if [reports_intros]: "reports E r \<Longrightarrow> reports E s \<Longrightarrow> reports E (if b then r else s)"
  by simp

lemma reports_prod [reports_intros]: "(\<And>a b. p = (a, b) \<Longrightarrow> reports E (k a b)) \<Longrightarrow> reports E (case p of (a, b) \<Rightarrow> k a b)"
  by (cases p) simp

lemma reports_prod_apply [reports_intros]:
  "(\<And>a b. p = (a, b) \<Longrightarrow> reports E (k a b z)) \<Longrightarrow> reports E ((case p of (a, b) \<Rightarrow> k a b) z)"
  by (cases p) simp

lemma reports_option [reports_intros]:
  "reports E r \<Longrightarrow> (\<And>x. reports E (k x)) \<Longrightarrow> reports E (case p of None \<Rightarrow> r | Some x \<Rightarrow> k x)"
  by (cases p) simp_all

lemma reports_let [reports_intros]: "(\<And>x. reports E (k x)) \<Longrightarrow> reports E (Let v k)"
  by simp

lemma reports_memory [reports_intros]:
  "reports E (deref mem p i)" "reports E (bytes_at mem p n)" "reports E (poke i cs arr)"
  "reports E (snprintf_at i n text arr)"
  by (auto simp: deref_def bytes_at_def poke_def snprintf_at_def split: option.splits)

section \<open>The errors of the parser\<close>

definition parse_error :: "error_t \<Rightarrow> bool" where
  "parse_error e = (e \<in> {ERROR_READ, ERROR_INVALID_LENGTH, ERROR_INCORRECT_DATA, ERROR_NOT_SUPPORTED,
     ERROR_CRYPTOGRAPHY})"

lemma parse_error_simps [simp]:
  "parse_error ERROR_READ" "parse_error ERROR_INVALID_LENGTH" "parse_error ERROR_INCORRECT_DATA"
  "parse_error ERROR_NOT_SUPPORTED" "parse_error ERROR_CRYPTOGRAPHY"
  by (simp_all add: parse_error_def)

lemma parse_error_to_sw: "parse_error e \<Longrightarrow> \<exists>sw. error_to_sw e = Ok sw \<and> sw \<noteq> SW_OK"
  by (auto simp: parse_error_def)

lemma reports_print_hex [reports_intros]: "E ERROR_INVALID_LENGTH \<Longrightarrow> reports E (print_hex data out n)"
proof -
  have "reports E (print_hex_loop i data out)" for i out
    by (induction data arbitrary: i out) (auto intro!: reports_intros)
  then show "E ERROR_INVALID_LENGTH \<Longrightarrow> ?thesis" by (auto simp: print_hex_def intro!: reports_intros)
qed

lemma reports_parse_amount [reports_intros]: "reports parse_error (parse_amount amount ticker)"
proof -
  have put: "reports parse_error (put b c)" for b c by (simp add: put_def)
  have "reports parse_error (amount_loop d b)" for d b
  proof (induction d b rule: amount_loop.induct)
    case (1 d b)
    show ?case
      by (subst amount_loop.simps, cases "d > 0 \<or> length b < 7")
        (auto simp: reports_def andthen_def ledger_assert_def put_def split: result.splits if_splits
          intro!: 1 [unfolded reports_def, rule_format])
  qed
  then show ?thesis
    by (auto simp: parse_amount_def Let_def put intro!: reports_intros split: option.splits)
qed

lemma reports_base32_encode [reports_intros]: "reports parse_error (base32_encode data len buf_size)"
proof -
  have refill: "reports parse_error (base32_refill data len buffer nxt bits)" for data len buffer nxt bits
    by (auto simp: base32_refill_def byte_at_def Let_def intro!: reports_intros)
  have "reports parse_error (base32_loop data len buf_size r quantum buffer nxt bits)"
    for data len buf_size r quantum buffer nxt bits
  proof (induction data len buf_size r quantum buffer nxt bits rule: base32_loop.induct)
    case (1 data len buf_size r quantum buffer nxt bits)
    show ?case
      by (subst base32_loop.simps)
        (auto simp: Let_def simp del: length_append intro!: reports_if reports_andthen reports_prod refill 1)
  qed
  then show ?thesis by (auto simp: base32_encode_def byte_at_def intro!: reports_intros)
qed

lemma reports_print_address [reports_intros]: "reports parse_error (print_address addr)"
proof -
  have number: "reports parse_error (iban_to_number cs counter total)" for cs counter total
    by (induction cs arbitrary: counter total) (auto intro!: reports_intros)
  have modulo: "reports parse_error (iban_modulo n memory part counter offset r)" for n memory part counter offset r
    by (induction n arbitrary: part counter offset r) (auto simp: Let_def peek_def intro!: reports_intros)
  show ?thesis
    by (auto simp: print_address_def iban_check_def iban_check_mem_def peek_def intro!: reports_intros number modulo)
qed

lemma reports_public_key_to_address [reports_intros]:
  "reports parse_error (public_key_to_address hash pk)"
  by (auto simp: public_key_to_address_def intro!: reports_intros)

lemma reports_print_public_key_as_address [reports_intros]:
  "reports parse_error (print_public_key_as_address hash pk)"
  by (auto simp: print_public_key_as_address_def intro!: reports_intros)

lemma reports_same_address [reports_intros]: "reports E (same_address mem p q)"
  by (auto simp: same_address_def intro!: reports_intros)

lemma reports_all_zero [reports_intros]: "reports E (all_zero mem p i n)"
  by (induction n arbitrary: i) (auto intro!: reports_intros)

lemma reports_is_empty [reports_intros]: "reports E (is_empty_default_signature_proof mem sp)"
  by (auto simp: is_empty_default_signature_proof_def intro!: reports_intros)

lemma reports_is_staking_contract [reports_intros]: "reports E (is_staking_contract mem p)"
  by (auto simp: is_staking_contract_def intro!: reports_intros)

lemma reports_htlc [reports_intros]:
  "reports parse_error (parse_htlc_creation_data mem version data sender sender_type height)"
  unfolding parse_htlc_creation_data_def hash_algorithm_name_def hash_root_text_def
  by (intro reports_intros) simp_all

lemma reports_vesting [reports_intros]:
  "reports parse_error (parse_vesting_creation_data mem version data sender sender_type amount)"
  unfolding parse_vesting_creation_data_def read_vesting_parameters_def vesting_schedule_def
    print_vesting_schedule_def
  by (intro reports_intros) simp_all

lemma reports_staking_incoming [reports_intros]:
  "reports parse_error (parse_staking_incoming_data hash mem version data sender)"
  unfolding parse_staking_incoming_data_def parse_staking_switch_def parse_staking_proof_def
  by (intro reports_intros) simp_all

lemma reports_staking_outgoing [reports_intros]:
  "reports parse_error (parse_staking_outgoing_data mem version data)"
  unfolding parse_staking_outgoing_data_def by (intro reports_intros) simp_all

lemma reports_normal [reports_intros]: "reports parse_error (parse_normal_tx_data mem data)"
  unfolding parse_normal_tx_data_def by (intro reports_intros) simp_all

lemma reports_parse_tx: "reports parse_error (parse_tx hash mem version buffer)"
  unfolding parse_tx_def parse_tx_type_specific_def parse_network_id_def staking_outgoing_label_def
    staking_incoming_label_def
  by (intro reports_intros) simp_all

section \<open>Properties\<close>

text \<open>
  C25: Every error of the transaction parser and of the address printer is one that
  \<open>error_to_sw\<close> turns into a status word other than success: neither of them can make the
  conversion end the app, and no failed parse is reported as a success.
\<close>

theorem parse_errors_have_status_words:
  assumes "parse_tx hash mem version c = Err e \<or> print_public_key_as_address hash pk = Err e"
  shows "\<exists>sw. error_to_sw e = Ok sw \<and> sw \<noteq> SW_OK"
  using assms reports_parse_tx [of hash mem version c] reports_print_public_key_as_address [of hash pk]
  by (intro parse_error_to_sw) (auto simp: reports_def)

theorem parse_errors_have_status_words_witness:
  "parse_tx example_hash [] 7 (None, 0) = Err ERROR_NOT_SUPPORTED \<and>
    error_to_sw ERROR_NOT_SUPPORTED = Ok SW_NOT_SUPPORTED"
proof -
  have e: "parse_tx example_hash [] 7 (None, 0) = Err ERROR_NOT_SUPPORTED"
    by (simp add: parse_tx_def version_defs)
  from parse_errors_have_status_words [OF disjI1 [OF this]] e show ?thesis by simp
qed

end
