(* ===== verification/Public_Keys.thy ===== *)
theory Public_Keys
  imports Message_Signing Error_Codes
begin

text \<open>
  The requests for a public key: \<^verbatim>\<open>handle_get_public_key\<close> and \<^verbatim>\<open>set_result_get_public_key\<close> of
  \<^verbatim>\<open>src/src/main.c\<close> and \<^verbatim>\<open>ui_public_key\<close> of the two user interfaces. The data of a request is the
  part of the APDU buffer behind a cursor; the rest of the buffer holds what earlier commands left
  there.

  The lemmas show which key a request derives, what it shows or returns, which messages it signs
  without a confirmation, and when it faults.
\<close>

section \<open>Public keys\<close>

definition P1_NO_SIGNATURE :: u8 where "P1_NO_SIGNATURE = 0x00"
definition P1_SIGNATURE :: u8 where "P1_SIGNATURE = 0x01"
definition P2_NO_CONFIRM :: u8 where "P2_NO_CONFIRM = 0x00"
definition P2_CONFIRM :: u8 where "P2_CONFIRM = 0x01"

lemmas public_key_parameter_defs = P1_NO_SIGNATURE_def P1_SIGNATURE_def P2_NO_CONFIRM_def P2_CONFIRM_def

text \<open>\<^verbatim>\<open>ERROR_TO_SW()\<close> as the custom error of a macro.\<close>

definition to_sw :: "(error_t, 'a) result \<Rightarrow> (sw_t, 'a) result" where
  "to_sw r = (case r of Ok x \<Rightarrow> Ok x | Err e \<Rightarrow> andthen (error_to_sw e) Err | Fault f \<Rightarrow> Fault f)"

definition set_result_get_public_key ::
    "publicKeyContext_t \<Rightarrow> u8 list \<Rightarrow> (error_t, u8 list \<times> nat) result" where
  "set_result_get_public_key c destination =
     andthen (check (length destination < 32 + (if returnSignature c then 64 else 0)) ERROR_INVALID_LENGTH) (\<lambda>_.
     andthen (memmove_at 0 (compress_public_key (publicKey c)) destination) (\<lambda>destination.
     if returnSignature c
     then andthen (memmove_at 32 (pk_signature c) destination) (\<lambda>destination. Ok (destination, 96))
     else Ok (destination, 32)))"

definition ui_public_key :: "'h platform \<Rightarrow> 'h app_state \<Rightarrow> 'h app_state" where
  "ui_public_key P st =
     (let c = req_pk P (ctx_req st) in
      case device P of
        BAGL \<Rightarrow> st\<lparr>on_screen := Address_review (address c)\<rparr>
      | NBGL \<Rightarrow> let c = c\<lparr>address := (address c)[14 := NL, 29 := NL]\<rparr> in
          st\<lparr>ctx_req := Pk c, on_screen := Address_review (address c)\<rparr>)"

definition dummy_data :: "u8 list" where
  "dummy_data = map of_char ''dummy-data:''"

text \<open>
  The message to sign, if a signature is requested: its pointer, its length and the cursor behind
  it. \<^verbatim>\<open>memcmp\<close> looks at as many bytes as the prefix has, whatever the length of the message.
\<close>

definition read_verification_message ::
    "u8 list \<Rightarrow> bool \<Rightarrow> cursor \<Rightarrow> (sw_t, ptr \<times> u8 \<times> cursor) result" where
  "read_verification_message mem requested cur =
     (if \<not> requested then Ok (None, 0, cur)
      else
        andthen (check (snd cur > 31) SW_INCORRECT_DATA) (\<lambda>_.
        andthen (or_error (read_sub_buffer (snd cur) cur) SW_WRONG_DATA_LENGTH) (\<lambda>(msg, cur').
        andthen (bytes_at mem msg (length dummy_data)) (\<lambda>bs.
        andthen (check (bs \<noteq> dummy_data) SW_INCORRECT_DATA) (\<lambda>_.
        Ok (msg, ucast (snd cur), cur'))))))"

text \<open>Deriving the key pair of a path and signing the verification message, if there is one.\<close>

definition get_public_key_context ::
    "'h platform \<Rightarrow> u8 list \<Rightarrow> bool \<Rightarrow> u32 list \<Rightarrow> u8 \<Rightarrow> ptr \<Rightarrow> u8 \<Rightarrow> publicKeyContext_t \<Rightarrow>
     (sw_t, publicKeyContext_t) result" where
  "get_public_key_context P mem requested path path_length msg msg_length c =
     andthen (sdk (private_key_of P path path_length) SW_CRYPTOGRAPHY_FAIL) (\<lambda>key.
     andthen (sdk (generate_pair P key) SW_CRYPTOGRAPHY_FAIL) (\<lambda>W.
     let c = c\<lparr>publicKey := W, returnSignature := requested\<rparr> in
     if requested \<and> msg \<noteq> None
     then andthen (bytes_at mem msg (unat msg_length)) (\<lambda>m.
       andthen (sdk (eddsa_sign P key m) SW_CRYPTOGRAPHY_FAIL) (\<lambda>sig.
       Ok (c\<lparr>pk_signature := sig\<rparr>)))
     else Ok c))"

text \<open>The confirmation on the screen, or the immediate result.\<close>

definition get_public_key_reply ::
    "'h platform \<Rightarrow> u8 \<Rightarrow> publicKeyContext_t \<Rightarrow> 'h app_state \<Rightarrow> (sw_t, 'h app_state \<times> nat \<times> bool) result" where
  "get_public_key_reply P p2 c st =
     (if p2 AND P2_CONFIRM \<noteq> 0
      then
        andthen (to_sw (print_public_key_as_address (blake2b P) (compress_public_key (publicKey c)))) (\<lambda>t.
        Ok (ui_public_key P (st\<lparr>ctx_req := Pk (c\<lparr>address := t\<rparr>)\<rparr>), 0, True))
      else
        andthen (to_sw (set_result_get_public_key c (G_io_apdu_buffer st))) (\<lambda>(mem, out_apdu_length).
        Ok (st\<lparr>ctx_req := Pk c, G_io_apdu_buffer := mem\<rparr>, out_apdu_length, False)))"

definition handle_get_public_key ::
    "'h platform \<Rightarrow> u8 \<Rightarrow> u8 \<Rightarrow> cursor \<Rightarrow> 'h app_state \<Rightarrow> (sw_t, 'h app_state \<times> nat \<times> bool) result" where
  "handle_get_public_key P p1 p2 cur st =
     (let mem = G_io_apdu_buffer st; requested = (p1 = P1_SIGNATURE) in
      andthen (check (p1 \<noteq> P1_SIGNATURE \<and> p1 \<noteq> P1_NO_SIGNATURE \<or> p2 \<noteq> P2_CONFIRM \<and> p2 \<noteq> P2_NO_CONFIRM)
        SW_WRONG_P1P2) (\<lambda>_.
      andthen (or_error (read_bip32_path mem cur) SW_WRONG_DATA_LENGTH) (\<lambda>((path, path_length), cur).
      andthen (read_verification_message mem requested cur) (\<lambda>(msg, msg_length, cur).
      andthen (check (snd cur \<noteq> 0) SW_WRONG_DATA_LENGTH) (\<lambda>_.
      andthen (get_public_key_context P mem requested path path_length msg msg_length
        (req_pk P (ctx_req st))) (\<lambda>c.
      get_public_key_reply P p2 c st))))))"

section \<open>Requests for public keys\<close>

lemma delivers_to_sw: "delivers Q r \<Longrightarrow> reports parse_error r \<Longrightarrow> delivers Q (to_sw r)"
  using parse_error_to_sw by (cases r) (fastforce simp: to_sw_def)+

lemma to_sw_eq_Ok [simp]: "to_sw r = Ok x \<longleftrightarrow> r = Ok x"
  by (cases r) (auto simp: to_sw_def andthen_def split: result.splits elim!: error_to_sw.elims)

text \<open>
  What reading the verification message comes to: without a message the prefix is looked up at
  \<^verbatim>\<open>NULL\<close>; a message shorter than the prefix is compared together with the bytes behind it.
\<close>

lemma read_verification_message_eq:
  assumes "wf_cursor mem (Some off, n)" "off + 11 \<le> length mem"
  shows "read_verification_message mem True (Some off, n) =
    (if n = 0 then Fault Null_dereference
     else if n > 31 \<or> take 11 (drop off mem) \<noteq> dummy_data then Err SW_INCORRECT_DATA
     else Ok (Some off, ucast n, advance (unat n) (Some off, n)))"
proof (cases "n = 0")
  case True
  then show ?thesis by (simp add: read_verification_message_def bytes_at_def check_def)
next
  case False
  then have "read_sub_buffer n (Some off, n) = Ok (Some off, advance (unat n) (Some off, n))"
    using assms(1) by (simp add: read_sub_buffer_spec)
  moreover have "length dummy_data = 11" by (simp add: dummy_data_def)
  ultimately show ?thesis
    using False assms(2) by (simp add: read_verification_message_def bytes_at_def check_def)
qed

lemma p2_confirm: "p2 = P2_CONFIRM \<or> p2 = P2_NO_CONFIRM \<Longrightarrow> p2 AND P2_CONFIRM \<noteq> 0 \<longleftrightarrow> p2 = P2_CONFIRM"
  by (auto simp: public_key_parameter_defs)

lemma length_dummy_data [simp]: "length dummy_data = 11"
  by (simp add: dummy_data_def)

text \<open>What the message of a request must be to be signed without being shown.\<close>

definition dummy_message :: "u8 list \<Rightarrow> bool" where
  "dummy_message msg = (1 \<le> length msg \<and> length msg \<le> 31 \<and>
     take (length dummy_data) msg = take (length msg) dummy_data)"

lemma read_message_OkD:
  assumes "read_verification_message mem requested cur = Ok (msg, len, cur')" "snd cur' = 0"
    and "wf_cursor mem cur" "cur = (Some off, n)" "off + 11 \<le> length mem"
  shows "if requested
    then dummy_message (view mem cur) \<and> msg = Some off \<and> bytes_at mem msg (unat len) = Ok (view mem cur)
    else view mem cur = [] \<and> msg = None"
proof (cases requested)
  case False
  then show ?thesis using assms by (auto simp: read_verification_message_def)
next
  case True
  have eq: "n \<noteq> 0" "\<not> n > 31" "take 11 (drop off mem) = dummy_data" "msg = Some off" "len = ucast n"
    using assms(1,3,4,5) True read_verification_message_eq [of mem off n] by (auto split: if_splits)
  have n: "unat n \<le> 31" using eq(2) by (simp add: word_less_nat_alt)
  have len: "unat len = unat n"
    using n by (simp add: eq(5) unsigned_ucast_eq take_bit_nat_eq_self)
  have fits: "off + unat n \<le> length mem" using assms(3,4) by simp
  have v: "view mem cur = take (unat n) (drop off mem)" by (simp add: assms(4))
  have lv: "length (view mem cur) = unat n" using fits by (simp add: v)
  have "take 11 (view mem cur) = take (unat n) (take 11 (drop off mem))"
    by (simp only: v take_take min.commute)
  then have "dummy_message (view mem cur)"
    using n eq(1,3) unfolding dummy_message_def lv length_dummy_data
    by (simp add: Suc_le_eq unat_gt_0 del: view.simps)
  moreover have "bytes_at mem msg (unat len) = Ok (view mem cur)"
    using fits by (simp add: v len eq(4) bytes_at_def)
  ultimately show ?thesis using True eq(4) by simp
qed

lemma print_public_key_OkD:
  assumes "print_public_key_as_address hash pk = Ok t" "hash_ok hash"
  shows "\<exists>h. hash pk = Some h \<and> t = address_text (take 20 h)"
proof -
  obtain h where h: "hash pk = Some h" "print_address (take 20 h) = Ok t"
    using assms(1) by (auto simp: print_public_key_as_address_def public_key_to_address_def andthen_eq_Ok
        split: option.splits)
  then have "length (take 20 h) = 20" using assms(2) by auto
  from print_address_eq [OF this] h show ?thesis by simp
qed

text \<open>
  What a successful request did: the key it derived, what it signed, and what it shows or returns.
\<close>

definition key_context ::
    "'h platform \<Rightarrow> bool \<Rightarrow> private_key \<Rightarrow> u8 list \<Rightarrow> publicKeyContext_t \<Rightarrow> bool" where
  "key_context P requested key msg c =
     (pk_arrays c \<and> generate_pair P key = Some (publicKey c) \<and> returnSignature c = requested \<and>
      (if requested then dummy_message msg \<and> eddsa_sign P key msg = Some (pk_signature c) else msg = []))"

definition shown_address :: "'h platform \<Rightarrow> u8 list \<Rightarrow> string" where
  "shown_address P a =
     (if device P = NBGL then (address_text a)[14 := NL, 29 := NL] else address_text a)"

definition key_result :: "publicKeyContext_t \<Rightarrow> u8 list" where
  "key_result c = compress_public_key (publicKey c) @ (if returnSignature c then pk_signature c else [])"

definition public_key_outcome ::
    "'h platform \<Rightarrow> u8 \<Rightarrow> publicKeyContext_t \<Rightarrow> 'h app_state \<Rightarrow> 'h app_state \<Rightarrow> nat \<Rightarrow> bool \<Rightarrow> bool" where
  "public_key_outcome P p2 c st st' n async =
     (ctx_req st' = Pk c \<and> ctx_u2fTimer st' = ctx_u2fTimer st \<and>
      (if p2 = P2_CONFIRM
       then async \<and> n = 0 \<and> G_io_apdu_buffer st' = G_io_apdu_buffer st \<and>
         on_screen st' = Address_review (address c) \<and>
         (\<exists>h. blake2b P (compress_public_key (publicKey c)) = Some h \<and> address c = shown_address P (take 20 h))
       else \<not> async \<and> on_screen st' = on_screen st \<and> n = length (key_result c) \<and>
         G_io_apdu_buffer st' = key_result c @ drop n (G_io_apdu_buffer st)))"

lemma key_result_length: "pk_arrays c \<Longrightarrow> length (key_result c) = (if returnSignature c then 96 else 32)"
  by (simp add: key_result_def pk_arrays_def)

lemma set_result_get_public_key_eq:
  assumes "length destination = IO_APDU_BUFFER_SIZE" "pk_arrays c"
  shows "set_result_get_public_key c destination =
    Ok (key_result c @ drop (length (key_result c)) destination, length (key_result c))"
  using assms by (simp add: set_result_get_public_key_def IO_APDU_BUFFER_SIZE_def pk_arrays_def check_def
      key_result_def)

lemma get_public_key_context_OkD:
  assumes "get_public_key_context P mem requested path n m len c = Ok c'" "platform_ok P" "pk_arrays c"
    and "if requested then dummy_message msg \<and> m \<noteq> None \<and> bytes_at mem m (unat len) = (Ok msg :: (sw_t, _) result)
      else msg = []"
  shows "\<exists>key. private_key_of P path n = Some key \<and> key_context P requested key msg c'"
  using assms platform_okD(1,2) [OF assms(2)]
  by (auto simp: get_public_key_context_def andthen_eq_Ok Let_def key_context_def pk_arrays_def split: if_splits)

lemma get_public_key_reply_OkD:
  assumes "get_public_key_reply P p2 c st = Ok (st', n, async)" "platform_ok P" "pk_arrays c"
    and "length (G_io_apdu_buffer st) = IO_APDU_BUFFER_SIZE" "p2 = P2_CONFIRM \<or> p2 = P2_NO_CONFIRM"
  shows "\<exists>t. public_key_outcome P p2 (c\<lparr>address := t\<rparr>) st st' n async"
proof (cases "p2 = P2_CONFIRM")
  case True
  then obtain t where shown: "print_public_key_as_address (blake2b P) (compress_public_key (publicKey c)) = Ok t"
      "st' = ui_public_key P (st\<lparr>ctx_req := Pk (c\<lparr>address := t\<rparr>)\<rparr>)" "n = 0" "async"
    using assms(1) p2_confirm [OF assms(5)] by (auto simp: get_public_key_reply_def andthen_eq_Ok)
  from print_public_key_OkD [OF this(1) hash_ok_platform [OF assms(2)]]
  obtain h where "blake2b P (compress_public_key (publicKey c)) = Some h" "t = address_text (take 20 h)" by blast
  with True shown(2-4) show ?thesis
    by (intro exI [of _ "shown_address P (take 20 h)"])
      (simp add: public_key_outcome_def ui_public_key_def shown_address_def Let_def split: device.split)
next
  case False
  then have "st' = st\<lparr>ctx_req := Pk c, G_io_apdu_buffer := key_result c @ drop n (G_io_apdu_buffer st)\<rparr>"
      "n = length (key_result c)" "\<not> async"
    using assms(1) p2_confirm [OF assms(5)] set_result_get_public_key_eq [OF assms(4,3)]
    by (auto simp: get_public_key_reply_def andthen_eq_Ok)
  with False show ?thesis
    by (intro exI [of _ "address c"]) (simp add: public_key_outcome_def)
qed

lemma handle_get_public_key_OkD:
  assumes "handle_get_public_key P p1 p2 cur st = Ok (st', n, async)" "platform_ok P" "state_ok st"
    and "cur = (Some OFFSET_CDATA, ucast (lc :: u8))"
  shows "\<exists>path msg key c. view (G_io_apdu_buffer st) cur = path_bytes path @ msg \<and>
    1 \<le> length path \<and> length path \<le> MAX_BIP32_PATH_LENGTH \<and>
    private_key_of P path (of_nat (length path)) = Some key \<and>
    key_context P (p1 = P1_SIGNATURE) key msg c \<and> public_key_outcome P p2 c st st' n async"
proof -
  let ?mem = "G_io_apdu_buffer st"
  have buf: "length ?mem = IO_APDU_BUFFER_SIZE" and r: "request_ok (ctx_req st)"
    using assms(3) by (simp_all add: state_ok_def)
  have wf: "wf_cursor ?mem cur" using wf_command_data [OF buf] by (simp add: assms(4))
  obtain path k cur1 m len cur2 c where p: "p2 = P2_CONFIRM \<or> p2 = P2_NO_CONFIRM"
    and path: "read_bip32_path ?mem cur = Ok ((path, k), cur1)"
    and msg: "read_verification_message ?mem (p1 = P1_SIGNATURE) cur1 = Ok (m, len, cur2)" "snd cur2 = 0"
    and c: "get_public_key_context P ?mem (p1 = P1_SIGNATURE) path k m len (req_pk P (ctx_req st)) = Ok c"
    and reply: "get_public_key_reply P p2 c st = Ok (st', n, async)"
    using assms(1) unfolding handle_get_public_key_def
    by (auto simp: andthen_eq_Ok case_prod_unfold Let_def)
  note path' = read_bip32_path_OkD [OF path wf]
  have k: "k = of_nat (length path)" using path' by simp
  have k10: "unat k \<le> 10" using path' by (simp add: MAX_BIP32_PATH_LENGTH_def)
  obtain off l where cur1: "cur1 = (Some off, l)" and off: "off + 11 \<le> length ?mem"
    using read_bip32_path_advance [OF path wf] k10
    by (simp add: assms(4) OFFSET_CDATA_def buf IO_APDU_BUFFER_SIZE_def)
  note m = read_message_OkD [OF msg _ cur1 off]
  have "\<exists>key. private_key_of P path k = Some key \<and> key_context P (p1 = P1_SIGNATURE) key (view ?mem cur1) c"
    using m path' by (intro get_public_key_context_OkD [OF c assms(2) request_members(1) [OF assms(2) r]])
      (auto split: if_splits)
  then obtain key where key: "private_key_of P path k = Some key"
      "key_context P (p1 = P1_SIGNATURE) key (view ?mem cur1) c" by blast
  then have "pk_arrays c" by (simp add: key_context_def)
  from get_public_key_reply_OkD [OF reply assms(2) this buf p] obtain t
    where out: "public_key_outcome P p2 (c\<lparr>address := t\<rparr>) st st' n async" by blast
  have "key_context P (p1 = P1_SIGNATURE) key (view ?mem cur1) (c\<lparr>address := t\<rparr>)"
    using key(2) by (simp add: key_context_def pk_arrays_def)
  with path' key(1) out show ?thesis unfolding k by blast
qed

section \<open>When a request faults\<close>

lemma get_public_key_reply_no_fault:
  assumes "platform_ok P" "pk_arrays c" "length (G_io_apdu_buffer st) = IO_APDU_BUFFER_SIZE"
  shows "delivers (\<lambda>_. True) (get_public_key_reply P p2 c st)"
proof -
  have "delivers (\<lambda>_. True) (to_sw (print_public_key_as_address (blake2b P) (compress_public_key (publicKey c))))"
    by (intro delivers_to_sw delivers_print_public_key_as_address reports_print_public_key_as_address
        platform_okD(3) [OF assms(1)]) simp_all
  then show ?thesis
    using set_result_get_public_key_eq [OF assms(3,2)]
    by (auto simp: get_public_key_reply_def to_sw_def case_prod_unfold)
qed

lemma get_public_key_context_no_fault:
  assumes "platform_ok P" "pk_arrays c"
    and m: "if requested then dummy_message msg \<and> m \<noteq> None \<and> bytes_at mem m (unat len) = (Ok msg :: (sw_t, _) result)
      else msg = []"
  shows "delivers pk_arrays (get_public_key_context P mem requested path n m len c)"
proof (rule delivers_OkI)
  fix c' assume "get_public_key_context P mem requested path n m len c = Ok c'"
  from get_public_key_context_OkD [OF this assms] show "pk_arrays c'" by (auto simp: key_context_def)
next
  have "delivers (\<lambda>_. True) (get_public_key_context P mem requested path n m len c)"
    using m by (auto simp: get_public_key_context_def Let_def split: if_splits)
  then show "get_public_key_context P mem requested path n m len c \<noteq> Fault f" for f by auto
qed

lemma handle_get_public_key_fault:
  assumes "handle_get_public_key P p1 p2 cur st = Fault f" "platform_ok P" "state_ok st"
    and "cur = (Some OFFSET_CDATA, ucast (lc :: u8))"
  shows "p1 = P1_SIGNATURE \<and> f = Null_dereference \<and> (\<exists>path. 1 \<le> length path \<and>
    length path \<le> MAX_BIP32_PATH_LENGTH \<and> view (G_io_apdu_buffer st) cur = path_bytes path)"
proof -
  let ?mem = "G_io_apdu_buffer st"
  have buf: "length ?mem = IO_APDU_BUFFER_SIZE" and r: "request_ok (ctx_req st)"
    using assms(3) by (simp_all add: state_ok_def)
  have wf: "wf_cursor ?mem cur" using wf_command_data [OF buf] by (simp add: assms(4))
  have "delivers (\<lambda>_. True) (read_bip32_path ?mem cur)" using wf by (auto intro!: delivers_intros)
  then obtain path k cur1 where path: "read_bip32_path ?mem cur = Ok ((path, k), cur1)"
    and rest: "andthen (read_verification_message ?mem (p1 = P1_SIGNATURE) cur1) (\<lambda>(msg, msg_length, cur).
      andthen (check (snd cur \<noteq> 0) SW_WRONG_DATA_LENGTH) (\<lambda>_.
      andthen (get_public_key_context P ?mem (p1 = P1_SIGNATURE) path k msg msg_length (req_pk P (ctx_req st))) (\<lambda>c.
      get_public_key_reply P p2 c st))) = Fault f"
    using assms(1)
    by (cases "read_bip32_path ?mem cur") (auto simp: handle_get_public_key_def Let_def andthen_eq_Fault)
  note path' = read_bip32_path_OkD [OF path wf]
  have k10: "unat k \<le> 10" using path' by (simp add: MAX_BIP32_PATH_LENGTH_def)
  obtain off l where cur1: "cur1 = (Some off, l)" and off: "off + 11 \<le> length ?mem"
    using read_bip32_path_advance [OF path wf] k10
    by (simp add: assms(4) OFFSET_CDATA_def buf IO_APDU_BUFFER_SIZE_def)
  show ?thesis
  proof (cases "p1 = P1_SIGNATURE \<and> l = 0")
    case True
    moreover from this have "1 \<le> length path \<and> length path \<le> MAX_BIP32_PATH_LENGTH \<and>
        view ?mem cur = path_bytes path" using path' cur1 by simp
    moreover have "f = Null_dereference"
      using rest True read_verification_message_eq [of ?mem off l] path' off by (simp add: cur1)
    ultimately show ?thesis by blast
  next
    case False
    obtain msg len cur2 where msg: "read_verification_message ?mem (p1 = P1_SIGNATURE) cur1 = Ok (msg, len, cur2)"
      "andthen (check (snd cur2 \<noteq> 0) SW_WRONG_DATA_LENGTH) (\<lambda>_.
       andthen (get_public_key_context P ?mem (p1 = P1_SIGNATURE) path k msg len (req_pk P (ctx_req st))) (\<lambda>c.
       get_public_key_reply P p2 c st)) = Fault f"
    proof (cases "p1 = P1_SIGNATURE")
      case True
      with False rest that show thesis
        using read_verification_message_eq [of ?mem off l] path' off by (auto simp: cur1 split: if_splits)
    next
      case f: False
      with rest that show thesis by (auto simp: read_verification_message_def)
    qed
    then have cur2: "snd cur2 = 0"
      and c: "andthen (get_public_key_context P ?mem (p1 = P1_SIGNATURE) path k msg len (req_pk P (ctx_req st))) (\<lambda>c.
       get_public_key_reply P p2 c st) = Fault f"
      by (auto simp: check_def split: if_splits)
    have m: "if p1 = P1_SIGNATURE
      then dummy_message (view ?mem cur1) \<and> msg \<noteq> None \<and> bytes_at ?mem msg (unat len) = (Ok (view ?mem cur1) :: (sw_t, _) result)
      else view ?mem cur1 = []"
      using read_message_OkD [OF msg(1) cur2 _ cur1 off] path' by auto
    note key = get_public_key_context_no_fault [OF assms(2) request_members(1) [OF assms(2) r] m, of path k]
    show ?thesis
      using c key get_public_key_reply_no_fault [OF assms(2) _ buf] unfolding andthen_eq_Fault
      by (metis delivers_no_fault deliversD)
  qed
qed

section \<open>Properties\<close>

text \<open>
  C21: Requests for a public key. The data of an accepted request is a derivation path of 1 to 10
  components and, if a signature is requested, a message of 1 to 31 bytes that begins with the prefix
  of dummy data as far as it is long enough; without that request nothing follows the path. The key
  is the one of that path, and nothing but that message is signed with it. With confirmation the
  address of the key is shown and nothing is returned yet; without it the key and the requested
  signature are the result and the screen is left as it is.
\<close>

theorem public_key_request_correct:
  assumes "handle_get_public_key P p1 p2 (Some OFFSET_CDATA, ucast (lc :: u8)) st = Ok (st', n, async)"
    and "platform_ok P" "state_ok st"
  shows "\<exists>path msg key c.
    view (G_io_apdu_buffer st) (Some OFFSET_CDATA, ucast lc) = path_bytes path @ msg \<and>
    1 \<le> length path \<and> length path \<le> MAX_BIP32_PATH_LENGTH \<and>
    private_key_of P path (of_nat (length path)) = Some key \<and>
    key_context P (p1 = P1_SIGNATURE) key msg c \<and> public_key_outcome P p2 c st st' n async"
  by (rule handle_get_public_key_OkD [OF assms refl])

definition example_key_apdu :: "u8 \<Rightarrow> u8 list \<Rightarrow> u8 list" where
  "example_key_apdu p1 msg =
     [0xE0, 0x02, p1, 0x00, of_nat (9 + length msg), 2, 0x80, 0, 0, 44, 0, 0, 0, 7] @ msg"

lemma example_key_request:
  obtains st' where "handle_get_public_key (example_platform BAGL) P1_SIGNATURE P2_NO_CONFIRM
      (Some OFFSET_CDATA, ucast (22 :: u8)) (apdu_state (example_key_apdu P1_SIGNATURE (dummy_data @ [97, 98])))
      = Ok (st', 96, False)"
    "take 96 (G_io_apdu_buffer st') = replicate 32 0 @ pad 64 (dummy_data @ [97, 98])"
proof -
  let ?r = "handle_get_public_key (example_platform BAGL) P1_SIGNATURE P2_NO_CONFIRM
      (Some OFFSET_CDATA, ucast (22 :: u8)) (apdu_state (example_key_apdu P1_SIGNATURE (dummy_data @ [97, 98])))"
  have "(case ?r of Ok (st', n, async) \<Rightarrow> n = 96 \<and> \<not> async \<and>
      take 96 (G_io_apdu_buffer st') = replicate 32 0 @ pad 64 (dummy_data @ [97, 98]) | _ \<Rightarrow> False)"
    by code_simp
  with that show thesis by (cases ?r) auto
qed

theorem public_key_request_correct_witness:
  "\<exists>st' path msg key c. handle_get_public_key (example_platform BAGL) P1_SIGNATURE P2_NO_CONFIRM
      (Some OFFSET_CDATA, ucast (22 :: u8)) (apdu_state (example_key_apdu P1_SIGNATURE (dummy_data @ [97, 98])))
      = Ok (st', 96, False) \<and> private_key_of (example_platform BAGL) path (of_nat (length path)) = Some key \<and>
    key_context (example_platform BAGL) True key msg c \<and>
    take 96 (G_io_apdu_buffer st') = replicate 32 0 @ pad 64 (dummy_data @ [97, 98])"
proof (rule example_key_request)
  fix st'
  assume st': "handle_get_public_key (example_platform BAGL) P1_SIGNATURE P2_NO_CONFIRM
      (Some OFFSET_CDATA, ucast (22 :: u8)) (apdu_state (example_key_apdu P1_SIGNATURE (dummy_data @ [97, 98])))
      = Ok (st', 96, False)"
    "take 96 (G_io_apdu_buffer st') = replicate 32 0 @ pad 64 (dummy_data @ [97, 98])"
  have "state_ok (apdu_state (example_key_apdu P1_SIGNATURE (dummy_data @ [97, 98])))"
    by (rule apdu_state_ok) (simp add: example_key_apdu_def IO_APDU_BUFFER_SIZE_def)
  from public_key_request_correct [OF st'(1) example_platform_ok this] st' show ?thesis by auto
qed

lemma handle_get_public_key_fault_iff:
  assumes "platform_ok P" "state_ok st"
  shows "handle_get_public_key P p1 p2 (Some OFFSET_CDATA, ucast (lc :: u8)) st = Fault f \<longleftrightarrow>
    f = Null_dereference \<and> p1 = P1_SIGNATURE \<and> (p2 = P2_CONFIRM \<or> p2 = P2_NO_CONFIRM) \<and>
    (\<exists>path. 1 \<le> length path \<and> length path \<le> MAX_BIP32_PATH_LENGTH \<and>
      view (G_io_apdu_buffer st) (Some OFFSET_CDATA, ucast lc) = path_bytes path)"
  (is "?fault \<longleftrightarrow> ?empty")
proof
  assume ?fault
  then have "p2 = P2_CONFIRM \<or> p2 = P2_NO_CONFIRM"
    by (rule contrapos_pp) (simp add: handle_get_public_key_def Let_def)
  with handle_get_public_key_fault [OF \<open>?fault\<close> assms refl] show ?empty by auto
next
  let ?mem = "G_io_apdu_buffer st" and ?c = "(Some OFFSET_CDATA, ucast lc) :: cursor"
  assume e: ?empty
  then obtain path where path: "1 \<le> length path" "length path \<le> MAX_BIP32_PATH_LENGTH"
      "view ?mem ?c = path_bytes path" by blast
  have "length ?mem = IO_APDU_BUFFER_SIZE" using assms(2) by (simp add: state_ok_def)
  note wf = wf_command_data [OF this, of lc]
  from read_bip32_path_encoded [OF wf path(1,2), of "[]"] path(3) obtain c'
    where c': "read_bip32_path ?mem ?c = Ok ((path, of_nat (length path)), c')" "view ?mem c' = []" "wf_cursor ?mem c'"
    by (auto simp: path_bytes_def)
  then have "snd c' = 0" by (simp add: view_Nil_iff)
  then have "read_verification_message ?mem True c' = Fault Null_dereference"
    by (cases c') (simp add: read_verification_message_def read_sub_buffer_def bytes_at_def check_def)
  with e c'(1) show ?fault
    by (auto simp: handle_get_public_key_def Let_def check_def)
qed

lemma confirmed_request_prints:
  assumes "public_key_outcome P p2 c st st' n async" "platform_ok P" "async"
  shows "\<exists>addr. length addr = 20 \<and> on_screen st' = Address_review (shown_address P addr) \<and> one_byte_behind addr"
proof -
  obtain h where h: "blake2b P (compress_public_key (publicKey c)) = Some h"
      "on_screen st' = Address_review (shown_address P (take 20 h))"
    using assms(1,3) by (auto simp: public_key_outcome_def split: if_splits)
  then have "length (take 20 h) = 20" using assms(2) by (auto simp: platform_ok_def)
  with h(2) one_byte_behind show ?thesis by blast
qed

text \<open>
  C22: A request for a public key faults exactly if it asks for a signature and its message is empty:
  the comparison with the prefix then reads through the null pointer that stands for no bytes. No
  other request faults, whatever the data and the state, if the byte behind the digit array of
  \<^verbatim>\<open>iban_check\<close> can be read. The second part says where that condition matters: every accepted request
  with a confirmation prints an address, for which the check digits cannot be computed without reading
  that byte and do not depend on it; a request without a confirmation prints none.
\<close>

theorem public_key_request_fault:
  assumes "platform_ok P" "state_ok st"
  shows "(handle_get_public_key P p1 p2 (Some OFFSET_CDATA, ucast (lc :: u8)) st = Fault f \<longleftrightarrow>
      f = Null_dereference \<and> p1 = P1_SIGNATURE \<and> (p2 = P2_CONFIRM \<or> p2 = P2_NO_CONFIRM) \<and>
      (\<exists>path. 1 \<le> length path \<and> length path \<le> MAX_BIP32_PATH_LENGTH \<and>
        view (G_io_apdu_buffer st) (Some OFFSET_CDATA, ucast lc) = path_bytes path)) \<and>
    (handle_get_public_key P p1 p2 (Some OFFSET_CDATA, ucast lc) st = Ok (st', n, async) \<longrightarrow>
      async = (p2 = P2_CONFIRM) \<and>
      (async \<longrightarrow> (\<exists>addr. length addr = 20 \<and> on_screen st' = Address_review (shown_address P addr) \<and>
        iban_check_mem None (base32_string addr) = Fault Out_of_bounds \<and>
        (\<forall>b. iban_check_mem (Some b) (base32_string addr) = iban_check (base32_string addr)))))"
proof (intro conjI impI)
  assume "handle_get_public_key P p1 p2 (Some OFFSET_CDATA, ucast lc) st = Ok (st', n, async)"
  from handle_get_public_key_OkD [OF this assms refl]
  obtain c where c: "public_key_outcome P p2 c st st' n async" by blast
  then show "async = (p2 = P2_CONFIRM)" by (auto simp: public_key_outcome_def split: if_splits)
  show "\<exists>addr. length addr = 20 \<and> on_screen st' = Address_review (shown_address P addr) \<and>
      iban_check_mem None (base32_string addr) = Fault Out_of_bounds \<and>
      (\<forall>b. iban_check_mem (Some b) (base32_string addr) = iban_check (base32_string addr))" if async
    using confirmed_request_prints [OF c assms(1) that] by (simp add: one_byte_behind_def)
qed (rule handle_get_public_key_fault_iff [OF assms])

theorem public_key_request_fault_witness:
  "handle_get_public_key (example_platform NBGL) P1_SIGNATURE P2_CONFIRM
     (Some OFFSET_CDATA, ucast (9 :: u8)) (apdu_state (example_key_apdu P1_SIGNATURE [])) = Fault Null_dereference"
proof -
  have ok: "state_ok (apdu_state (example_key_apdu P1_SIGNATURE []) :: u8 list app_state)"
    by (rule apdu_state_ok) (simp add: example_key_apdu_def IO_APDU_BUFFER_SIZE_def)
  have "view (G_io_apdu_buffer (apdu_state (example_key_apdu P1_SIGNATURE []) :: u8 list app_state))
      (Some OFFSET_CDATA, ucast (9 :: u8)) = path_bytes [0x8000002C, 7]"
    by (simp add: apdu_state_def example_key_apdu_def OFFSET_CDATA_def path_bytes_def be_bytes_4)
  then show ?thesis
    using public_key_request_fault [OF example_platform_ok ok, of NBGL P1_SIGNATURE P2_CONFIRM 9 Null_dereference]
    by (auto simp: MAX_BIP32_PATH_LENGTH_def intro!: exI [of _ "[0x8000002C, 7]"])
qed

end
