(* ===== verification/Transaction_Signing.thy ===== *)
theory Transaction_Signing
  imports Public_Keys
begin

text \<open>
  Requests to sign a transaction: \<^verbatim>\<open>handle_sign_transaction\<close> of \<^verbatim>\<open>src/src/main.c\<close>. The bytes of the
  transaction arrive in chunks, the first of them behind the derivation path and the version.

  The lemmas show what a sequence of chunks leaves in the context, that the review is the one of the
  bytes received, and when a request faults.
\<close>

section \<open>Transactions\<close>

definition sign_transaction_first ::
    "u8 list \<Rightarrow> cursor \<Rightarrow> transactionContext_t \<Rightarrow> (sw_t, transactionContext_t) result" where
  "sign_transaction_first mem cur t =
     andthen (or_error (read_bip32_path mem cur) SW_WRONG_DATA_LENGTH) (\<lambda>((path, path_length), cur).
     andthen (or_error (read_u8 mem cur) SW_WRONG_DATA_LENGTH) (\<lambda>(version, cur).
     andthen (check (unat (snd cur) > MAX_RAW_TX) SW_WRONG_DATA_LENGTH) (\<lambda>_.
     andthen (bytes_at mem (fst cur) (unat (snd cur))) (\<lambda>data.
     andthen (memmove_at 0 data (rawTx t)) (\<lambda>raw.
     Ok (t\<lparr>tx_bip32Path := path @ drop (length path) (tx_bip32Path t), tx_bip32PathLength := path_length,
           transactionVersion := version, rawTxLength := ucast (snd cur), rawTx := raw\<rparr>))))))"

definition sign_transaction_more ::
    "u8 list \<Rightarrow> cursor \<Rightarrow> transactionContext_t \<Rightarrow> (sw_t, transactionContext_t) result" where
  "sign_transaction_more mem cur t =
     (let offset = rawTxLength t; len = rawTxLength t + ucast (snd cur) in
      andthen (check (unat len > MAX_RAW_TX) SW_WRONG_DATA_LENGTH) (\<lambda>_.
      andthen (bytes_at mem (fst cur) (unat (snd cur))) (\<lambda>data.
      andthen (memmove_at (unat offset) data (rawTx t)) (\<lambda>raw.
      Ok (t\<lparr>rawTxLength := len, rawTx := raw\<rparr>)))))"

text \<open>What follows the reading of a chunk: waiting for more, or parsing and reviewing.\<close>

definition sign_transaction_rest ::
    "'h platform \<Rightarrow> u8 \<Rightarrow> 'h app_state \<Rightarrow> transactionContext_t \<Rightarrow> (sw_t, 'h app_state \<times> bool) result" where
  "sign_transaction_rest P p2 st t =
     (if p2 = P2_MORE then Ok (st\<lparr>ctx_req := Tx t\<rparr>, False)
      else
        andthen (to_sw (parse_tx (blake2b P) (rawTx t) (transactionVersion t) (Some 0, ucast (rawTxLength t)))) (\<lambda>p.
        andthen (ui_transaction_signing (device P) p) (\<lambda>screen.
        Ok (review_scratch P (st\<lparr>ctx_req := Tx (t\<lparr>parsed := p\<rparr>), on_screen := Transaction_review screen\<rparr>), True))))"

definition handle_sign_transaction ::
    "'h platform \<Rightarrow> u8 \<Rightarrow> u8 \<Rightarrow> cursor \<Rightarrow> 'h app_state \<Rightarrow> (sw_t, 'h app_state \<times> bool) result" where
  "handle_sign_transaction P p1 p2 cur st =
     andthen (check (p1 \<noteq> P1_FIRST \<and> p1 \<noteq> P1_MORE \<or> p2 \<noteq> P2_LAST \<and> p2 \<noteq> P2_MORE) SW_WRONG_P1P2) (\<lambda>_.
     andthen
       (if p1 = P1_FIRST
        then sign_transaction_first (G_io_apdu_buffer st) cur (req_tx P (ctx_req st))
        else sign_transaction_more (G_io_apdu_buffer st) cur (req_tx P (ctx_req st))) (\<lambda>t.
     sign_transaction_rest P p2 st t))"

section \<open>Chunks of a transaction\<close>

text \<open>
  A context whose arrays have their sizes and whose bytes received so far fit the buffer; these bytes;
  and the context of the upload of \<open>data\<close> for a path and a version.
\<close>

definition tx_context_ok :: "transactionContext_t \<Rightarrow> bool" where
  "tx_context_ok t = (tx_arrays t \<and> unat (rawTxLength t) \<le> MAX_RAW_TX)"

definition received_data :: "transactionContext_t \<Rightarrow> u8 list" where
  "received_data t = take (unat (rawTxLength t)) (rawTx t)"

definition tx_received ::
    "u32 list \<Rightarrow> transaction_version_t \<Rightarrow> u8 list \<Rightarrow> transactionContext_t \<Rightarrow> bool" where
  "tx_received path version data t =
     (tx_arrays t \<and> unat (tx_bip32PathLength t) = length path \<and> take (length path) (tx_bip32Path t) = path \<and>
      transactionVersion t = version \<and> unat (rawTxLength t) = length data \<and>
      length data \<le> MAX_RAW_TX \<and> take (length data) (rawTx t) = data)"

lemma unat_ucast_u16 [simp]: "unat (ucast (n :: u16) :: u32) = unat n"
  using unat_bounds(2) [of n] by (simp add: unsigned_ucast_eq take_bit_nat_eq_self)

lemma sign_transaction_first_OkD:
  assumes "sign_transaction_first mem cur t = Ok t'" "wf_cursor mem cur" "fst cur \<noteq> None" "tx_arrays t"
  obtains path version data where "view mem cur = path_bytes path @ version # data"
    "1 \<le> length path" "length path \<le> MAX_BIP32_PATH_LENGTH" "tx_received path version data t'"
proof -
  obtain path n c version c1 raw where r: "read_bip32_path mem cur = Ok ((path, n), c)"
      "read_u8 mem c = Ok (version, c1)"
    and b: "unat (snd c1) \<le> MAX_RAW_TX"
      "andthen (bytes_at mem (fst c1) (unat (snd c1))) (\<lambda>data. memmove_at 0 data (rawTx t)) = (Ok raw :: (sw_t, _) result)"
      "t' = t\<lparr>tx_bip32Path := path @ drop (length path) (tx_bip32Path t), tx_bip32PathLength := n,
         transactionVersion := version, rawTxLength := ucast (snd c1), rawTx := raw\<rparr>"
    using assms(1) unfolding sign_transaction_first_def by (auto simp: andthen_eq_Ok)
  note path = read_bip32_path_OkD [OF r(1) assms(2)]
  have c1: "wf_cursor mem c1" "view mem c = version # view mem c1"
    using read_u8_OkD [OF r(2)] path by blast+
  have "fst c1 \<noteq> None"
    using assms(3) r8.read_OkD(5) [OF _ r(2)] path read_bip32_path_advance [OF r(1) assms(2)] by simp
  then have "bytes_at mem (fst c1) (unat (snd c1)) = (Ok (view mem c1) :: (sw_t, _) result)"
    using c1(1) by (cases c1 rule: cursor_cases) (auto simp: bytes_at_def)
  then have "memmove_at 0 (view mem c1) (rawTx t) = (Ok raw :: (sw_t, _) result)" using b(2) by simp
  then have "tx_received path version (view mem c1) t'"
    using b(1) path assms(4) length_view [OF c1(1)]
    by (simp add: tx_received_def tx_arrays_def b(3) memmove_at_eq_Ok)
  with path c1(2) show thesis by (intro that [of path version "view mem c1"]) simp_all
qed

lemma tx_received_iff:
  "tx_received path version data t \<longleftrightarrow>
    tx_context_ok t \<and> transactionVersion t = version \<and> received_data t = data \<and>
    unat (tx_bip32PathLength t) = length path \<and> take (length path) (tx_bip32Path t) = path"
  by (auto simp: tx_received_def tx_context_ok_def received_data_def tx_arrays_def MAX_RAW_TX_def)

text \<open>A further chunk is appended to what has been received, whatever the rest of the context is.\<close>

lemma sign_transaction_more_appends:
  assumes "sign_transaction_more mem cur t = Ok t'" "wf_cursor mem cur" "fst cur \<noteq> None" "tx_context_ok t"
  shows "tx_context_ok t' \<and> received_data t' = received_data t @ view mem cur \<and>
    tx_bip32Path t' = tx_bip32Path t \<and> tx_bip32PathLength t' = tx_bip32PathLength t \<and>
    transactionVersion t' = transactionVersion t"
proof -
  have new: "bytes_at mem (fst cur) (unat (snd cur)) = (Ok (view mem cur) :: (sw_t, _) result)"
    using assms(2,3) by (cases cur rule: cursor_cases) (auto simp: bytes_at_def)
  have raw: "unat (rawTxLength t) \<le> 188" "length (rawTx t) = 188"
    using assms(4) by (simp_all add: tx_context_ok_def tx_arrays_def MAX_RAW_TX_def)
  have "unat (rawTxLength t) + unat (ucast (snd cur) :: u32) < 2 ^ LENGTH(32)"
    using raw(1) unat_bounds(2) [of "snd cur"] by simp
  then have sum: "unat (rawTxLength t + ucast (snd cur)) = unat (rawTxLength t) + unat (snd cur)"
    unfolding unat_add_lem by simp
  have t': "unat (rawTxLength t) + unat (snd cur) \<le> 188"
      "memmove_at (unat (rawTxLength t)) (view mem cur) (rawTx t) = (Ok (rawTx t') :: (sw_t, _) result)"
      "t' = t\<lparr>rawTxLength := rawTxLength t + ucast (snd cur), rawTx := rawTx t'\<rparr>"
    using assms(1) new by (auto simp: sign_transaction_more_def Let_def andthen_eq_Ok sum MAX_RAW_TX_def)
  have same: "rawTxLength t' = rawTxLength t + ucast (snd cur)"
    "tx_bip32Path t' = tx_bip32Path t" "tx_bip32PathLength t' = tx_bip32PathLength t"
    "transactionVersion t' = transactionVersion t"
    by (subst t'(3), simp)+
  have "rawTx t' = received_data t @ view mem cur @ drop (unat (rawTxLength t) + unat (snd cur)) (rawTx t)"
    using t'(2) length_view [OF assms(2)] by (simp add: memmove_at_eq_Ok received_data_def)
  then show ?thesis
    using same t'(1) raw assms(4) length_view [OF assms(2)] sum
    by (auto simp: received_data_def tx_context_ok_def tx_arrays_def MAX_RAW_TX_def)
qed

lemma sign_transaction_more_OkD:
  assumes "sign_transaction_more mem cur t = Ok t'" "wf_cursor mem cur" "fst cur \<noteq> None"
    and "tx_received path version data t"
  shows "tx_received path version (data @ view mem cur) t'"
  using sign_transaction_more_appends [OF assms(1-3)] assms(4) by (simp add: tx_received_iff)

text \<open>
  What the handler leaves when all of \<open>data\<close> has been received: a context that waits for more, or the
  review of the transaction \<open>data\<close>.
\<close>

definition tx_reviewed ::
    "'h platform \<Rightarrow> u32 list \<Rightarrow> transaction_version_t \<Rightarrow> u8 list \<Rightarrow> transactionContext_t \<Rightarrow> screen \<Rightarrow> bool" where
  "tx_reviewed P path version data t screen =
     (tx_received path version data t \<and>
      parse_tx (blake2b P) (rawTx t) version (Some 0, of_nat (length data)) = Ok (parsed t) \<and>
      ui_transaction_signing (device P) (parsed t) = (Ok screen :: (sw_t, _) result))"

definition tx_outcome ::
    "'h platform \<Rightarrow> u8 \<Rightarrow> u32 list \<Rightarrow> transaction_version_t \<Rightarrow> u8 list \<Rightarrow> 'h app_state \<Rightarrow> 'h app_state \<Rightarrow> bool \<Rightarrow> bool" where
  "tx_outcome P p2 path version data st st' async =
     (if p2 = P2_MORE
      then \<not> async \<and> on_screen st' = on_screen st \<and>
        (\<exists>t. ctx_req st' = Tx t \<and> tx_received path version data t)
      else async \<and> (\<exists>t screen. ctx_req st' = Tx t \<and> tx_reviewed P path version data t screen \<and>
        on_screen st' = Transaction_review screen))"

lemma tx_received_parsed [simp]:
  "tx_received path version data (t\<lparr>parsed := p\<rparr>) = tx_received path version data t"
  by (simp add: tx_received_def tx_arrays_def)

lemma sign_transaction_rest_OkD:
  assumes "sign_transaction_rest P p2 st t = Ok (st', async)" "tx_received path version data t"
  shows "tx_outcome P p2 path version data st st' async"
proof -
  have "(ucast (rawTxLength t) :: u16) = of_nat (length data)"
    using assms(2) by (intro word_eq_iff_unsigned [where 'a = nat, THEN iffD2]) (simp add: tx_received_def unsigned_ucast_eq unat_of_nat take_bit_eq_mod)
  then show ?thesis using assms
    by (auto simp: sign_transaction_rest_def tx_outcome_def tx_reviewed_def andthen_eq_Ok split: if_splits)
      (auto simp: tx_received_def)
qed

lemma handle_sign_transaction_OkD:
  assumes "handle_sign_transaction P p1 p2 cur st = Ok r"
  shows "p1 = P1_FIRST \<or> p1 = P1_MORE" "p2 = P2_LAST \<or> p2 = P2_MORE"
    and "p1 = P1_FIRST \<Longrightarrow> \<exists>t. sign_transaction_first (G_io_apdu_buffer st) cur (req_tx P (ctx_req st)) = Ok t \<and>
      sign_transaction_rest P p2 st t = Ok r"
    and "p1 = P1_MORE \<Longrightarrow> \<exists>t. sign_transaction_more (G_io_apdu_buffer st) cur (req_tx P (ctx_req st)) = Ok t \<and>
      sign_transaction_rest P p2 st t = Ok r"
  using assms by (auto simp: handle_sign_transaction_def chunk_parameter_defs andthen_eq_Ok)

lemma handle_sign_transaction_first:
  assumes "handle_sign_transaction P P1_FIRST p2 cur st = Ok (st', async)" "platform_ok P" "state_ok st"
    and "wf_cursor (G_io_apdu_buffer st) cur" "fst cur \<noteq> None"
  shows "\<exists>path version chunk. view (G_io_apdu_buffer st) cur = path_bytes path @ version # chunk \<and>
    1 \<le> length path \<and> length path \<le> MAX_BIP32_PATH_LENGTH \<and> tx_outcome P p2 path version chunk st st' async"
proof -
  have arrays: "tx_arrays (req_tx P (ctx_req st))"
    using request_members(2) [OF assms(2)] assms(3) by (simp add: state_ok_def)
  obtain t where t: "sign_transaction_first (G_io_apdu_buffer st) cur (req_tx P (ctx_req st)) = Ok t"
      "sign_transaction_rest P p2 st t = Ok (st', async)"
    using handle_sign_transaction_OkD(3) [OF assms(1)] by auto
  show ?thesis
    by (rule sign_transaction_first_OkD [OF t(1) assms(4,5) arrays])
      (use sign_transaction_rest_OkD [OF t(2)] in blast)
qed

lemma handle_sign_transaction_more:
  assumes "handle_sign_transaction P P1_MORE p2 cur st = Ok (st', async)"
    and "wf_cursor (G_io_apdu_buffer st) cur" "fst cur \<noteq> None"
    and "ctx_req st = Tx t" "tx_received path version data t"
  shows "tx_outcome P p2 path version (data @ view (G_io_apdu_buffer st) cur) st st' async"
proof -
  obtain t' where t': "sign_transaction_more (G_io_apdu_buffer st) cur t = Ok t'"
      "sign_transaction_rest P p2 st t' = Ok (st', async)"
    using handle_sign_transaction_OkD(4) [OF assms(1)] assms(4) by auto
  show ?thesis
    by (rule sign_transaction_rest_OkD [OF t'(2) sign_transaction_more_OkD [OF t'(1) assms(2,3,5)]])
qed

section \<open>When a request faults\<close>

lemma delivers_bytes_at_cursor:
  assumes "wf_cursor mem c" "fst c \<noteq> None" "Q (view mem c)"
  shows "delivers Q (bytes_at mem (fst c) (unat (snd c)))"
  using assms by (cases c rule: cursor_cases) (auto simp: bytes_at_def)

lemma delivers_read_u8_at:
  assumes "wf_cursor mem c \<and> fst c \<noteq> None"
  shows "delivers (\<lambda>r. wf_cursor mem (snd r) \<and> fst (snd r) \<noteq> None) (read_u8 mem c)"
  using assms r8.delivers_read [of mem c]
  by (cases c rule: cursor_cases) (auto elim!: delivers_mono simp del: wf_cursor.simps)

lemma delivers_read_bip32_path_at:
  assumes "wf_cursor mem c" "fst c \<noteq> None"
  shows "delivers (\<lambda>r. wf_cursor mem (snd r) \<and> fst (snd r) \<noteq> None) (read_bip32_path mem c)"
proof (rule delivers_OkI)
  have "delivers (\<lambda>_. True) (read_bip32_path mem c)"
    using assms(1) by (auto intro!: delivers_intros)
  then show "read_bip32_path mem c \<noteq> Fault f" for f by auto
next
  fix x assume x: "read_bip32_path mem c = Ok x"
  then obtain path n c' where "x = ((path, n), c')" "read_bip32_path mem c = Ok ((path, n), c')"
    by (metis prod.exhaust)
  then show "wf_cursor mem (snd x) \<and> fst (snd x) \<noteq> None"
    using read_bip32_path_OkD [OF _ assms(1)] read_bip32_path_advance [OF _ assms(1)] assms(2) by auto
qed

lemma delivers_sign_transaction_first:
  assumes "wf_cursor mem cur" "fst cur \<noteq> None" "tx_arrays t"
  shows "delivers tx_context_ok (sign_transaction_first mem cur t)"
proof (rule delivers_OkI)
  fix t' assume t': "sign_transaction_first mem cur t = Ok t'"
  then show "tx_context_ok t'"
    by (rule sign_transaction_first_OkD [OF _ assms]) (simp add: tx_received_def tx_context_ok_def)
next
  have copy: "delivers (\<lambda>data. delivers (\<lambda>raw. True) (memmove_at 0 data (rawTx t) :: (sw_t, _) result))
      (bytes_at mem (fst c) (unat (snd c)) :: (sw_t, _) result)"
    if "wf_cursor mem c" "fst c \<noteq> None" "unat (snd c) \<le> MAX_RAW_TX" for c
    using that assms(3) length_view [OF that(1)]
    by (intro delivers_bytes_at_cursor) (simp_all add: tx_arrays_def)
  have "delivers (\<lambda>_. True) (sign_transaction_first mem cur t)"
    unfolding sign_transaction_first_def
    using delivers_read_bip32_path_at [OF assms(1,2)]
    by (auto simp: case_prod_unfold not_less intro!: copy
        elim!: delivers_mono [OF delivers_read_u8_at] elim: delivers_mono simp del: not_None_eq)
  then show "sign_transaction_first mem cur t \<noteq> Fault f" for f by auto
qed

lemma delivers_sign_transaction_more:
  assumes "wf_cursor mem cur" "fst cur \<noteq> None" "tx_context_ok t"
  shows "delivers tx_context_ok (sign_transaction_more mem cur t)"
proof -
  have "unat (rawTxLength t) + unat (ucast (snd cur) :: u32) < 2 ^ LENGTH(32)"
    using assms(3) unat_bounds(2) [of "snd cur"] by (simp add: tx_context_ok_def MAX_RAW_TX_def)
  then have "unat (rawTxLength t + ucast (snd cur)) = unat (rawTxLength t) + unat (snd cur)"
    unfolding unat_add_lem by simp
  then show ?thesis using assms length_view [OF assms(1)]
    by (auto simp: sign_transaction_more_def Let_def tx_context_ok_def tx_arrays_def
        intro!: delivers_bytes_at_cursor)
qed

text \<open>
  The bytes of a transaction that creates a contract and can be displayed, in terms of what they mean.
\<close>

fun creates_contract :: "payload \<Rightarrow> bool" where
  "creates_contract (Vesting_creation owner v) = True"
| "creates_contract (Htlc_creation h) = True"
| "creates_contract p = False"

definition contract_creation :: "'h platform \<Rightarrow> transaction_version_t \<Rightarrow> u8 list \<Rightarrow> bool" where
  "contract_creation P version data =
     (\<exists>tx p s. tx_ok version tx \<and> carries version tx p \<and> data = tx_bytes version tx \<and> creates_contract p \<and>
       tx_display (blake2b P) version tx p = Ok s)"

lemma contract_creation_type:
  assumes "tx_display hash version tx p = Ok (observe shown out)"
    and "transaction_type out = TRANSACTION_TYPE_VESTING_CREATION \<or> transaction_type out = TRANSACTION_TYPE_HTLC_CREATION"
  shows "creates_contract p"
  using assms by (cases p) (auto simp: tx_display_def observe_def andthen_eq_Ok case_prod_unfold)

lemma sign_transaction_rest_fault:
  assumes "tx_context_ok t" "platform_ok P" "sign_transaction_rest P p2 st t = Fault f"
  shows "device P = NBGL \<and> f = Assertion_failed \<and> p2 \<noteq> P2_MORE \<and>
    contract_creation P (transactionVersion t) (received_data t)"
proof -
  let ?c = "(Some 0, ucast (rawTxLength t)) :: cursor"
  let ?r = "parse_tx (blake2b P) (rawTx t) (transactionVersion t) ?c"
  have n: "unat (ucast (rawTxLength t) :: u16) = unat (rawTxLength t)"
    using assms(1) by (simp add: tx_context_ok_def MAX_RAW_TX_def unsigned_ucast_eq take_bit_nat_eq_self)
  have wf: "wf_cursor (rawTx t) ?c" and v: "view (rawTx t) ?c = received_data t"
    using assms(1) by (simp_all add: tx_context_ok_def tx_arrays_def n received_data_def)
  note hash = hash_ok_platform [OF assms(2)]
  have "delivers (\<lambda>_. True) ?r" using wf hash by (rule delivers_parse_tx) simp
  then have "delivers (\<lambda>p. ?r = Ok p) (to_sw ?r)"
    by (intro delivers_to_sw reports_parse_tx) (cases ?r; simp)
  then obtain p where p: "?r = Ok p" "ui_transaction_signing (device P) p = (Fault f :: (sw_t, _) result)"
      "p2 \<noteq> P2_MORE"
    using assms(3)
    by (cases "to_sw ?r") (auto simp: sign_transaction_rest_def andthen_def to_sw_def split: if_splits result.splits)
  from parse_tx_members [OF p(1) wf hash] p(2) have nbgl: "device P = NBGL \<and> f = Assertion_failed"
    and "transaction_type p = TRANSACTION_TYPE_VESTING_CREATION \<or> transaction_type p = TRANSACTION_TYPE_HTLC_CREATION"
    by (cases "device P"; auto simp: bagl_screen nbgl_screen split: if_splits simp del: ui_transaction_signing.simps)+
  then show ?thesis
    using parse_tx_Ok_display [OF p(1) wf hash, unfolded v] contract_creation_type p(3)
    unfolding contract_creation_def by metis
qed

text \<open>What has been uploaded of a transaction when a chunk has been read.\<close>

definition uploaded_so_far ::
    "'h platform \<Rightarrow> u8 \<Rightarrow> u8 list \<Rightarrow> 'h app_state \<Rightarrow> transaction_version_t \<Rightarrow> u8 list \<Rightarrow> bool" where
  "uploaded_so_far P p1 chunk st version data =
     (if p1 = P1_FIRST
      then \<exists>path. 1 \<le> length path \<and> length path \<le> MAX_BIP32_PATH_LENGTH \<and> chunk = path_bytes path @ version # data
      else p1 = P1_MORE \<and> tx_context_ok (req_tx P (ctx_req st)) \<and> version = transactionVersion (req_tx P (ctx_req st)) \<and>
        data = received_data (req_tx P (ctx_req st)) @ chunk)"

lemma handle_sign_transaction_fault:
  assumes "handle_sign_transaction P p1 p2 cur st = Fault f" "platform_ok P" "state_ok st"
    and "wf_cursor (G_io_apdu_buffer st) cur" "fst cur \<noteq> None"
  shows "p1 = P1_MORE \<and> \<not> tx_context_ok (req_tx P (ctx_req st)) \<or>
    device P = NBGL \<and> f = Assertion_failed \<and> p2 = P2_LAST \<and>
    (\<exists>version data. uploaded_so_far P p1 (view (G_io_apdu_buffer st) cur) st version data \<and>
      contract_creation P version data)"
proof (cases "p1 = P1_MORE \<and> \<not> tx_context_ok (req_tx P (ctx_req st))")
  case continues: False
  let ?t = "req_tx P (ctx_req st)" and ?mem = "G_io_apdu_buffer st"
  let ?read = "if p1 = P1_FIRST then sign_transaction_first ?mem cur ?t else sign_transaction_more ?mem cur ?t"
  have p: "p1 = P1_FIRST \<or> p1 = P1_MORE" "p2 = P2_LAST \<or> p2 = P2_MORE"
    using assms(1) by (auto simp: handle_sign_transaction_def check_def split: if_splits)
  then have context_ok: "tx_context_ok ?t" if "p1 \<noteq> P1_FIRST" using that continues by blast
  have arrays: "tx_arrays ?t"
    using request_members(2) [OF assms(2)] assms(3) by (simp add: state_ok_def)
  have "delivers tx_context_ok ?read"
    using delivers_sign_transaction_first [OF assms(4,5) arrays] delivers_sign_transaction_more [OF assms(4,5)]
      context_ok by simp
  then obtain t where t: "?read = Ok t" "sign_transaction_rest P p2 st t = Fault f" "tx_context_ok t"
    using assms(1) by (cases ?read) (auto simp: handle_sign_transaction_def check_def split: if_splits)
  have "uploaded_so_far P p1 (view ?mem cur) st (transactionVersion t) (received_data t)"
  proof (cases "p1 = P1_FIRST")
    case True
    then have "sign_transaction_first ?mem cur ?t = Ok t" using t(1) by simp
    then show ?thesis
      by (rule sign_transaction_first_OkD [OF _ assms(4,5) arrays])
        (use True in \<open>auto simp: uploaded_so_far_def tx_received_iff\<close>)
  next
    case False
    with t(1) sign_transaction_more_appends [OF _ assms(4,5) context_ok [OF False], of t] show ?thesis
      using p(1) by (simp add: uploaded_so_far_def context_ok)
  qed
  with sign_transaction_rest_fault [OF t(3) assms(2) t(2)] p(2)
  show ?thesis by blast
qed simp

lemma tx_outcome_ok:
  "tx_outcome P p2 path version data st st' async \<Longrightarrow> \<exists>t. ctx_req st' = Tx t \<and> tx_context_ok t"
  by (auto simp: tx_outcome_def tx_reviewed_def tx_received_def tx_context_ok_def split: if_splits)

text \<open>Every accepted request leaves a context of its own kind in order.\<close>

lemma handle_sign_transaction_ok:
  assumes "handle_sign_transaction P p1 p2 cur st = Ok (st', async)" "platform_ok P" "state_ok st"
    and "wf_cursor (G_io_apdu_buffer st) cur" "fst cur \<noteq> None"
    and "p1 \<noteq> P1_FIRST \<Longrightarrow> tx_context_ok (req_tx P (ctx_req st))"
  shows "(\<exists>t. ctx_req st' = Tx t \<and> tx_context_ok t) \<and> state_ok st' \<and> ctx_u2fTimer st' = ctx_u2fTimer st \<and>
    async = (p2 = P2_LAST)"
proof -
  have arrays: "tx_arrays (req_tx P (ctx_req st))"
    using request_members(2) [OF assms(2)] assms(3) by (simp add: state_ok_def)
  obtain t where t: "tx_context_ok t" "sign_transaction_rest P p2 st t = Ok (st', async)"
    using handle_sign_transaction_OkD [OF assms(1)] assms(6)
      deliversD [OF delivers_sign_transaction_first [OF assms(4,5) arrays]]
      deliversD [OF delivers_sign_transaction_more [OF assms(4,5)]]
    by (metis)
  moreover have "p2 = P2_LAST \<or> p2 = P2_MORE" by (rule handle_sign_transaction_OkD(2) [OF assms(1)])
  ultimately show ?thesis using assms(2,3)
    by (auto simp: sign_transaction_rest_def andthen_eq_Ok tx_context_ok_def tx_arrays_def state_ok_def
        length_review_scratch chunk_parameter_defs split: if_splits)
qed

end
