(* ===== verification/Staker_Proof.thy ===== *)
theory Staker_Proof
  imports Review
begin

text \<open>
  Where the signature proof of staking data lies in the bytes of the transaction: the pointers that
  the parser returns address the key and the signature in the last 98 bytes of the data. The approval
  of a transaction writes through these pointers, so this is what decides which bytes change.
\<close>

section \<open>Readers only move forward\<close>

text \<open>The cursor \<open>c'\<close> is \<open>c\<close> after some of its bytes.\<close>

definition reaches :: "cursor \<Rightarrow> cursor \<Rightarrow> bool" where
  "reaches c c' = (\<exists>w. w \<le> unat (snd c) \<and> c' = advance w c)"

lemma reaches_refl [intro]: "reaches c c"
  by (cases c rule: cursor_cases) (auto simp: reaches_def intro: exI [of _ 0])

lemma unat_advance: "w \<le> unat (snd (Some off, n :: u16)) \<Longrightarrow> unat (snd (advance w (Some off, n))) = unat n - w"
  by (simp add: unat_diff_of_nat)

lemma reaches_trans [trans]: "reaches a b \<Longrightarrow> reaches b c \<Longrightarrow> reaches a c"
proof (cases a rule: cursor_cases)
  case (Buffer off n)
  assume "reaches a b" "reaches b c"
  then obtain v w where "v \<le> unat n" "b = advance v a" "w \<le> unat (snd b)" "c = advance w b"
    using Buffer by (auto simp: reaches_def)
  moreover from this have "unat (snd b) = unat n - v" using unat_advance [of v off n] Buffer by simp
  ultimately show ?thesis unfolding reaches_def
    by (intro exI [of _ "v + w"]) (simp add: advance_advance Buffer)
qed (auto simp: reaches_def)

text \<open>What all of them keep is the end of the buffer.\<close>

lemma reaches_end:
  assumes "reaches (Some off, n) c'"
  obtains off' n' where "c' = (Some off', n')" "off' + unat n' = off + unat n"
proof -
  obtain w where "w \<le> unat n" "c' = advance w (Some off, n)" using assms by (auto simp: reaches_def)
  with unat_advance [of w off n] show thesis by (intro that [of "off + w" "n - of_nat w"]) simp_all
qed

lemma read_sub_buffer_advances:
  "read_sub_buffer n c = Ok (p, c') \<Longrightarrow> n \<noteq> 0 \<Longrightarrow>
    \<exists>off m. c = (Some off, m) \<and> p = Some off \<and> n \<le> m \<and> c' = (Some (off + unat n), m - n)"
  by (auto simp: read_sub_buffer_def not_less split: prod.splits option.splits if_splits)

lemma reaches_sub_buffer: "read_sub_buffer n c = Ok (p, c') \<Longrightarrow> reaches c c'"
proof (cases "n = 0")
  case False
  assume "read_sub_buffer n c = Ok (p, c')"
  from read_sub_buffer_advances [OF this False] show ?thesis
    by (auto simp: reaches_def word_le_nat_alt intro!: exI [of _ "unat n"])
qed auto

lemma reaches_u8: "read_u8 mem c = Ok (x, c') \<Longrightarrow> reaches c c'"
  by (auto simp: read_u8_def andthen_eq_Ok dest: reaches_sub_buffer)

lemma reaches_u16: "read_u16 mem c = Ok (x, c') \<Longrightarrow> reaches c c'"
  by (auto simp: read_u16_def andthen_eq_Ok dest!: reaches_u8 intro: reaches_trans)

lemma reaches_u32: "read_u32 mem c = Ok (x, c') \<Longrightarrow> reaches c c'"
  by (auto simp: read_u32_def andthen_eq_Ok dest!: reaches_u16 intro: reaches_trans)

lemma reaches_u64: "read_u64 mem c = Ok (x, c') \<Longrightarrow> reaches c c'"
  by (auto simp: read_u64_def andthen_eq_Ok dest!: reaches_u32 intro: reaches_trans)

lemma reaches_bool: "read_bool mem c = Ok (x, c') \<Longrightarrow> reaches c c'"
  by (auto simp: read_bool_def andthen_eq_Ok dest: reaches_u8)

lemmas reader_reaches = reaches_sub_buffer reaches_u8 reaches_u16 reaches_u32 reaches_u64 reaches_bool

lemma reaches_staking_switch: "parse_staking_switch mem t c = Ok (x, c') \<Longrightarrow> reaches c c'"
  by (auto simp: parse_staking_switch_def andthen_eq_Ok split: if_splits dest!: reader_reaches
      intro: reaches_trans)

section \<open>The signature proof\<close>

lemma signature_proof_pointers:
  assumes "read_signature_proof mem c = Ok (sp, c')"
  obtains off m where "c = (Some off, m)" "public_key sp = Some (off + 1)" "signature sp = Some (off + 34)"
    "c' = (Some (off + 98), m - 98)" "98 \<le> unat m" "type_and_flags sp = 0" "merkle_path_length sp = 0"
proof -
  obtain c1 c2 c3 p q where r: "read_sub_buffer 1 c = Ok (p, c1)" "read_sub_buffer 32 c1 = Ok (public_key sp, c2)"
      "read_sub_buffer 1 c2 = Ok (q, c3)" "read_sub_buffer 64 c3 = Ok (signature sp, c')"
    using assms by (auto simp: read_signature_proof_def read_u8_def andthen_eq_Ok)
  have flags: "type_and_flags sp = 0" "merkle_path_length sp = 0"
    using assms by (auto simp: read_signature_proof_def andthen_eq_Ok)
  obtain off m where c1: "c = (Some off, m)" "1 \<le> m" "c1 = (Some (off + 1), m - 1)"
    using read_sub_buffer_advances [OF r(1)] by auto
  then have c2: "public_key sp = Some (off + 1)" "32 \<le> m - 1" "c2 = (Some (off + 33), m - 1 - 32)"
    using read_sub_buffer_advances [OF r(2)] by auto
  then have c3: "1 \<le> m - 1 - 32" "c3 = (Some (off + 34), m - 1 - 32 - 1)"
    using read_sub_buffer_advances [OF r(3)] by auto
  then have c': "signature sp = Some (off + 34)" "64 \<le> m - 1 - 32 - 1" "c' = (Some (off + 98), m - 1 - 32 - 1 - 64)"
    using read_sub_buffer_advances [OF r(4)] by auto
  have "unat (m - 1) = unat m - 1" using c1(2) by (simp add: unat_sub)
  moreover have "unat (m - 1 - 32) = unat (m - 1) - 32" using unat_sub [OF c2(2)] by simp
  moreover have "unat (m - 1 - 32 - 1) = unat (m - 1 - 32) - 1" using unat_sub [OF c3(1)] by simp
  moreover have "1 \<le> unat m" "32 \<le> unat (m - 1)" "1 \<le> unat (m - 1 - 32)" "64 \<le> unat (m - 1 - 32 - 1)"
    using c1(2) c2(2) c3(1) c'(2) unfolding word_le_nat_alt by simp_all
  ultimately have "98 \<le> unat m" by linarith
  moreover have "m - 1 - 32 - 1 - 64 = m - 98" by simp
  ultimately show thesis using c1(1) c2(1) c' flags by (intro that [of off m]) simp_all
qed

text \<open>In staking data the proof is what the data ends with.\<close>

definition proof_ends_at :: "nat \<Rightarrow> signature_proof_t \<Rightarrow> bool" where
  "proof_ends_at e sp = (98 \<le> e \<and> public_key sp = Some (e - 97) \<and> signature sp = Some (e - 64) \<and>
     type_and_flags sp = 0 \<and> merkle_path_length sp = 0)"

text \<open>Any proof there is the one at the pointers.\<close>

lemma proof_at_end:
  assumes "raw = pre @ proof_bytes pk sig @ post" "length pk = 32" "length sig = 64"
    and "proof_ends_at (length pre + 98) sp"
  shows "proof_at raw pk sig sp"
  using assms by (simp add: proof_ends_at_def proof_at_def proof_bytes_def)

lemma staking_proof_present:
  assumes "parse_staking_incoming_data hash mem version c sender = Ok out"
  shows "has_validator_or_staker_signature_proof out \<longleftrightarrow> staking_type out \<noteq> ADD_STAKE"
    and "validator_or_staker_signature_proof out = None \<longleftrightarrow> staking_type out = ADD_STAKE"
  using assms by (auto simp: parse_staking_incoming_data_def parse_staking_proof_def andthen_eq_Ok split: if_splits)

lemma staking_proof_pointers:
  assumes "parse_staking_incoming_data hash mem version (Some off, n) sender = Ok out"
    "validator_or_staker_signature_proof out = Some sp"
  shows "proof_ends_at (off + unat n) sp"
proof -
  obtain t c1 c2 c3 x y where r: "read_u8 mem (Some off, n) = Ok (t, c1)"
      "parse_staking_switch mem t c1 = Ok (x, c2)" "read_signature_proof mem c2 = Ok (sp, c3)" "snd c3 = 0"
    using assms
    by (auto simp: parse_staking_incoming_data_def parse_staking_proof_def andthen_eq_Ok split: if_splits)
  have "reaches (Some off, n) c2"
    using reaches_u8 [OF r(1)] reaches_staking_switch [OF r(2)] by (rule reaches_trans)
  then obtain off' n' where c2: "c2 = (Some off', n')" "off' + unat n' = off + unat n" by (rule reaches_end)
  show ?thesis
  proof (rule signature_proof_pointers [OF r(3)])
    fix o' m assume "c2 = (Some o', m)" "public_key sp = Some (o' + 1)" "signature sp = Some (o' + 34)"
      "c3 = (Some (o' + 98), m - 98)" "98 \<le> unat m" "type_and_flags sp = 0" "merkle_path_length sp = 0"
    moreover from this have "m = 98" using r(4) by simp
    ultimately have "off + unat n = off' + 98" "public_key sp = Some (off' + 1)" "signature sp = Some (off' + 34)"
        "type_and_flags sp = 0" "merkle_path_length sp = 0"
      using c2 by simp_all
    then show ?thesis by (simp add: proof_ends_at_def)
  qed
qed

text \<open>The data of a transaction starts behind its length, two bytes from the start.\<close>

lemma andthen_OkE: "andthen r k = Ok y \<Longrightarrow> (\<And>x. r = Ok x \<Longrightarrow> k x = Ok y \<Longrightarrow> R) \<Longrightarrow> R"
  by (auto simp: andthen_eq_Ok)

lemma type_specific_staking:
  assumes "parse_tx_type_specific hash mem version data sender sender_type recip recipient_type v height flags
      sender_data = Ok z" "fst z = Staking_incoming_tx d"
  shows "parse_staking_incoming_data hash mem version data sender = Ok d"
  using assms by (cases z) (auto simp: parse_tx_type_specific_def andthen_eq_Ok split: if_splits)

lemma parse_tx_staking_data:
  assumes "parse_tx hash mem version c = Ok out" "type_specific out = Staking_incoming_tx d"
  obtains n c1 data c2 sender where "read_u16 mem c = Ok (n, c1)" "read_sub_buffer n c1 = Ok (data, c2)"
      "parse_staking_incoming_data hash mem version (data, n) sender = Ok d"
proof (insert assms(1), unfold parse_tx_def case_prod_unfold, elim andthen_OkE, goal_cases)
  case (1 x a b s st rc rt v vt f ft h ni nt fl sd y z)
  then have "fst z = Staking_incoming_tx d" using assms(2) by auto
  moreover from 1 have "parse_tx_type_specific hash mem version (fst b, fst a) (fst s) (fst st) (fst rc) (fst rt)
      (fst v) (fst h) (fst fl) (fst sd) = Ok z" by simp
  ultimately have "parse_staking_incoming_data hash mem version (fst b, fst a) (fst s) = Ok d"
    by (intro type_specific_staking)
  with 1 show ?case by (intro that [of "fst a" "snd a" "fst b" "snd b" "fst s"]) simp_all
qed

lemma parse_tx_proof:
  assumes "parse_tx hash mem version (Some off, N) = Ok out" "type_specific out = Staking_incoming_tx d"
    and "wf_cursor mem (Some off, N)"
  obtains n where "view mem (Some off, N) = be_bytes 2 (unat (n :: u16)) @ drop 2 (view mem (Some off, N))"
    "\<And>sp. validator_or_staker_signature_proof d = Some sp \<Longrightarrow> proof_ends_at (off + 2 + unat n) sp"
    "has_validator_or_staker_signature_proof d \<longleftrightarrow> staking_type d \<noteq> ADD_STAKE"
    "validator_or_staker_signature_proof d = None \<longleftrightarrow> staking_type d = ADD_STAKE"
proof (rule parse_tx_staking_data [OF assms(1,2)])
  fix n c1 data c2 sender
  assume r: "read_u16 mem (Some off, N) = Ok (n, c1)" "read_sub_buffer n c1 = Ok (data, c2)"
    "parse_staking_incoming_data hash mem version (data, n) sender = Ok d"
  have c1: "c1 = (Some (off + 2), N - 2)" using r16.read_OkD(5) [OF assms(3) r(1)] by simp
  have v: "view mem (Some off, N) = be_bytes 2 (unat n) @ view mem c1" using r16.read_OkE [OF assms(3) r(1)] by simp
  have "n \<noteq> 0"
    using r(2,3) by (auto simp: parse_staking_incoming_data_def read_u8_def read_sub_buffer_def andthen_eq_Ok)
  with r(2) c1 have "data = Some (off + 2)" using read_sub_buffer_advances by fastforce
  with r(3) have "validator_or_staker_signature_proof d = Some sp \<Longrightarrow> proof_ends_at (off + 2 + unat n) sp" for sp
    by (intro staking_proof_pointers) simp
  moreover have "drop 2 (view mem (Some off, N)) = view mem c1"
    unfolding v by (simp del: view.simps)
  ultimately show thesis using v staking_proof_present [OF r(3)] by (intro that [of n]) (simp_all only:)
qed

end
