(* ===== verification/Approval.thy ===== *)
theory Approval
  imports Transaction_Signing Staker_Proof
begin

text \<open>
  The reply to a request that was reviewed on the screen: \<^verbatim>\<open>io_finalize_async_reply\<close> and the callbacks
  \<^verbatim>\<open>on_rejected\<close>, \<^verbatim>\<open>on_address_approved\<close>, \<^verbatim>\<open>on_transaction_approved\<close>, \<^verbatim>\<open>on_message_approved\<close> and
  \<^verbatim>\<open>u2f_send_keep_alive\<close> of \<^verbatim>\<open>src/src/main.c\<close>, with the screen that follows them in the user
  interfaces. A callback returns the new state and the bytes sent.

  The lemmas show what an approval signs: the bytes of the transaction, before which an empty staker
  proof in them is filled in; the prefixed hash of the message; nothing after a rejection.
\<close>

section \<open>Replies\<close>

definition sw_bytes :: "sw_t \<Rightarrow> u8 list" where
  "sw_bytes sw = [ucast (drop_bit 8 (sw_code sw)), ucast (sw_code sw)]"

lemma length_sw_bytes [simp]: "length (sw_bytes sw) = 2"
  by (simp add: sw_bytes_def)

text \<open>The data of a reply is at a null pointer, already in the APDU buffer, or elsewhere.\<close>

datatype reply_data = No_data | In_apdu_buffer | Data "u8 list"

definition io_finalize_async_reply ::
    "reply_data \<Rightarrow> nat \<Rightarrow> sw_t \<Rightarrow> 'h app_state \<Rightarrow> ('e, 'h app_state \<times> u8 list) result" where
  "io_finalize_async_reply data data_length sw st =
     (let sw = (if data_length > IO_APDU_BUFFER_SIZE - 2 then SW_WRONG_DATA_LENGTH else sw);
          n = (if sw \<noteq> SW_OK then 0 else data_length);
          buf = G_io_apdu_buffer st in
      andthen
        (if n = 0 then Ok buf
         else case data of
           No_data \<Rightarrow> Fault Null_dereference
         | In_apdu_buffer \<Rightarrow> Ok buf
         | Data bs \<Rightarrow> andthen (bytes_at bs (Some 0) n) (\<lambda>bs. memmove_at 0 bs buf)) (\<lambda>buf.
      andthen (memmove_at n (sw_bytes sw) buf) (\<lambda>buf.
      Ok (st\<lparr>G_io_apdu_buffer := buf\<rparr>, take (n + 2) buf))))"

definition on_rejected :: "'h app_state \<Rightarrow> ('e, 'h app_state \<times> u8 list) result" where
  "on_rejected st = io_finalize_async_reply No_data 0 SW_DENY st"

definition on_address_approved ::
    "'h platform \<Rightarrow> 'h app_state \<Rightarrow> (sw_t, 'h app_state \<times> u8 list) result" where
  "on_address_approved P st =
     (case to_sw (set_result_get_public_key (req_pk P (ctx_req st)) (G_io_apdu_buffer st)) of
        Ok (buf, data_length) \<Rightarrow>
          io_finalize_async_reply In_apdu_buffer data_length SW_OK (st\<lparr>G_io_apdu_buffer := buf\<rparr>)
      | Err sw \<Rightarrow> io_finalize_async_reply In_apdu_buffer 0 sw st
      | Fault f \<Rightarrow> Fault f)"

definition u2f_send_keep_alive :: "'h app_state \<Rightarrow> ('e, 'h app_state \<times> u8 list) result" where
  "u2f_send_keep_alive st = io_finalize_async_reply No_data 0 SW_KEEP_ALIVE (st\<lparr>ctx_u2fTimer := 0\<rparr>)"

section \<open>Signing a transaction\<close>

text \<open>The private key of a path in the context; reading a path longer than the array is a fault.\<close>

definition derive_key :: "'h platform \<Rightarrow> u32 list \<Rightarrow> u8 \<Rightarrow> ('e, private_key option) result" where
  "derive_key P path path_length =
     (if unat path_length \<le> length path then Ok (private_key_of P path path_length) else Fault Out_of_bounds)"

definition tx_to_sign :: "transactionContext_t \<Rightarrow> ('e, u8 list) result" where
  "tx_to_sign t = bytes_at (rawTx t) (Some 0) (unat (rawTxLength t))"

text \<open>The proof in the parsed data; where the parser read none, the struct is zeroed.\<close>

definition parsed_proof :: "tx_data_staking_incoming_t \<Rightarrow> signature_proof_t" where
  "parsed_proof d = (case validator_or_staker_signature_proof d of
     Some sp \<Rightarrow> sp
   | None \<Rightarrow> \<lparr>public_key = None, signature = None, type_and_flags = 0, merkle_path_length = 0\<rparr>)"

definition empty_staker_proof :: "transactionContext_t \<Rightarrow> ('e, signature_proof_t option) result" where
  "empty_staker_proof t =
     (if transaction_type (parsed t) \<noteq> TRANSACTION_TYPE_STAKING_INCOMING then Ok None
      else case type_specific (parsed t) of
        Staking_incoming_tx d \<Rightarrow>
          if \<not> has_validator_or_staker_signature_proof d then Ok None
          else andthen (is_empty_default_signature_proof (rawTx t) (parsed_proof d)) (\<lambda>empty.
            Ok (if empty then Some (parsed_proof d) else None))
      | _ \<Rightarrow> Fault Inactive_union_member)"

text \<open>
  Filling in the proof: the signature of the transaction with the empty proof and the public key.
  Returns the context, the APDU buffer and the status word; a status word other than success is
  the jump to \<^verbatim>\<open>end\<close>, with what has been written until then.
\<close>

definition create_staker_signature ::
    "'h platform \<Rightarrow> private_key \<Rightarrow> signature_proof_t \<Rightarrow> transactionContext_t \<Rightarrow> u8 list \<Rightarrow>
     ('e, transactionContext_t \<times> u8 list \<times> sw_t) result" where
  "create_staker_signature P key sp t buf =
     andthen (tx_to_sign t) (\<lambda>data.
     case eddsa_sign P key data of
       None \<Rightarrow> Ok (t, buf, SW_CRYPTOGRAPHY_FAIL)
     | Some sig \<Rightarrow>
         andthen (memmove_at 0 sig buf) (\<lambda>buf.
         andthen (memmove_to (signature sp) sig (rawTx t)) (\<lambda>raw.
         case generate_pair P key of
           None \<Rightarrow> Ok (t\<lparr>rawTx := raw\<rparr>, buf, SW_CRYPTOGRAPHY_FAIL)
         | Some W \<Rightarrow>
             andthen (memmove_at (temporary_offset P) (public_key_struct P W) buf) (\<lambda>buf.
             andthen (memmove_to (public_key sp) (compress_public_key W) raw) (\<lambda>raw.
             Ok (t\<lparr>rawTx := raw\<rparr>, buf, SW_OK))))))"

definition sign_and_reply ::
    "'h platform \<Rightarrow> private_key \<Rightarrow> signature_proof_t option \<Rightarrow> transactionContext_t \<Rightarrow> 'h app_state \<Rightarrow>
     ('e, 'h app_state \<times> u8 list) result" where
  "sign_and_reply P key sp t st =
     andthen (tx_to_sign t) (\<lambda>data.
     case eddsa_sign P key data of
       None \<Rightarrow> io_finalize_async_reply In_apdu_buffer 0 SW_CRYPTOGRAPHY_FAIL st
     | Some sig \<Rightarrow>
         andthen (memmove_at 0 sig (G_io_apdu_buffer st)) (\<lambda>buf.
         case sp of
           None \<Rightarrow> io_finalize_async_reply In_apdu_buffer 64 SW_OK (st\<lparr>G_io_apdu_buffer := buf\<rparr>)
         | Some sp \<Rightarrow>
             andthen (bytes_at (rawTx t) (signature sp) 64) (\<lambda>staker_signature.
             andthen (memmove_at 64 staker_signature buf) (\<lambda>buf.
             io_finalize_async_reply In_apdu_buffer 128 SW_OK (st\<lparr>G_io_apdu_buffer := buf\<rparr>)))))"

definition fill_in_and_sign ::
    "'h platform \<Rightarrow> private_key \<Rightarrow> signature_proof_t \<Rightarrow> transactionContext_t \<Rightarrow> 'h app_state \<Rightarrow>
     ('e, 'h app_state \<times> u8 list) result" where
  "fill_in_and_sign P key p t st =
     andthen (create_staker_signature P key p t (G_io_apdu_buffer st)) (\<lambda>(t, buf, sw).
     let st = st\<lparr>ctx_req := Tx t, G_io_apdu_buffer := buf\<rparr> in
     if sw \<noteq> SW_OK then io_finalize_async_reply In_apdu_buffer 0 sw st
     else sign_and_reply P key (Some p) t st)"

definition sign_transaction ::
    "'h platform \<Rightarrow> private_key \<Rightarrow> transactionContext_t \<Rightarrow> 'h app_state \<Rightarrow>
     ('e, 'h app_state \<times> u8 list) result" where
  "sign_transaction P key t st =
     andthen (empty_staker_proof t) (\<lambda>sp.
     case sp of None \<Rightarrow> sign_and_reply P key None t st | Some p \<Rightarrow> fill_in_and_sign P key p t st)"

definition on_transaction_approved ::
    "'h platform \<Rightarrow> 'h app_state \<Rightarrow> ('e, 'h app_state \<times> u8 list) result" where
  "on_transaction_approved P st =
     (let t = req_tx P (ctx_req st) in
      andthen (derive_key P (tx_bip32Path t) (tx_bip32PathLength t)) (\<lambda>key.
      case key of
        None \<Rightarrow> io_finalize_async_reply In_apdu_buffer 0 SW_CRYPTOGRAPHY_FAIL st
      | Some key \<Rightarrow> sign_transaction P key t st))"

section \<open>Signing a message\<close>

definition on_message_approved ::
    "'h platform \<Rightarrow> 'h app_state \<Rightarrow> ('e, 'h app_state \<times> u8 list) result" where
  "on_message_approved P st =
     (let m = req_msg P (ctx_req st) in
      andthen (derive_key P (msg_bip32Path m) (msg_bip32PathLength m)) (\<lambda>key.
      case Option.bind key (\<lambda>key. eddsa_sign P key (prefixedMessageHash (confirm_member P (msg_union m)))) of
        None \<Rightarrow> io_finalize_async_reply In_apdu_buffer 0 SW_CRYPTOGRAPHY_FAIL st
      | Some sig \<Rightarrow>
          andthen (memmove_at 0 sig (G_io_apdu_buffer st)) (\<lambda>buf.
          io_finalize_async_reply In_apdu_buffer 64 SW_OK (st\<lparr>G_io_apdu_buffer := buf\<rparr>))))"

section \<open>The buttons of a review\<close>

text \<open>
  The approve and reject actions, which then return to the main menu. On NBGL devices they are the
  choice callbacks below, on BAGL devices the approve and reject steps of the flows.
\<close>

definition ui_menu_main :: "'h app_state \<Rightarrow> 'h app_state" where
  "ui_menu_main st = st\<lparr>on_screen := Main_menu\<rparr>"

definition back_to_menu :: "('e, 'h app_state \<times> u8 list) result \<Rightarrow> ('e, 'h app_state \<times> u8 list) result" where
  "back_to_menu r = andthen r (\<lambda>(st, reply). Ok (ui_menu_main st, reply))"

definition on_address_reviewed ::
    "'h platform \<Rightarrow> bool \<Rightarrow> 'h app_state \<Rightarrow> (sw_t, 'h app_state \<times> u8 list) result" where
  "on_address_reviewed P approved st =
     (if approved then back_to_menu (on_address_approved P st) else back_to_menu (on_rejected st))"

definition on_transaction_reviewed ::
    "'h platform \<Rightarrow> bool \<Rightarrow> 'h app_state \<Rightarrow> (sw_t, 'h app_state \<times> u8 list) result" where
  "on_transaction_reviewed P approved st =
     (if approved then back_to_menu (on_transaction_approved P st) else back_to_menu (on_rejected st))"

definition on_message_reviewed ::
    "'h platform \<Rightarrow> bool \<Rightarrow> 'h app_state \<Rightarrow> (sw_t, 'h app_state \<times> u8 list) result" where
  "on_message_reviewed P approved st =
     (if approved then back_to_menu (on_message_approved P st) else back_to_menu (on_rejected st))"

text \<open>The action of the review on the screen.\<close>

definition on_reviewed ::
    "'h platform \<Rightarrow> bool \<Rightarrow> 'h app_state \<Rightarrow> (sw_t, 'h app_state \<times> u8 list) result" where
  "on_reviewed P approved st =
     (case on_screen st of
        Address_review _ \<Rightarrow> on_address_reviewed P approved st
      | Transaction_review _ \<Rightarrow> on_transaction_reviewed P approved st
      | _ \<Rightarrow> on_message_reviewed P approved st)"

lemma on_reviewed_eq:
  "on_reviewed P approved st =
     andthen
       (if \<not> approved then on_rejected st
        else case on_screen st of
          Address_review _ \<Rightarrow> on_address_approved P st
        | Transaction_review _ \<Rightarrow> on_transaction_approved P st
        | _ \<Rightarrow> on_message_approved P st) (\<lambda>(st, reply).
     Ok (st\<lparr>on_screen := Main_menu\<rparr>, reply))"
  by (simp add: on_reviewed_def on_address_reviewed_def on_transaction_reviewed_def on_message_reviewed_def
      back_to_menu_def ui_menu_main_def split: shown_screen.split)

section \<open>What a reply consists of\<close>

definition apdu_buffer_ok :: "'h app_state \<Rightarrow> bool" where
  "apdu_buffer_ok st = (length (G_io_apdu_buffer st) = IO_APDU_BUFFER_SIZE)"

lemma finalize_success:
  assumes "apdu_buffer_ok st" "n \<le> 258"
  shows "io_finalize_async_reply In_apdu_buffer n SW_OK st =
    Ok (st\<lparr>G_io_apdu_buffer := take n (G_io_apdu_buffer st) @ sw_bytes SW_OK @ drop (n + 2) (G_io_apdu_buffer st)\<rparr>,
      take n (G_io_apdu_buffer st) @ sw_bytes SW_OK)"
  using assms by (simp add: io_finalize_async_reply_def apdu_buffer_ok_def IO_APDU_BUFFER_SIZE_def Let_def)

lemma finalize_status:
  assumes "apdu_buffer_ok st"
  shows "io_finalize_async_reply data 0 sw st =
    Ok (st\<lparr>G_io_apdu_buffer := sw_bytes sw @ drop 2 (G_io_apdu_buffer st)\<rparr>, sw_bytes sw)"
  using assms by (simp add: io_finalize_async_reply_def apdu_buffer_ok_def IO_APDU_BUFFER_SIZE_def Let_def numeral_2_eq_2)

lemma apdu_buffer_ok_simps [simp]:
  "apdu_buffer_ok (st\<lparr>G_io_apdu_buffer := buf\<rparr>) \<longleftrightarrow> length buf = IO_APDU_BUFFER_SIZE"
  "apdu_buffer_ok (st\<lparr>ctx_req := r\<rparr>) \<longleftrightarrow> apdu_buffer_ok st"
  "apdu_buffer_ok (st\<lparr>on_screen := s\<rparr>) \<longleftrightarrow> apdu_buffer_ok st"
  "apdu_buffer_ok (st\<lparr>ctx_u2fTimer := u\<rparr>) \<longleftrightarrow> apdu_buffer_ok st"
  by (simp_all add: apdu_buffer_ok_def)

section \<open>Filling in the staker proof\<close>

fun staker_proof :: "staking_data \<Rightarrow> (u8 list \<times> u8 list) option" where
  "staker_proof (Create_staker b d pk sig) = Some (pk, sig)"
| "staker_proof (Update_staker b d x pk sig) = Some (pk, sig)"
| "staker_proof (Add_stake a) = None"
| "staker_proof (Set_active_stake n pk sig) = Some (pk, sig)"
| "staker_proof (Retire_stake n pk sig) = Some (pk, sig)"

fun with_proof :: "u8 list \<Rightarrow> u8 list \<Rightarrow> staking_data \<Rightarrow> staking_data" where
  "with_proof pk sig (Create_staker b d _ _) = Create_staker b d pk sig"
| "with_proof pk sig (Update_staker b d x _ _) = Update_staker b d x pk sig"
| "with_proof pk sig (Add_stake a) = Add_stake a"
| "with_proof pk sig (Set_active_stake n _ _) = Set_active_stake n pk sig"
| "with_proof pk sig (Retire_stake n _ _) = Retire_stake n pk sig"

lemma staking_data_head:
  assumes "staker_proof d = Some (pk, sig)"
  obtains head where "\<And>pk sig. staking_data_bytes (with_proof pk sig d) = head @ proof_bytes pk sig"
    "staking_data_bytes d = head @ proof_bytes pk sig"
proof (cases d)
  case (Create_staker b x p s)
  with assms show thesis by (intro that [of "CREATE_STAKER # b # x"]) auto
next
  case (Update_staker b x y p s)
  with assms show thesis by (intro that [of "UPDATE_STAKER # b # x @ [y]"]) auto
next
  case (Set_active_stake n p s)
  with assms show thesis by (intro that [of "SET_ACTIVE_STAKE # be_bytes 8 (unat n)"]) auto
next
  case (Retire_stake n p s)
  with assms show thesis by (intro that [of "RETIRE_STAKE # be_bytes 8 (unat n)"]) auto
qed (use assms in simp)

lemma memmove_at_middle:
  "length xs = length ys \<Longrightarrow> i = length a \<Longrightarrow> memmove_at i xs (a @ ys @ b) = Ok (a @ xs @ b)"
  by (simp add: memmove_at_def)

text \<open>The two writes replace the proof at the end of the data and nothing else.\<close>

lemma overwrite_proof:
  assumes "raw = pre @ proof_bytes pk sig @ post" "length pk = 32" "length sig = 64" "length pk' = 32" "length sig' = 64"
    and "proof_ends_at (length pre + 98) sp"
  shows "andthen (memmove_to (signature sp) sig' raw) (\<lambda>raw. memmove_to (public_key sp) pk' raw) =
    (Ok (pre @ proof_bytes pk' sig' @ post) :: ('e, _) result)"
proof -
  have sig: "memmove_at (length pre + 34) sig' (pre @ proof_bytes pk sig @ post) =
      (Ok (pre @ proof_bytes pk sig' @ post) :: ('e, _) result)"
    using memmove_at_middle [of sig' sig "length pre + 34" "pre @ 0 # pk @ [0]" post] assms(2-5)
    by (simp add: proof_bytes_def)
  have "memmove_at (length pre + 1) pk' (pre @ proof_bytes pk sig' @ post) =
      (Ok (pre @ proof_bytes pk' sig' @ post) :: ('e, _) result)"
    using memmove_at_middle [of pk' pk "length pre + 1" "pre @ [0]" "0 # sig' @ post"] assms(2-5)
    by (simp add: proof_bytes_def)
  with sig show ?thesis
    using assms(6) by (simp add: proof_ends_at_def memmove_to_def assms(1) add.commute)
qed

text \<open>Transactions whose data ends with the empty proof, and the same transaction with another one.\<close>

fun has_empty_proof :: "payload \<Rightarrow> bool" where
  "has_empty_proof (Staking_call d) = (staker_proof d = Some (replicate 32 0, replicate 64 0))"
| "has_empty_proof _ = False"

fun fill_proof :: "u8 list \<Rightarrow> u8 list \<Rightarrow> payload \<Rightarrow> tx_content \<Rightarrow> tx_content" where
  "fill_proof pk sig (Staking_call d) tx = tx\<lparr>t_data := staking_data_bytes (with_proof pk sig d)\<rparr>"
| "fill_proof pk sig _ tx = tx"

lemma be_bytes_2_inject:
  assumes "be_bytes 2 m = be_bytes 2 n" "m < 65536" "n < 65536"
  shows "m = n"
proof -
  have "be_val (be_bytes 2 m) = m" "be_val (be_bytes 2 n) = n"
    unfolding be_val_be_bytes using assms(2,3) by (simp_all del: be_bytes.simps)
  with assms(1) show ?thesis by metis
qed

lemma staker_proof_lengths:
  "staking_data_ok d \<Longrightarrow> staker_proof d = Some (pk, sig) \<Longrightarrow> length pk = 32 \<and> length sig = 64"
  by (cases d) auto

lemma staker_proof_None: "staker_proof d = None \<longleftrightarrow> staking_data_type d = ADD_STAKE"
  by (cases d) (simp_all add: staking_type_defs)

lemma with_proof_ok:
  "staking_data_ok d \<Longrightarrow> length pk = 32 \<Longrightarrow> length sig = 64 \<Longrightarrow> staking_data_ok (with_proof pk sig d)"
  by (cases d) auto

text \<open>The bytes around the proof of a transaction.\<close>

lemma tx_bytes_around_proof:
  assumes "tx_ok version tx" "carries version tx (Staking_call d)" "staker_proof d = Some (pk, sig)"
  obtains pre post where "tx_bytes version tx = pre @ proof_bytes pk sig @ post"
    "length pre + 98 = 2 + length (t_data tx)" "be_bytes 2 (length (t_data tx)) = take 2 pre" "2 \<le> length pre"
    "\<And>pk' sig'. length pk' = 32 \<Longrightarrow> length sig' = 64 \<Longrightarrow>
      tx_bytes version (fill_proof pk' sig' (Staking_call d) tx) = pre @ proof_bytes pk' sig' @ post"
proof (rule staking_data_head [OF assms(3)])
  fix head
  assume head: "\<And>pk sig. staking_data_bytes (with_proof pk sig d) = head @ proof_bytes pk sig"
    "staking_data_bytes d = head @ proof_bytes pk sig"
  have len: "length pk = 32" "length sig = 64"
    using staker_proof_lengths [of d pk sig] assms(2,3) by simp_all
  have d: "t_data tx = head @ proof_bytes pk sig" using assms(2) head(2) by simp
  let ?pre = "be_bytes 2 (length (t_data tx)) @ head"
  let ?post = "t_sender tx @ t_sender_type tx # t_recipient tx @ t_recipient_type tx #
     be_bytes 8 (unat (t_value tx)) @ be_bytes 8 (unat (t_fee tx)) @ be_bytes 4 (unat (t_height tx)) @
     t_network tx # t_flags tx # (if version = TRANSACTION_VERSION_ALBATROSS
      then of_nat (length (t_sender_data tx)) # t_sender_data tx else [])"
  show thesis
    by (rule that [of ?pre ?post]) (simp_all add: tx_bytes_def d head(1) proof_bytes_def len)
qed

lemma reviewed_buffer:
  assumes "tx_received path version data t"
  shows "wf_cursor (rawTx t) (Some 0, of_nat (length data))" "view (rawTx t) (Some 0, of_nat (length data)) = data"
    "tx_to_sign t = Ok data" "rawTx t = data @ drop (length data) (rawTx t)"
proof -
  have r: "length data \<le> 188" "length (rawTx t) = 188" "take (length data) (rawTx t) = data"
    "unat (rawTxLength t) = length data"
    using assms by (simp_all add: tx_received_def tx_arrays_def MAX_RAW_TX_def)
  have "unat (of_nat (length data) :: u16) = length data" using r(1) by (simp add: unat_of_nat)
  with r show "wf_cursor (rawTx t) (Some 0, of_nat (length data))" "view (rawTx t) (Some 0, of_nat (length data)) = data"
    "tx_to_sign t = Ok data" by (simp_all add: tx_to_sign_def bytes_at_def)
  show "rawTx t = data @ drop (length data) (rawTx t)" using r(3) by (metis append_take_drop_id)
qed

lemma reviewed_staking:
  assumes "parse_tx hash (rawTx t) version (Some 0, N) = Ok (parsed t)" "wf_cursor (rawTx t) (Some 0, N)"
    and "view (rawTx t) (Some 0, N) = tx_bytes version tx" "tx_ok version tx" "carries version tx (Staking_call d)"
    and "rawTx t = tx_bytes version tx @ rest"
    and "tx_display hash version tx (Staking_call d) = Ok (observe shown (parsed t))"
  shows "if has_empty_proof (Staking_call d)
     then \<exists>sp. empty_staker_proof t = (Ok (Some sp) :: ('e, _) result) \<and> proof_ends_at (2 + length (t_data tx)) sp
     else empty_staker_proof t = (Ok None :: ('e, _) result)"
proof -
  obtain r where r: "type_specific (parsed t) = Staking_incoming_tx r" "staking_type r = staking_data_type d"
      "transaction_type (parsed t) = TRANSACTION_TYPE_STAKING_INCOMING"
    using assms(7) by (cases "type_specific (parsed t)")
      (auto simp: tx_display_def observe_def andthen_eq_Ok case_prod_unfold dest: staking_display_type)
  obtain n where n: "tx_bytes version tx = be_bytes 2 (unat (n :: u16)) @ drop 2 (tx_bytes version tx)"
    and sp: "\<And>sp. validator_or_staker_signature_proof r = Some sp \<Longrightarrow> proof_ends_at (2 + unat n) sp"
    and has: "has_validator_or_staker_signature_proof r \<longleftrightarrow> staking_type r \<noteq> ADD_STAKE"
      "validator_or_staker_signature_proof r = None \<longleftrightarrow> staking_type r = ADD_STAKE"
    by (rule parse_tx_proof [OF assms(1) r(1) assms(2)]) (simp add: assms(3) del: view.simps)
  have "be_bytes 2 (unat n) = be_bytes 2 (length (t_data tx))"
    using n by (simp add: tx_bytes_def)
  then have n': "unat n = length (t_data tx)"
    using assms(4) unat_bounds(2) [of n] by (intro be_bytes_2_inject) (simp_all add: tx_ok_def)
  show ?thesis
  proof (cases "staker_proof d")
    case None
    then have "staking_type r = ADD_STAKE" using r(2) staker_proof_None [of d] by simp
    with None show ?thesis using r has by (simp add: empty_staker_proof_def)
  next
    case (Some q)
    obtain pk sig where q: "staker_proof d = Some (pk, sig)" using Some by (cases q) simp
    obtain sp' where sp': "validator_or_staker_signature_proof r = Some sp'"
      using has(2) r(2) q staker_proof_None [of d] by auto
    have ends: "proof_ends_at (2 + length (t_data tx)) sp'" using sp [OF sp'] by (simp add: n')
    obtain pre post where pre: "tx_bytes version tx = pre @ proof_bytes pk sig @ post"
      "length pre + 98 = 2 + length (t_data tx)"
      by (rule tx_bytes_around_proof [OF assms(4,5) q])
    have len: "length pk = 32" "length sig = 64"
      using staker_proof_lengths [OF _ q] assms(5) by simp_all
    have at: "proof_at (rawTx t) pk sig sp'"
      by (rule proof_at_end [of _ pre pk sig "post @ rest"]) (use pre(1) len ends assms(6) in \<open>simp_all add: pre(2)\<close>)
    have "empty_staker_proof t =
        (Ok (if pk = replicate 32 0 \<and> sig = replicate 64 0 then Some sp' else None) :: ('e, _) result)"
      using r(1,3) has sp' by (simp add: empty_staker_proof_def parsed_proof_def is_empty_default_iff [OF at])
    then show ?thesis using q ends by auto
  qed
qed

lemma reviewed_transaction:
  assumes "tx_reviewed P path version data t screen" "platform_ok P"
  obtains tx p where "tx_ok version tx" "carries version tx p" "data = tx_bytes version tx"
    "tx_display (blake2b P) version tx p = Ok (observe shown (parsed t))"
    "if has_empty_proof p
     then \<exists>sp. empty_staker_proof t = (Ok (Some sp) :: ('e, _) result) \<and> proof_ends_at (2 + length (t_data tx)) sp
     else empty_staker_proof t = (Ok None :: ('e, _) result)"
proof -
  have received: "tx_received path version data t"
    and parse: "parse_tx (blake2b P) (rawTx t) version (Some 0, of_nat (length data)) = Ok (parsed t)"
    using assms(1) by (simp_all add: tx_reviewed_def)
  note b = reviewed_buffer [OF received]
  show thesis
  proof (rule parse_tx_Ok_display [OF parse b(1) hash_ok_platform [OF assms(2)]])
    fix tx p
    assume tx: "tx_ok version tx" "carries version tx p"
      "view (rawTx t) (Some 0, of_nat (length data)) = tx_bytes version tx"
      and display: "tx_display (blake2b P) version tx p = Ok (observe shown (parsed t))"
    have data: "data = tx_bytes version tx" using tx(3) b(2) by simp
    have empty: "if has_empty_proof p
     then \<exists>sp. empty_staker_proof t = (Ok (Some sp) :: ('e, _) result) \<and> proof_ends_at (2 + length (t_data tx)) sp
     else empty_staker_proof t = (Ok None :: ('e, _) result)"
    proof (cases "\<exists>d. p = Staking_call d")
      case False
      then have "transaction_type (parsed t) \<noteq> TRANSACTION_TYPE_STAKING_INCOMING"
        using display by (cases p) (auto simp: tx_display_def observe_def andthen_eq_Ok case_prod_unfold)
      with False show ?thesis by (cases p) (simp_all add: empty_staker_proof_def)
    next
      case True
      then obtain d where p: "p = Staking_call d" by blast
      show ?thesis unfolding p
        by (rule reviewed_staking [OF parse b(1) tx(3,1) tx(2) [unfolded p] _ display [unfolded p]])
          (use b(4) data in simp)
    qed
    show thesis by (rule that [OF tx(1,2) data display empty])
  qed
qed

section \<open>What the approval of a transaction replies\<close>

definition failed_reply :: "u8 list" where
  "failed_reply = sw_bytes SW_CRYPTOGRAPHY_FAIL"

text \<open>
  The reply for a transaction with its payload. An empty staker proof is first replaced by the public
  key and the signature of the transaction with the empty proof.
\<close>

definition transaction_reply ::
    "'h platform \<Rightarrow> u32 list \<Rightarrow> transaction_version_t \<Rightarrow> tx_content \<Rightarrow> payload \<Rightarrow> u8 list" where
  "transaction_reply P path version tx p =
     (case private_key_of P path (of_nat (length path)) of
        None \<Rightarrow> failed_reply
      | Some key \<Rightarrow>
          case eddsa_sign P key (tx_bytes version tx) of
            None \<Rightarrow> failed_reply
          | Some sig \<Rightarrow>
              if \<not> has_empty_proof p then sig @ sw_bytes SW_OK
              else case generate_pair P key of
                None \<Rightarrow> failed_reply
              | Some W \<Rightarrow>
                  case eddsa_sign P key (tx_bytes version (fill_proof (compress_public_key W) sig p tx)) of
                    None \<Rightarrow> failed_reply
                  | Some tx_sig \<Rightarrow> tx_sig @ sig @ sw_bytes SW_OK)"

definition replies :: "('e, 'h app_state \<times> u8 list) result \<Rightarrow> u8 list \<Rightarrow> bool" where
  "replies r bs = (\<exists>st'. r = Ok (st', bs))"

lemma replies_simps [simp]: "replies (Ok (st', bs)) cs = (bs = cs)" "\<not> replies (Err e) cs" "\<not> replies (Fault f) cs"
  by (auto simp: replies_def)

lemma replies_status: "apdu_buffer_ok st \<Longrightarrow> replies (io_finalize_async_reply data 0 sw st) (sw_bytes sw)"
  by (simp add: finalize_status)

lemma private_key_of_received:
  assumes "tx_received path version data t"
  shows "derive_key P (tx_bip32Path t) (tx_bip32PathLength t) =
    Ok (private_key_of P path (of_nat (length path)))"
proof -
  have n: "unat (tx_bip32PathLength t) = length path" and path: "take (length path) (tx_bip32Path t) = path"
    using assms by (simp_all add: tx_received_def)
  have "length path \<le> length (tx_bip32Path t)" using arg_cong [OF path, of length] by simp
  moreover have "tx_bip32PathLength t = of_nat (length path)" by (simp flip: n)
  moreover have "unat (of_nat (length path) :: u8) = length path" by (simp flip: n)
  ultimately show ?thesis by (simp add: derive_key_def private_key_of_def path)
qed

lemma sign_and_reply_plain:
  assumes "tx_to_sign t = (Ok data :: ('e, _) result)" "platform_ok P" "apdu_buffer_ok st"
  shows "replies (sign_and_reply P key None t st :: ('e, _) result)
    (case eddsa_sign P key data of None \<Rightarrow> failed_reply | Some sig \<Rightarrow> sig @ sw_bytes SW_OK)"
  using assms platform_okD(2) [OF assms(2), of key data]
  by (auto simp: sign_and_reply_def failed_reply_def replies_status finalize_success apdu_buffer_ok_def
      IO_APDU_BUFFER_SIZE_def split: option.split)

lemma sign_and_reply_staker:
  assumes "tx_to_sign t = (Ok data :: ('e, _) result)" "platform_ok P" "apdu_buffer_ok st"
    and "bytes_at (rawTx t) (signature sp) 64 = (Ok s :: ('e, _) result)" "length s = 64"
  shows "replies (sign_and_reply P key (Some sp) t st :: ('e, _) result)
    (case eddsa_sign P key data of None \<Rightarrow> failed_reply | Some sig \<Rightarrow> sig @ s @ sw_bytes SW_OK)"
  using assms platform_okD(2) [OF assms(2), of key data]
  by (auto simp: sign_and_reply_def failed_reply_def replies_status finalize_success apdu_buffer_ok_def
      IO_APDU_BUFFER_SIZE_def split: option.split)

text \<open>Filling in an empty proof, up to the failures of the SDK.\<close>

lemma create_staker_signature_eq:
  assumes "tx_to_sign t = (Ok data :: ('e, _) result)" "platform_ok P" "length buf = IO_APDU_BUFFER_SIZE"
    and "rawTx t = pre @ proof_bytes pk sig @ post" "length pk = 32" "length sig = 64"
    and "proof_ends_at (length pre + 98) sp"
  shows "\<exists>t' buf'. length buf' = IO_APDU_BUFFER_SIZE \<and>
    (create_staker_signature P key sp t buf :: ('e, _) result) =
      Ok (case eddsa_sign P key data of None \<Rightarrow> (t, buf, SW_CRYPTOGRAPHY_FAIL)
      | Some s \<Rightarrow> (case generate_pair P key of None \<Rightarrow> (t', buf', SW_CRYPTOGRAPHY_FAIL)
        | Some W \<Rightarrow> (t\<lparr>rawTx := pre @ proof_bytes (compress_public_key W) s @ post\<rparr>, buf', SW_OK)))"
proof (cases "eddsa_sign P key data")
  case None
  with assms(1,3) show ?thesis by (auto simp: create_staker_signature_def)
next
  case (Some s)
  have s: "length s = 64" using platform_okD(2) [OF assms(2) Some] .
  obtain buf1 where buf1: "memmove_at 0 s buf = (Ok buf1 :: ('e, _) result)" "length buf1 = IO_APDU_BUFFER_SIZE"
    using assms(3) s by (simp add: IO_APDU_BUFFER_SIZE_def)
  have fits: "\<exists>buf2. memmove_at (temporary_offset P) (public_key_struct P W) buf1 = (Ok buf2 :: ('e, _) result) \<and>
      length buf2 = IO_APDU_BUFFER_SIZE" for W
    using buf1(2) platform_okD(5) [OF assms(2), of W] temporary_offset_aligned(2) [of P]
    by (simp add: IO_APDU_BUFFER_SIZE_def)
  have overwrites: "\<exists>raw. memmove_to (signature sp) s (rawTx t) = (Ok raw :: ('e, _) result) \<and>
      memmove_to (public_key sp) (compress_public_key W) raw = (Ok (pre @ proof_bytes (compress_public_key W) s @ post) :: ('e, _) result)" for W
    using overwrite_proof [OF assms(4-6) length_compress_public_key [of W] s assms(7), where 'e = 'e]
    by (auto simp: andthen_eq_Ok)
  show ?thesis
  proof (cases "generate_pair P key")
    case None
    moreover obtain raw where "memmove_to (signature sp) s (rawTx t) = (Ok raw :: ('e, _) result)"
      using overwrites [of "[]"] by blast
    ultimately show ?thesis using Some buf1
      by (auto simp: create_staker_signature_def assms(1) intro!: exI [of _ buf1])
  next
    case (Some W)
    with \<open>eddsa_sign P key data = Some s\<close> buf1(1) fits [of W] overwrites [of W] show ?thesis
      by (auto simp: create_staker_signature_def assms(1))
  qed
qed

lemma staker_transaction_approved:
  assumes "tx_received path version data t" "tx_ok version tx" "carries version tx p" "data = tx_bytes version tx"
    and "has_empty_proof p" "proof_ends_at (2 + length (t_data tx)) sp" "platform_ok P" "apdu_buffer_ok st"
  shows "replies (fill_in_and_sign P key sp t st :: ('e, _) result)
    (case eddsa_sign P key data of None \<Rightarrow> failed_reply
     | Some sig \<Rightarrow> case generate_pair P key of None \<Rightarrow> failed_reply
       | Some W \<Rightarrow>
           case eddsa_sign P key (tx_bytes version (fill_proof (compress_public_key W) sig p tx)) of
             None \<Rightarrow> failed_reply
           | Some tx_sig \<Rightarrow> tx_sig @ sig @ sw_bytes SW_OK)"
proof -
  obtain d where p: "p = Staking_call d" "staker_proof d = Some (replicate 32 0, replicate 64 0)"
    using assms(5) by (cases p) auto
  obtain pre post where pre: "tx_bytes version tx = pre @ proof_bytes (replicate 32 0) (replicate 64 0) @ post"
      "length pre + 98 = 2 + length (t_data tx)"
    and filled: "\<And>pk sig. length pk = 32 \<Longrightarrow> length sig = 64 \<Longrightarrow>
      tx_bytes version (fill_proof pk sig p tx) = pre @ proof_bytes pk sig @ post"
    using tx_bytes_around_proof [OF assms(2) assms(3) [unfolded p(1)] p(2)] p(1) by metis
  note b = reviewed_buffer [OF assms(1)]
  let ?rest = "drop (length data) (rawTx t)"
  have raw: "rawTx t = pre @ proof_bytes (replicate 32 0) (replicate 64 0) @ post @ ?rest"
    using b(4) assms(4) pre(1) by simp
  have n: "unat (rawTxLength t) = length pre + 98 + length post"
    using assms(1,4) pre(1) by (simp add: tx_received_def proof_bytes_def)
  have ends: "proof_ends_at (length pre + 98) sp" using assms(6) by (simp add: pre(2))
  obtain t' buf' where buf': "length buf' = IO_APDU_BUFFER_SIZE"
    and create: "(create_staker_signature P key sp t (G_io_apdu_buffer st) :: ('e, _) result) =
      Ok (case eddsa_sign P key data of None \<Rightarrow> (t, G_io_apdu_buffer st, SW_CRYPTOGRAPHY_FAIL)
      | Some s \<Rightarrow> (case generate_pair P key of None \<Rightarrow> (t', buf', SW_CRYPTOGRAPHY_FAIL)
        | Some W \<Rightarrow> (t\<lparr>rawTx := pre @ proof_bytes (compress_public_key W) s @ post @ ?rest\<rparr>, buf', SW_OK)))"
    using create_staker_signature_eq [OF b(3) assms(7) _ raw _ _ ends, of "G_io_apdu_buffer st" key] assms(8)
    by (auto simp: apdu_buffer_ok_def)
  show ?thesis
  proof (cases "eddsa_sign P key data = None \<or> generate_pair P key = None")
    case True
    then show ?thesis using assms(8) buf'
      by (auto simp: fill_in_and_sign_def create failed_reply_def replies_status Let_def split: option.splits)
  next
    case False
    then obtain s W where s: "eddsa_sign P key data = Some s" "generate_pair P key = Some W" by auto
    have s64: "length s = 64" using platform_okD(2) [OF assms(7) s(1)] .
    let ?t = "t\<lparr>rawTx := pre @ proof_bytes (compress_public_key W) s @ post @ ?rest\<rparr>"
    let ?tx = "pre @ proof_bytes (compress_public_key W) s @ post"
    have "unat (rawTxLength t) = length ?tx" "rawTx ?t = ?tx @ ?rest"
      using n s64 by (simp_all add: proof_bytes_def)
    then have "tx_to_sign ?t = (Ok ?tx :: ('e, _) result)"
      by (simp only: tx_to_sign_def transactionContext_t.simps bytes_at_def option.case) simp
    then have "tx_to_sign ?t = (Ok (tx_bytes version (fill_proof (compress_public_key W) s p tx)) :: ('e, _) result)"
      by (simp add: filled s64)
    moreover have "bytes_at (rawTx ?t) (signature sp) 64 = (Ok s :: ('e, _) result)"
      using ends s64 by (simp add: proof_ends_at_def bytes_at_def proof_bytes_def)
    ultimately show ?thesis
      using sign_and_reply_staker [of ?t _ P "st\<lparr>ctx_req := Tx ?t, G_io_apdu_buffer := buf'\<rparr>" sp s key, where 'e = 'e]
        assms(7) buf' s64
      by (simp add: fill_in_and_sign_def create s Let_def)
  qed
qed

lemma transaction_approved:
  assumes "tx_reviewed P path version data t screen" "ctx_req st = Tx t" "platform_ok P" "apdu_buffer_ok st"
  obtains tx p where "tx_ok version tx" "carries version tx p" "data = tx_bytes version tx"
    "tx_display (blake2b P) version tx p = Ok (observe shown (parsed t))"
    "replies (on_transaction_approved P st :: ('e, _) result) (transaction_reply P path version tx p)"
proof (rule reviewed_transaction [OF assms(1,3), where 'e = 'e])
  fix tx p
  assume tx: "tx_ok version tx" "carries version tx p" "data = tx_bytes version tx"
    and display: "tx_display (blake2b P) version tx p = Ok (observe shown (parsed t))"
    and empty: "if has_empty_proof p
      then \<exists>sp. empty_staker_proof t = (Ok (Some sp) :: ('e, _) result) \<and> proof_ends_at (2 + length (t_data tx)) sp
      else empty_staker_proof t = (Ok None :: ('e, _) result)"
  have received: "tx_received path version data t" using assms(1) by (simp add: tx_reviewed_def)
  note b = reviewed_buffer [OF received] and key = private_key_of_received [OF received]
  have "replies (on_transaction_approved P st :: ('e, _) result) (transaction_reply P path version tx p)"
  proof (cases "private_key_of P path (of_nat (length path))")
    case None
    with assms(2,4) show ?thesis
      by (simp add: on_transaction_approved_def sign_transaction_def key transaction_reply_def failed_reply_def replies_status)
  next
    case (Some k)
    show ?thesis
    proof (cases "has_empty_proof p")
      case False
      with Some empty assms(2) sign_and_reply_plain [OF b(3) assms(3,4), of k] show ?thesis
        by (simp add: on_transaction_approved_def sign_transaction_def key transaction_reply_def tx(3) split: option.splits)
    next
      case True
      then obtain sp where sp: "empty_staker_proof t = (Ok (Some sp) :: ('e, _) result)"
          "proof_ends_at (2 + length (t_data tx)) sp"
        using empty by auto
      with True Some assms(2) staker_transaction_approved [OF received tx True sp(2) assms(3,4), of k, where 'e = 'e]
      show ?thesis
        by (simp add: on_transaction_approved_def sign_transaction_def key transaction_reply_def tx(3) Let_def cong: option.case_cong)
    qed
  qed
  with tx display show thesis by (rule that)
qed

section \<open>The other replies\<close>

lemma message_approved:
  assumes "confirming sha256 path flags len data m c" "ctx_req st = Msg m" "platform_ok P" "apdu_buffer_ok st"
  shows "replies (on_message_approved P st :: ('e, _) result)
    (case Option.bind (private_key_of P path (of_nat (length path)))
        (\<lambda>key. eddsa_sign P key (sha256 (message_prefix len @ data))) of
       None \<Rightarrow> failed_reply
     | Some sig \<Rightarrow> sig @ sw_bytes SW_OK)"
proof -
  have n: "unat (msg_bip32PathLength m) = length path" and path: "take (length path) (msg_bip32Path m) = path"
    and c: "msg_union m = Confirm c" "prefixedMessageHash c = sha256 (message_prefix len @ data)"
    using assms(1) by (simp_all add: confirming_def)
  have "length path \<le> length (msg_bip32Path m)" using arg_cong [OF path, of length] by simp
  moreover have "unat (of_nat (length path) :: u8) = length path" by (simp flip: n)
  moreover have "msg_bip32PathLength m = of_nat (length path)" by (simp flip: n)
  ultimately have key: "derive_key P (msg_bip32Path m) (msg_bip32PathLength m) =
      (Ok (private_key_of P path (of_nat (length path))) :: ('e, _) result)"
    by (simp add: derive_key_def private_key_of_def path)
  show ?thesis
  proof (cases "Option.bind (private_key_of P path (of_nat (length path)))
      (\<lambda>key. eddsa_sign P key (sha256 (message_prefix len @ data)))")
    case None
    with assms(2,4) show ?thesis by (simp add: on_message_approved_def key c failed_reply_def replies_status)
  next
    case (Some sig)
    then obtain k where "eddsa_sign P k (sha256 (message_prefix len @ data)) = Some sig"
      by (auto simp: Option.bind_eq_Some_conv)
    from platform_okD(2) [OF assms(3) this] have "length sig = 64" .
    with Some assms(2,4) show ?thesis
      by (simp add: on_message_approved_def key c finalize_success apdu_buffer_ok_def IO_APDU_BUFFER_SIZE_def)
  qed
qed

lemma address_approved:
  assumes "pk_arrays (req_pk P (ctx_req st))" "apdu_buffer_ok st"
  shows "replies (on_address_approved P st) (key_result (req_pk P (ctx_req st)) @ sw_bytes SW_OK)"
  using assms key_result_length [OF assms(1)]
  by (simp add: on_address_approved_def set_result_get_public_key_eq to_sw_def apdu_buffer_ok_def
      finalize_success IO_APDU_BUFFER_SIZE_def)

lemma rejected: "apdu_buffer_ok st \<Longrightarrow> replies (on_rejected st) (sw_bytes SW_DENY)"
  by (simp add: on_rejected_def replies_status)

section \<open>What the callbacks keep\<close>

text \<open>Replying changes the APDU buffer only, and keeps its size.\<close>

definition same_but_buffer :: "'h app_state \<Rightarrow> 'h app_state \<Rightarrow> bool" where
  "same_but_buffer st st' = (\<exists>buf. st' = st\<lparr>G_io_apdu_buffer := buf\<rparr> \<and> length buf = length (G_io_apdu_buffer st))"

lemma same_but_bufferI [intro]:
  "length buf = length (G_io_apdu_buffer st) \<Longrightarrow> same_but_buffer st (st\<lparr>G_io_apdu_buffer := buf\<rparr>)"
  by (auto simp: same_but_buffer_def)

lemma same_but_buffer_trans: "same_but_buffer a b \<Longrightarrow> same_but_buffer b c \<Longrightarrow> same_but_buffer a c"
  by (auto simp: same_but_buffer_def)

lemma same_but_buffer_ok: "same_but_buffer st st' \<Longrightarrow> state_ok st \<Longrightarrow> state_ok st'"
  by (auto simp: same_but_buffer_def state_ok_def)

lemma finalize_keeps:
  assumes "io_finalize_async_reply data n sw st = Ok (st', r)"
  shows "same_but_buffer st st'"
  using assms
  by (auto simp: io_finalize_async_reply_def Let_def andthen_eq_Ok dest!: length_memmove_at
      split: if_splits reply_data.splits)

lemma finalize_keeps_memmove:
  assumes "io_finalize_async_reply data n sw (st\<lparr>G_io_apdu_buffer := buf\<rparr>) = Ok (st', r)"
    "length buf = length (G_io_apdu_buffer st)"
  shows "same_but_buffer st st'"
  using finalize_keeps [OF assms(1)] assms(2) by (auto intro: same_but_buffer_trans)

lemma on_rejected_keeps: "on_rejected st = Ok (st', r) \<Longrightarrow> same_but_buffer st st'"
  by (auto simp: on_rejected_def dest: finalize_keeps)

lemma on_message_approved_keeps: "on_message_approved P st = Ok (st', r) \<Longrightarrow> same_but_buffer st st'"
  by (auto simp: on_message_approved_def Let_def andthen_eq_Ok dest: finalize_keeps finalize_keeps_memmove
      length_memmove_at split: option.splits)

lemma set_result_length:
  "set_result_get_public_key c buf = Ok (buf', n) \<Longrightarrow> length buf' = length buf"
  by (auto simp: set_result_get_public_key_def andthen_eq_Ok dest!: length_memmove_at split: if_splits)

lemma on_address_approved_keeps: "on_address_approved P st = Ok (st', r) \<Longrightarrow> same_but_buffer st st'"
  by (auto simp: on_address_approved_def dest: finalize_keeps finalize_keeps_memmove set_result_length
      split: result.splits)

lemma sign_and_reply_keeps:
  assumes "sign_and_reply P key sp t st = Ok (st', r)"
  shows "same_but_buffer st st'"
proof (cases sp)
  case None
  with assms show ?thesis
    by (auto simp: sign_and_reply_def andthen_eq_Ok dest!: length_memmove_at dest: finalize_keeps
        finalize_keeps_memmove split: option.splits)
next
  case (Some p)
  with assms show ?thesis
    by (auto simp: sign_and_reply_def andthen_eq_Ok dest!: length_memmove_at split: option.splits)
      (auto elim: finalize_keeps finalize_keeps_memmove)
qed

lemma memmove_to_length: "memmove_to p xs arr = Ok arr' \<Longrightarrow> length arr' = length arr"
  by (auto simp: memmove_to_def dest: length_memmove_at split: option.splits)

lemma create_staker_signature_keeps:
  assumes "create_staker_signature P key sp t buf = Ok (t', buf', sw)"
  shows "length buf' = length buf \<and> (\<exists>raw. t' = t\<lparr>rawTx := raw\<rparr> \<and> length raw = length (rawTx t))"
  using assms
  by (auto simp: create_staker_signature_def andthen_eq_Ok dest!: length_memmove_at memmove_to_length
      split: option.splits intro: exI [of _ "rawTx t"]) blast+

text \<open>Only the approval of a transaction changes the context, and only the transaction in it.\<close>

definition same_but_tx :: "'h platform \<Rightarrow> 'h app_state \<Rightarrow> 'h app_state \<Rightarrow> bool" where
  "same_but_tx P st st' = (\<exists>raw. length raw = length (rawTx (req_tx P (ctx_req st))) \<and>
     same_but_buffer (st\<lparr>ctx_req := Tx (req_tx P (ctx_req st)\<lparr>rawTx := raw\<rparr>)\<rparr>) st')"

lemma fill_in_and_sign_keeps:
  assumes "fill_in_and_sign P key p (req_tx P (ctx_req st)) st = (Ok (st', r) :: ('e, _) result)"
  shows "same_but_tx P st st'"
proof -
  let ?t = "req_tx P (ctx_req st)"
  obtain t buf sw where t: "create_staker_signature P key p ?t (G_io_apdu_buffer st) = (Ok (t, buf, sw) :: ('e, _) result)"
    and st': "same_but_buffer (st\<lparr>ctx_req := Tx t, G_io_apdu_buffer := buf\<rparr>) st'"
    using assms by (auto simp: fill_in_and_sign_def andthen_eq_Ok Let_def split: if_splits
        dest: sign_and_reply_keeps finalize_keeps)
  from create_staker_signature_keeps [OF t] obtain raw
    where raw: "length buf = length (G_io_apdu_buffer st)" "t = ?t\<lparr>rawTx := raw\<rparr>" "length raw = length (rawTx ?t)"
    by blast
  have "same_but_buffer (st\<lparr>ctx_req := Tx t\<rparr>) (st\<lparr>ctx_req := Tx t, G_io_apdu_buffer := buf\<rparr>)"
    using raw(1) by (intro same_but_bufferI) simp
  from same_but_buffer_trans [OF this st'] raw(2,3) show ?thesis by (auto simp: same_but_tx_def)
qed

lemma on_transaction_approved_keeps:
  "on_transaction_approved P st = Ok (st', r) \<Longrightarrow> same_but_buffer st st' \<or> same_but_tx P st st'"
  by (auto simp: on_transaction_approved_def sign_transaction_def Let_def andthen_eq_Ok split: option.splits
      dest: finalize_keeps sign_and_reply_keeps fill_in_and_sign_keeps)

text \<open>After either button the main menu is shown, and what else there is is in order if it was before.\<close>

lemma on_reviewed_keeps:
  assumes "on_reviewed P approved st = Ok (st', r)" "platform_ok P" "state_ok st"
  shows "state_ok st'" "on_screen st' = Main_menu" "ctx_u2fTimer st' = ctx_u2fTimer st"
    "ctx_req st' = ctx_req st \<or>
      (\<exists>raw. length raw = length (rawTx (req_tx P (ctx_req st))) \<and> ctx_req st' = Tx (req_tx P (ctx_req st)\<lparr>rawTx := raw\<rparr>))"
proof -
  obtain st1 where st1: "same_but_buffer st st1 \<or> same_but_tx P st st1" "st' = st1\<lparr>on_screen := Main_menu\<rparr>"
    using assms(1) by (auto simp: on_reviewed_eq andthen_eq_Ok split: if_splits shown_screen.splits
        dest: on_rejected_keeps on_address_approved_keeps on_transaction_approved_keeps on_message_approved_keeps)
  have "tx_arrays (req_tx P (ctx_req st))"
    using request_members(2) [OF assms(2)] assms(3) by (simp add: state_ok_def)
  with st1 assms(3) show "state_ok st'" "on_screen st' = Main_menu" "ctx_u2fTimer st' = ctx_u2fTimer st"
    "ctx_req st' = ctx_req st \<or>
      (\<exists>raw. length raw = length (rawTx (req_tx P (ctx_req st))) \<and> ctx_req st' = Tx (req_tx P (ctx_req st)\<lparr>rawTx := raw\<rparr>))"
    by (auto simp: same_but_buffer_def same_but_tx_def state_ok_def tx_arrays_def)
qed

end
