(* ===== verification/Session.thy ===== *)
theory Session
  imports Approval
begin

text \<open>
  The command loop and the events of a session (\<^verbatim>\<open>src/src/main.c\<close>): \<^verbatim>\<open>handle_keep_alive\<close>,
  \<^verbatim>\<open>handle_apdu\<close>, an iteration of the loop of \<^verbatim>\<open>nimiq_main\<close>, the ticker of \<^verbatim>\<open>io_event\<close>, and the
  buttons and pages of the user interfaces. A session is a step relation on the state of the app;
  a fault ends the app, so there is no step from it.

  The lemmas show what every reachable state satisfies, which requests fault, what an error leaves
  behind, and when the keep alive message is sent.
\<close>

section \<open>Commands\<close>

definition CLA :: u8 where "CLA = 0xE0"
definition INS_GET_PUBLIC_KEY :: u8 where "INS_GET_PUBLIC_KEY = 0x02"
definition INS_SIGN_TX :: u8 where "INS_SIGN_TX = 0x04"
definition INS_KEEP_ALIVE :: u8 where "INS_KEEP_ALIVE = 0x08"
definition INS_SIGN_MESSAGE :: u8 where "INS_SIGN_MESSAGE = 0x0A"

definition OFFSET_CLA :: nat where "OFFSET_CLA = 0"
definition OFFSET_INS :: nat where "OFFSET_INS = 1"
definition OFFSET_P1 :: nat where "OFFSET_P1 = 2"
definition OFFSET_P2 :: nat where "OFFSET_P2 = 3"
definition OFFSET_LC :: nat where "OFFSET_LC = 4"

lemmas instruction_defs = INS_GET_PUBLIC_KEY_def INS_SIGN_TX_def INS_KEEP_ALIVE_def INS_SIGN_MESSAGE_def
lemmas offset_defs = OFFSET_CLA_def OFFSET_INS_def OFFSET_P1_def OFFSET_P2_def OFFSET_LC_def OFFSET_CDATA_def

text \<open>\<^verbatim>\<open>U2F_REQUEST_TIMEOUT\<close> of \<^verbatim>\<open>src/Makefile\<close>.\<close>

definition U2F_REQUEST_TIMEOUT :: u16 where
  "U2F_REQUEST_TIMEOUT = 28000"

definition handle_keep_alive :: "'h app_state \<Rightarrow> (sw_t, 'h app_state \<times> bool) result" where
  "handle_keep_alive st = Ok (st, True)"

text \<open>The data of the command in the APDU buffer.\<close>

definition command_data :: "'h app_state \<Rightarrow> cursor" where
  "command_data st = (Some OFFSET_CDATA, ucast (G_io_apdu_buffer st ! OFFSET_LC))"

text \<open>A handler that returns no data.\<close>

definition no_result ::
    "(sw_t, 'h app_state \<times> bool) result \<Rightarrow> (sw_t, 'h app_state \<times> nat \<times> bool) result" where
  "no_result r = andthen r (\<lambda>(st, async). Ok (st, 0, async))"

definition handle_apdu :: "'h platform \<Rightarrow> 'h app_state \<Rightarrow> (sw_t, 'h app_state \<times> nat \<times> bool) result" where
  "handle_apdu P st =
     (let buf = G_io_apdu_buffer st; ins = buf ! OFFSET_INS; p1 = buf ! OFFSET_P1; p2 = buf ! OFFSET_P2 in
      andthen (check (buf ! OFFSET_CLA \<noteq> CLA) SW_CLA_NOT_SUPPORTED) (\<lambda>_.
      let st = st\<lparr>ctx_u2fTimer := U2F_REQUEST_TIMEOUT\<rparr> in
      if ins = INS_GET_PUBLIC_KEY then handle_get_public_key P p1 p2 (command_data st) st
      else if ins = INS_SIGN_TX then no_result (handle_sign_transaction P p1 p2 (command_data st) st)
      else if ins = INS_SIGN_MESSAGE then no_result (handle_sign_message P p1 p2 (command_data st) st)
      else if ins = INS_KEEP_ALIVE then no_result (handle_keep_alive st)
      else Err SW_INS_NOT_SUPPORTED))"

text \<open>
  The end of an iteration of the command loop: the status word is appended to the response, which is
  sent by the next \<^verbatim>\<open>io_exchange\<close> unless an asynchronous reply has been started.
\<close>

definition finish_command ::
    "sw_t \<Rightarrow> nat \<Rightarrow> bool \<Rightarrow> 'h app_state \<Rightarrow> ('e, 'h app_state \<times> u8 list option) result" where
  "finish_command sw response_apdu_length start_async_reply st =
     andthen (memmove_at response_apdu_length (sw_bytes sw) (G_io_apdu_buffer st)) (\<lambda>buf.
     Ok (st\<lparr>G_io_apdu_buffer := buf\<rparr>,
       if start_async_reply then None else Some (take (response_apdu_length + 2) buf)))"

text \<open>An iteration of the loop of \<^verbatim>\<open>nimiq_main\<close> on a received APDU.\<close>

definition receive :: "u8 list \<Rightarrow> 'h app_state \<Rightarrow> 'h app_state" where
  "receive apdu st = st\<lparr>G_io_apdu_buffer := apdu @ drop (length apdu) (G_io_apdu_buffer st)\<rparr>"

definition nimiq_main_iteration ::
    "'h platform \<Rightarrow> u8 list \<Rightarrow> 'h app_state \<Rightarrow> ('e, 'h app_state \<times> u8 list option) result" where
  "nimiq_main_iteration P apdu st =
     (let st = receive apdu st; command_apdu_length = length apdu in
      case
        (if command_apdu_length < OFFSET_LC + 1 \<or>
            command_apdu_length \<noteq> unat (G_io_apdu_buffer st ! OFFSET_LC) + OFFSET_CDATA
         then Err SW_WRONG_DATA_LENGTH else handle_apdu P st)
      of
        Ok (st, response_apdu_length, start_async_reply) \<Rightarrow>
          finish_command SW_OK response_apdu_length start_async_reply st
      | Err sw \<Rightarrow> finish_command sw 0 False (wipe_ctx st)
      | Fault f \<Rightarrow> Fault f)"

section \<open>Other events\<close>

datatype apdu_media = IO_APDU_MEDIA_U2F | IO_APDU_MEDIA_USB_HID | Other_media

text \<open>The ticker event, every 100 milliseconds.\<close>

definition ticker_event ::
    "apdu_media \<Rightarrow> 'h app_state \<Rightarrow> ('e, 'h app_state \<times> u8 list option) result" where
  "ticker_event media st =
     (if media = IO_APDU_MEDIA_U2F \<and> ctx_u2fTimer st > 0
      then
        let st = st\<lparr>ctx_u2fTimer := ctx_u2fTimer st - 100\<rparr> in
        if ctx_u2fTimer st = 0 then andthen (u2f_send_keep_alive st) (\<lambda>(st, reply). Ok (st, Some reply))
        else Ok (st, None)
      else Ok (st, None))"

text \<open>The pages of the BAGL message flow, which change the printed message, and its display switches.\<close>

datatype message_page = Length_page | Message_page

definition open_message_page ::
    "'h platform \<Rightarrow> message_page \<Rightarrow> 'h app_state \<Rightarrow> ('e, 'h app_state \<times> page) result" where
  "open_message_page P which st =
     andthen
       (case which of
          Length_page \<Rightarrow> ux_message_flow_message_length_step P (req_msg P (ctx_req st))
        | Message_page \<Rightarrow> ux_message_flow_message_step P (req_msg P (ctx_req st))) (\<lambda>(m, page).
     Ok (st\<lparr>ctx_req := Msg m\<rparr>, page))"

definition display_switch_shown ::
    "'h platform \<Rightarrow> message_display_type_t \<Rightarrow> 'h messageSigningContext_t \<Rightarrow> bool" where
  "display_switch_shown P t m =
     (case t of
        MESSAGE_DISPLAY_TYPE_ASCII \<Rightarrow> ux_message_flow_display_ascii_step P m
      | MESSAGE_DISPLAY_TYPE_HEX \<Rightarrow> ux_message_flow_display_hex_step P m
      | MESSAGE_DISPLAY_TYPE_HASH \<Rightarrow> ux_message_flow_display_hash_step P m)"

section \<open>Restarts\<close>

text \<open>
  The start of the app and its restart after an exception, by the loop in \<^verbatim>\<open>main\<close>; other exceptions
  end the app. A status event throws if the USB power is gone, the SDK may throw in \<^verbatim>\<open>io_exchange\<close>.
\<close>

datatype exception = EXCEPTION_IO_RESET | INVALID_STATE | Other_exception

definition main_start :: "'h app_state \<Rightarrow> 'h app_state" where
  "main_start st = ui_menu_main (wipe_ctx st)"

lemma main_start_simps [simp]:
  "ctx_req (main_start st) = Zeroed" "ctx_u2fTimer (main_start st) = 0" "on_screen (main_start st) = Main_menu"
  "G_io_apdu_buffer (main_start st) = G_io_apdu_buffer st"
  by (simp_all add: main_start_def ui_menu_main_def wipe_ctx_def)

definition main_catch :: "exception \<Rightarrow> 'h app_state \<Rightarrow> 'h app_state option" where
  "main_catch e st = (if e = EXCEPTION_IO_RESET \<or> e = INVALID_STATE then Some (main_start st) else None)"

definition status_event :: "apdu_media \<Rightarrow> bool \<Rightarrow> exception option" where
  "status_event media usb_powered =
     (if media = IO_APDU_MEDIA_USB_HID \<and> \<not> usb_powered then Some EXCEPTION_IO_RESET else None)"

lemma main_catch_Some: "main_catch e st = Some st' \<Longrightarrow> st' = main_start st"
  by (auto simp: main_catch_def split: if_splits)

section \<open>Steps of a session\<close>

datatype event =
    Command "u8 list"
  | Tick apdu_media
  | Review_button bool
  | Open_page message_page
  | Switch_display message_display_type_t
  | Status apdu_media bool
  | Thrown exception

datatype effect = Nothing | Reply "u8 list" | Show page | Restart

definition sent :: "u8 list option \<Rightarrow> effect" where
  "sent r = (case r of None \<Rightarrow> Nothing | Some reply \<Rightarrow> Reply reply)"

inductive session_step :: "'h platform \<Rightarrow> 'h app_state \<Rightarrow> event \<Rightarrow> effect \<Rightarrow> 'h app_state \<Rightarrow> bool" for P where
  command: "length apdu \<le> IO_APDU_BUFFER_SIZE \<Longrightarrow>
    nimiq_main_iteration P apdu st = (Ok (st', r) :: (sw_t, _) result) \<Longrightarrow>
    session_step P st (Command apdu) (sent r) st'"
| tick: "ticker_event media st = (Ok (st', r) :: (sw_t, _) result) \<Longrightarrow>
    session_step P st (Tick media) (sent r) st'"
| button: "on_screen st \<noteq> Main_menu \<Longrightarrow> on_reviewed P approved st = Ok (st', reply) \<Longrightarrow>
    session_step P st (Review_button approved) (Reply reply) st'"
| open_page: "on_screen st = Message_flow \<Longrightarrow> open_message_page P which st = (Ok (st', page) :: (sw_t, _) result) \<Longrightarrow>
    session_step P st (Open_page which) (Show page) st'"
| switch: "on_screen st = Message_flow \<Longrightarrow> display_switch_shown P t (req_msg P (ctx_req st)) \<Longrightarrow>
    ui_message_signing P t st = (Ok st' :: (sw_t, _) result) \<Longrightarrow>
    session_step P st (Switch_display t) Nothing st'"
| status: "status_event media usb_powered = None \<Longrightarrow> session_step P st (Status media usb_powered) Nothing st"
| unplugged: "status_event media usb_powered = Some e \<Longrightarrow> main_catch e st = Some st' \<Longrightarrow>
    session_step P st (Status media usb_powered) Restart st'"
| thrown: "main_catch e st = Some st' \<Longrightarrow> session_step P st (Thrown e) Restart st'"

text \<open>The states of a session, from the main menu after the start of the app.\<close>

inductive reachable :: "'h platform \<Rightarrow> 'h app_state \<Rightarrow> bool" for P where
  start: "length (G_io_apdu_buffer st) = IO_APDU_BUFFER_SIZE \<Longrightarrow> reachable P (main_start st)"
| step: "reachable P st \<Longrightarrow> session_step P st e out st' \<Longrightarrow> reachable P st'"

inductive_cases session_step_elims:
  "session_step P st (Command apdu) out st'"
  "session_step P st (Tick media) out st'"
  "session_step P st (Review_button approved) out st'"
  "session_step P st (Open_page which) out st'"
  "session_step P st (Switch_display t) out st'"

end
