(* ===== verification/Session_Invariant.thy ===== *)
theory Session_Invariant
  imports Session
begin

text \<open>
  What holds in every reachable state of a session, whatever commands arrive in whatever order: all
  arrays keep their declared sizes, the APDU buffer its own, and the timer counts down in steps that
  reach zero exactly. The handlers share one contract, the locale \<open>request_handler\<close>; the command
  loop relies on nothing else of them.
\<close>

section \<open>Array sizes through a message request\<close>

text \<open>Also for a context that another kind of request left behind.\<close>

lemma length_print_hex: "print_hex data out n = Ok out' \<Longrightarrow> length out' = length out"
proof -
  have "print_hex_loop i data out = Ok out' \<Longrightarrow> length out' = length out" for i
    by (induction i data out rule: print_hex_loop.induct)
      (auto simp: andthen_eq_Ok snprintf_at_def poke_def split: if_splits)
  then show "print_hex data out n = Ok out' \<Longrightarrow> ?thesis" by (auto simp: print_hex_def andthen_eq_Ok)
qed

lemma assert_no_error_Ok: "assert_no_error r = Ok x \<Longrightarrow> r = Ok x"
  by (cases r) (simp_all add: assert_no_error_def)

lemma prepare_arrays:
  assumes "ux_message_signing_prepare_printed_message P m = Ok m'" "platform_ok P" "msg_arrays m"
  shows "msg_arrays m'"
  using assms confirm_member_arrays [OF assms(2,3)]
  by (auto simp: ux_message_signing_prepare_printed_message_def Let_def andthen_eq_Ok print_in_confirm_def
      msg_arrays_def confirm_arrays_def dest!: length_memmove_at assert_no_error_Ok length_print_hex
      split: message_display_type_t.splits)

lemma set_display_type_arrays:
  assumes "platform_ok P" "msg_arrays m"
  shows "msg_arrays (set_display_type P t m)"
  using assms(2) confirm_member_arrays [OF assms] by (auto simp: set_display_type_def msg_arrays_def confirm_arrays_def)

lemma ui_message_signing_arrays:
  assumes "ui_message_signing P t st = (Ok st' :: ('e, _) result)" "platform_ok P" "state_ok st"
  shows "state_ok st' \<and> ctx_u2fTimer st' = ctx_u2fTimer st"
proof -
  note arrays = request_members(3) [OF assms(2), of "ctx_req st"]
  show ?thesis
  proof (cases "device P")
    case BAGL
    with assms arrays show ?thesis
      by (auto simp: ui_message_signing_def state_ok_def intro: set_display_type_arrays)
  next
    case NBGL
    with assms(1) obtain m entries where m: "ui_message_prepare_review_entries P t (req_msg P (ctx_req st)) =
        (Ok (m, entries) :: ('e, _) result)"
      "st' = review_scratch P (st\<lparr>ctx_req := Msg m, on_screen := Message_review (message_review_subtitle t) entries\<rparr>)"
      by (auto simp: ui_message_signing_def Let_def andthen_eq_Ok)
    have "msg_arrays m"
      using m(1) assms(2,3) arrays
      by (auto simp: ui_message_prepare_review_entries_def Let_def andthen_eq_Ok state_ok_def
          intro: prepare_arrays set_display_type_arrays)
    with assms(3) show ?thesis by (simp add: m(2) state_ok_def length_review_scratch [OF assms(2)])
  qed
qed

lemma sign_message_first_arrays:
  assumes "sign_message_first P mem cur m = Ok (m', cur')" "wf_cursor mem cur" "msg_arrays m"
  shows "msg_arrays m' \<and> wf_cursor mem cur'"
  using deliversD [OF delivers_sign_message_first [OF assms(2,3), where Q = "\<lambda>(m, c). msg_arrays m \<and> wf_cursor mem c"]
      assms(1)] by (auto simp: message_ok_def)

lemma store_printable_arrays: "store_printable data m = Ok m' \<Longrightarrow> msg_arrays m \<Longrightarrow> msg_arrays m'"
  by (auto simp: store_printable_def andthen_eq_Ok msg_arrays_def dest!: length_memmove_at split: if_splits)

lemma update_hashes_arrays: "update_hashes P data m = Ok m' \<Longrightarrow> msg_arrays m \<Longrightarrow> msg_arrays m'"
  by (auto simp: update_hashes_def case_prod_unfold andthen_eq_Ok msg_arrays_def)

lemma processed_arrays [simp]: "msg_arrays (m\<lparr>processedMessageLength := n\<rparr>) = msg_arrays m"
  by (simp add: msg_arrays_def)

lemma sign_message_data_arrays:
  "sign_message_data P mem cur m = Ok m' \<Longrightarrow> msg_arrays m \<Longrightarrow> msg_arrays m'"
  by (auto simp: sign_message_data_def andthen_eq_Ok dest: store_printable_arrays update_hashes_arrays
      split: if_splits)

lemma sign_message_hashes_arrays:
  assumes "sign_message_hashes P m = Ok m'" "platform_ok P" "msg_arrays m"
  shows "msg_arrays m'"
  using assms(1,3) platform_okD(4,7) [OF assms(2)]
  by (auto simp: sign_message_hashes_def andthen_eq_Ok msg_arrays_def confirm_arrays_def split: prod.splits)

lemma handle_sign_message_arrays:
  assumes "handle_sign_message P p1 p2 cur st = Ok (st', async)" "platform_ok P" "state_ok st"
    and "wf_cursor (G_io_apdu_buffer st) cur"
  shows "state_ok st' \<and> ctx_u2fTimer st' = ctx_u2fTimer st \<and> (\<not> async \<longrightarrow> on_screen st' = on_screen st)"
proof -
  have arrays: "msg_arrays (req_msg P (ctx_req st))"
    using request_members(3) [OF assms(2)] assms(3) by (simp add: state_ok_def)
  obtain m c where m: "msg_arrays m" "sign_message_chunk P p2 m c st = Ok (st', async)"
    using handle_sign_message_OkD [OF assms(1)] sign_message_first_arrays [OF _ assms(4) arrays] arrays by blast
  then obtain m1 where m1: "msg_arrays m1" "(if p2 = P2_MORE then Ok (st\<lparr>ctx_req := Msg m1\<rparr>, False)
      else andthen (sign_message_hashes P m1) (\<lambda>m.
        andthen (ui_message_signing P (message_display_type m) (st\<lparr>ctx_req := Msg m\<rparr>)) (\<lambda>st. Ok (st, True))))
      = Ok (st', async)"
    unfolding sign_message_chunk_def andthen_eq_Ok [of "sign_message_data _ _ _ _"]
    by (blast dest: sign_message_data_arrays)
  show ?thesis
  proof (cases "p2 = P2_MORE")
    case True
    with m1 assms(3) show ?thesis by (auto simp: state_ok_def)
  next
    case False
    then obtain m2 where m2: "sign_message_hashes P m1 = Ok m2" "async"
      "ui_message_signing P (message_display_type m2) (st\<lparr>ctx_req := Msg m2\<rparr>) = (Ok st' :: (sw_t, _) result)"
      using m1(2) by (auto simp: andthen_eq_Ok)
    have "msg_arrays m2" by (rule sign_message_hashes_arrays [OF m2(1) assms(2) m1(1)])
    with ui_message_signing_arrays [OF m2(3) assms(2)] assms(3) m2(2) show ?thesis by (simp add: state_ok_def)
  qed
qed

section \<open>Array sizes through a transaction request\<close>

lemma sign_transaction_rest_arrays:
  assumes "sign_transaction_rest P p2 st t = Ok (st', async)" "platform_ok P" "state_ok st" "tx_arrays t"
  shows "state_ok st' \<and> ctx_u2fTimer st' = ctx_u2fTimer st \<and> (\<not> async \<longrightarrow> on_screen st' = on_screen st)"
  using assms
  by (auto simp: sign_transaction_rest_def andthen_eq_Ok state_ok_def tx_arrays_def length_review_scratch
      split: if_splits)

lemma sign_transaction_first_arrays:
  "sign_transaction_first mem cur t = Ok t' \<Longrightarrow> wf_cursor mem cur \<Longrightarrow> fst cur \<noteq> None \<Longrightarrow> tx_arrays t \<Longrightarrow> tx_arrays t'"
  by (rule sign_transaction_first_OkD) (auto simp: tx_received_def)

lemma sign_transaction_more_arrays: "sign_transaction_more mem cur t = Ok t' \<Longrightarrow> tx_arrays t \<Longrightarrow> tx_arrays t'"
  by (auto simp: sign_transaction_more_def Let_def andthen_eq_Ok tx_arrays_def dest!: length_memmove_at)

lemma handle_sign_transaction_arrays:
  assumes "handle_sign_transaction P p1 p2 cur st = Ok (st', async)" "platform_ok P" "state_ok st"
    and "wf_cursor (G_io_apdu_buffer st) cur" "fst cur \<noteq> None"
  shows "state_ok st' \<and> ctx_u2fTimer st' = ctx_u2fTimer st \<and> (\<not> async \<longrightarrow> on_screen st' = on_screen st)"
proof -
  have arrays: "tx_arrays (req_tx P (ctx_req st))"
    using request_members(2) [OF assms(2)] assms(3) by (simp add: state_ok_def)
  obtain t where "tx_arrays t" "sign_transaction_rest P p2 st t = Ok (st', async)"
    using handle_sign_transaction_OkD [OF assms(1)] arrays
      sign_transaction_first_arrays [OF _ assms(4,5) arrays] sign_transaction_more_arrays [OF _ arrays] by blast
  with sign_transaction_rest_arrays [OF _ assms(2,3)] show ?thesis by blast
qed

section \<open>Errors\<close>

text \<open>No handler returns the status word of success as an error.\<close>

abbreviation error_sw :: "sw_t \<Rightarrow> bool" where
  "error_sw sw \<equiv> sw \<noteq> SW_OK"

lemma reports_sdk [reports_intros]: "E e \<Longrightarrow> reports E (sdk x e)"
  by (cases x) (simp_all add: reports_def)

lemma reports_bytes_at [reports_intros]: "reports E (bytes_at mem p n)" "reports E (memmove_at i xs arr)"
  by (simp_all add: bytes_at_def memmove_at_def reports_def split: option.split)

lemma reports_to_sw [reports_intros]: "reports parse_error r \<Longrightarrow> reports error_sw (to_sw r)"
  by (cases r) (auto simp: reports_def to_sw_def parse_error_def)

lemma reports_no_error: "reports E r \<longleftrightarrow> (\<forall>e. r = Err e \<longrightarrow> E e)"
  by (simp add: reports_def)

text \<open>A review reports no error at all: it is shown or ends the app.\<close>

lemma reports_members [reports_intros]:
  "reports E (normal_or_staking_outgoing_tx s)" "reports E (htlc_creation_tx s)"
  "reports E (vesting_creation_tx s)" "reports E (staking_incoming_tx s)"
  "reports E (delegation_of x)" "reports E (reactivate_all_stake_of x)" "reports E (stake_amount_of x)"
  by (cases s; simp)+ (cases x; simp)+

lemma reports_optional_page [reports_intros]: "reports E r \<Longrightarrow> reports E (optional_page b item r)"
  unfolding optional_page_def by (intro reports_intros) simp_all

lemma reports_pages [reports_intros]: "list_all (reports E) rs \<Longrightarrow> reports E (pages rs)"
  by (induction rs rule: pages.induct) (auto intro!: reports_intros)

lemma reports_delegation_entry [reports_intros]:
  "reports E (ux_transaction_staking_incoming_has_create_staker_or_update_staker_delegation_entry d)"
  by (auto simp: ux_transaction_staking_incoming_has_create_staker_or_update_staker_delegation_entry_def
      intro!: reports_intros)

lemma reports_bagl_flow [reports_intros]: "reports E (bagl_transaction_flow p t)"
  by (cases t) (auto simp: ux_transaction_normal_or_staking_outgoing_flow_def
      ux_transaction_vesting_creation_flow_def ux_transaction_htlc_creation_flow_def
      ux_transaction_staking_incoming_flow_def flow_steps intro!: reports_intros)

lemma reports_entries_add [reports_intros]:
  "reports E r \<Longrightarrow> reports E (review_entries_add item r es)"
  "reports E r \<Longrightarrow> reports E (review_entries_add_optional item r b es)"
  by (auto simp: review_entries_add_def review_entries_add_optional_def intro!: reports_intros)

lemma reports_nbgl_entries [reports_intros]: "reports E (nbgl_review_entries p t)"
  by (cases t) (auto simp: ui_transaction_prepare_review_entries_normal_or_staking_outgoing_def
      ui_transaction_prepare_review_entries_staking_incoming_def intro!: reports_intros)

lemma reports_ui_transaction_signing [reports_intros]: "reports E (ui_transaction_signing d p)"
  by (cases d) (auto simp: bagl_ui_transaction_signing_def nbgl_ui_transaction_signing_def intro!: reports_intros)

lemma reports_handle_sign_transaction: "reports error_sw (handle_sign_transaction P p1 p2 cur st)"
  unfolding handle_sign_transaction_def sign_transaction_first_def sign_transaction_more_def sign_transaction_rest_def
  by (intro reports_intros reports_parse_tx) simp_all

lemma reports_assert_no_error [reports_intros]: "reports E (assert_no_error r)"
  by (cases r) (simp_all add: assert_no_error_def)

lemma reports_prepare [reports_intros]: "reports E (ux_message_signing_prepare_printed_message P m)"
  by (auto simp: ux_message_signing_prepare_printed_message_def Let_def intro!: reports_intros
      split: message_display_type_t.split)

lemma reports_ui_message_signing [reports_intros]: "reports E (ui_message_signing P t st)"
  by (auto simp: ui_message_signing_def ui_message_prepare_review_entries_def Let_def intro!: reports_intros
      split: device.split)

lemma reports_handle_sign_message: "reports error_sw (handle_sign_message P p1 p2 cur st)"
  unfolding handle_sign_message_def sign_message_first_def sign_message_chunk_def sign_message_data_def
    store_printable_def update_hashes_def sign_message_hashes_def
  by (intro reports_intros) simp_all

lemma reports_handle_get_public_key: "reports error_sw (handle_get_public_key P p1 p2 cur st)"
  unfolding handle_get_public_key_def read_verification_message_def get_public_key_context_def
    get_public_key_reply_def set_result_get_public_key_def
  by (intro reports_intros) simp_all

section \<open>The contract of the handlers\<close>

text \<open>
  What the command loop needs of a handler: an accepted request keeps the array sizes and the timer
  and returns at most a key with a signature, or nothing if it waits for the user; it leaves the screen
  alone unless it waits for the user; and an error is not the status word of success.
\<close>

definition data_cursor :: "'h app_state \<Rightarrow> cursor \<Rightarrow> bool" where
  "data_cursor st cur = (wf_cursor (G_io_apdu_buffer st) cur \<and> (\<exists>lc :: u8. cur = (Some OFFSET_CDATA, ucast lc)))"

locale request_handler =
  fixes P :: "'h platform"
    and handle :: "u8 \<Rightarrow> u8 \<Rightarrow> cursor \<Rightarrow> 'h app_state \<Rightarrow> (sw_t, 'h app_state \<times> nat \<times> bool) result"
  assumes accepted: "platform_ok P \<Longrightarrow> state_ok st \<Longrightarrow> data_cursor st cur \<Longrightarrow>
      handle p1 p2 cur st = Ok (st', n, async) \<Longrightarrow>
      state_ok st' \<and> ctx_u2fTimer st' = ctx_u2fTimer st \<and> n \<le> 96 \<and> (async \<longrightarrow> n = 0) \<and>
      (\<not> async \<longrightarrow> on_screen st' = on_screen st)"
    and refused: "reports error_sw (handle p1 p2 cur st)"
begin

text \<open>An iteration of the loop with this handler ends in a state in order, with a reply or a review.\<close>

lemma finished:
  assumes "platform_ok P" "state_ok st" "data_cursor st cur" "handle p1 p2 cur st = Ok (st', n, async)"
  shows "\<exists>st''. finish_command SW_OK n async st' = Ok (st'', if async then None else
      Some (take n (G_io_apdu_buffer st') @ sw_bytes SW_OK)) \<and>
    state_ok st'' \<and> ctx_u2fTimer st'' = ctx_u2fTimer st \<and> ctx_req st'' = ctx_req st' \<and> on_screen st'' = on_screen st'"
  using accepted [OF assms] by (auto simp: finish_command_def state_ok_def IO_APDU_BUFFER_SIZE_def)

end

interpretation public_key_requests: request_handler P "handle_get_public_key P" for P
proof
  fix st st' :: "'a app_state" and n async cur p1 p2
  assume a: "platform_ok P" "state_ok st" "data_cursor st cur" "handle_get_public_key P p1 p2 cur st = Ok (st', n, async)"
  then obtain lc :: u8 where cur: "cur = (Some OFFSET_CDATA, ucast lc)" by (auto simp: data_cursor_def)
  obtain key msg c where c: "key_context P (p1 = P1_SIGNATURE) key msg c" "public_key_outcome P p2 c st st' n async"
    using handle_get_public_key_OkD [OF a(4,1,2) cur] by blast
  have "length (key_result c) = (if returnSignature c then 96 else 32)"
    using c(1) by (intro key_result_length) (simp add: key_context_def)
  then have r: "length (key_result c) \<le> 96" "length (key_result c) \<le> IO_APDU_BUFFER_SIZE"
    by (simp_all add: IO_APDU_BUFFER_SIZE_def)
  show "state_ok st' \<and> ctx_u2fTimer st' = ctx_u2fTimer st \<and> n \<le> 96 \<and> (async \<longrightarrow> n = 0) \<and>
      (\<not> async \<longrightarrow> on_screen st' = on_screen st)"
    using c a(2) r by (auto simp: key_context_def public_key_outcome_def state_ok_def split: if_splits)
qed (rule reports_handle_get_public_key)

lemma no_result_Ok: "no_result r = Ok (st, n, async) \<longleftrightarrow> r = Ok (st, async) \<and> n = 0"
  by (auto simp: no_result_def andthen_eq_Ok)

lemma reports_no_result: "reports E r \<Longrightarrow> reports E (no_result r)"
  unfolding no_result_def by (intro reports_intros) simp_all

interpretation transaction_requests: request_handler P "\<lambda>p1 p2 cur st. no_result (handle_sign_transaction P p1 p2 cur st)" for P
proof
  fix st st' :: "'a app_state" and n async cur p1 p2
  assume a: "platform_ok P" "state_ok st" "data_cursor st cur"
    "no_result (handle_sign_transaction P p1 p2 cur st) = Ok (st', n, async)"
  then have "handle_sign_transaction P p1 p2 cur st = Ok (st', async)" "n = 0"
      "wf_cursor (G_io_apdu_buffer st) cur" "fst cur \<noteq> None" by (auto simp: data_cursor_def no_result_Ok)
  with handle_sign_transaction_arrays [OF _ a(1,2)] show "state_ok st' \<and> ctx_u2fTimer st' = ctx_u2fTimer st \<and>
      n \<le> 96 \<and> (async \<longrightarrow> n = 0) \<and> (\<not> async \<longrightarrow> on_screen st' = on_screen st)"
    by (metis le0)
qed (intro reports_no_result reports_handle_sign_transaction)

interpretation message_requests: request_handler P "\<lambda>p1 p2 cur st. no_result (handle_sign_message P p1 p2 cur st)" for P
proof
  fix st st' :: "'a app_state" and n async cur p1 p2
  assume a: "platform_ok P" "state_ok st" "data_cursor st cur"
    "no_result (handle_sign_message P p1 p2 cur st) = Ok (st', n, async)"
  then have "handle_sign_message P p1 p2 cur st = Ok (st', async)" "n = 0"
      "wf_cursor (G_io_apdu_buffer st) cur" by (auto simp: data_cursor_def no_result_Ok)
  with handle_sign_message_arrays [OF _ a(1,2)] show "state_ok st' \<and> ctx_u2fTimer st' = ctx_u2fTimer st \<and>
      n \<le> 96 \<and> (async \<longrightarrow> n = 0) \<and> (\<not> async \<longrightarrow> on_screen st' = on_screen st)"
    by (metis le0)
qed (intro reports_no_result reports_handle_sign_message)

interpretation keep_alive_requests: request_handler P "\<lambda>p1 p2 cur st. no_result (handle_keep_alive st)" for P
  by unfold_locales (auto simp: no_result_def handle_keep_alive_def)

section \<open>Every iteration of the command loop\<close>

text \<open>What an iteration answers: an error with its status word alone, or the result of the request.\<close>

definition refused_command :: "sw_t \<Rightarrow> 'h app_state \<Rightarrow> 'h app_state \<Rightarrow> u8 list option \<Rightarrow> bool" where
  "refused_command sw st st' r = (sw \<noteq> SW_OK \<and> r = Some (sw_bytes sw) \<and> ctx_req st' = Zeroed \<and>
     ctx_u2fTimer st' = 0 \<and> on_screen st' = on_screen st)"

lemma receive_simps [simp]:
  "ctx_req (receive apdu st) = ctx_req st" "ctx_u2fTimer (receive apdu st) = ctx_u2fTimer st"
  "on_screen (receive apdu st) = on_screen st"
  "G_io_apdu_buffer (receive apdu st) = apdu @ drop (length apdu) (G_io_apdu_buffer st)"
  by (simp_all add: receive_def)

lemma receive_ok:
  "state_ok st \<Longrightarrow> length apdu \<le> IO_APDU_BUFFER_SIZE \<Longrightarrow> state_ok (receive apdu st)"
  by (simp add: state_ok_def)

lemma data_cursor_command:
  "state_ok st \<Longrightarrow> data_cursor (st\<lparr>ctx_u2fTimer := x\<rparr>) (command_data st)"
  using wf_command_data [of "G_io_apdu_buffer st"] by (auto simp: data_cursor_def command_data_def state_ok_def)

lemma command_data_timer [simp]: "command_data (st\<lparr>ctx_u2fTimer := x\<rparr>) = command_data st"
  by (simp add: command_data_def)

lemma handle_apdu_cases [consumes 1, case_names Refused Public_key Transaction Message Keep_alive]:
  assumes "handle_apdu P st = r"
  obtains sw where "r = Err sw" "sw \<noteq> SW_OK"
  | "r = handle_get_public_key P (G_io_apdu_buffer st ! OFFSET_P1) (G_io_apdu_buffer st ! OFFSET_P2)
      (command_data st) (st\<lparr>ctx_u2fTimer := U2F_REQUEST_TIMEOUT\<rparr>)"
    "G_io_apdu_buffer st ! OFFSET_INS = INS_GET_PUBLIC_KEY"
  | "r = no_result (handle_sign_transaction P (G_io_apdu_buffer st ! OFFSET_P1) (G_io_apdu_buffer st ! OFFSET_P2)
      (command_data st) (st\<lparr>ctx_u2fTimer := U2F_REQUEST_TIMEOUT\<rparr>))"
    "G_io_apdu_buffer st ! OFFSET_INS = INS_SIGN_TX"
  | "r = no_result (handle_sign_message P (G_io_apdu_buffer st ! OFFSET_P1) (G_io_apdu_buffer st ! OFFSET_P2)
      (command_data st) (st\<lparr>ctx_u2fTimer := U2F_REQUEST_TIMEOUT\<rparr>))"
    "G_io_apdu_buffer st ! OFFSET_INS = INS_SIGN_MESSAGE"
  | "r = Ok (st\<lparr>ctx_u2fTimer := U2F_REQUEST_TIMEOUT\<rparr>, 0, True)"
    "G_io_apdu_buffer st ! OFFSET_INS = INS_KEEP_ALIVE"
  using assms
  by (cases "G_io_apdu_buffer st ! OFFSET_CLA = CLA")
    (auto simp: handle_apdu_def Let_def no_result_def handle_keep_alive_def split: if_splits)

lemma handle_apdu_Ok:
  assumes "handle_apdu P st = Ok (st', n, async)" "platform_ok P" "state_ok st"
  shows "\<exists>st''. (finish_command SW_OK n async st' :: (sw_t, _) result) = Ok (st'', if async then None else
      Some (take n (G_io_apdu_buffer st') @ sw_bytes SW_OK)) \<and>
    state_ok st'' \<and> ctx_u2fTimer st'' = U2F_REQUEST_TIMEOUT \<and> ctx_req st'' = ctx_req st' \<and> on_screen st'' = on_screen st'"
proof -
  let ?st = "st\<lparr>ctx_u2fTimer := U2F_REQUEST_TIMEOUT\<rparr>"
  have ok: "state_ok ?st" "data_cursor ?st (command_data st)"
    using assms(3) data_cursor_command [OF assms(3)] by (simp_all add: state_ok_def)
  from assms(1) show ?thesis
  proof (cases rule: handle_apdu_cases)
    case Public_key
    from public_key_requests.finished [OF assms(2) ok Public_key(1) [symmetric]] show ?thesis by simp
  next
    case Transaction
    from transaction_requests.finished [OF assms(2) ok Transaction(1) [symmetric]] show ?thesis by simp
  next
    case Message
    from message_requests.finished [OF assms(2) ok Message(1) [symmetric]] show ?thesis by simp
  next
    case Keep_alive
    have "no_result (handle_keep_alive ?st) = Ok (st', n, async)"
      using Keep_alive(1) by (simp add: no_result_def handle_keep_alive_def)
    from keep_alive_requests.finished [OF assms(2) ok this] show ?thesis by simp
  qed simp
qed

lemma handle_apdu_sizes:
  assumes "handle_apdu P st = Ok (st', n, async)" "platform_ok P" "state_ok st"
  shows "length (G_io_apdu_buffer st') = IO_APDU_BUFFER_SIZE \<and> n \<le> 96"
proof -
  let ?st = "st\<lparr>ctx_u2fTimer := U2F_REQUEST_TIMEOUT\<rparr>"
  have ok: "state_ok ?st" "data_cursor ?st (command_data st)"
    using assms(3) data_cursor_command [OF assms(3)] by (simp_all add: state_ok_def)
  note accepted = public_key_requests.accepted [OF assms(2) ok] transaction_requests.accepted [OF assms(2) ok]
    message_requests.accepted [OF assms(2) ok]
  from assms(1) have "state_ok st' \<and> n \<le> 96"
    by (cases rule: handle_apdu_cases) (use accepted ok(1) in \<open>auto dest: sym\<close>)
  then show ?thesis by (simp add: state_ok_def)
qed

lemma handle_apdu_Err: "handle_apdu P st = Err sw \<Longrightarrow> sw \<noteq> SW_OK"
proof -
  have "reports error_sw (handle_apdu P st)"
    unfolding handle_apdu_def Let_def
    by (intro reports_intros public_key_requests.refused transaction_requests.refused message_requests.refused
        keep_alive_requests.refused) simp_all
  then show "handle_apdu P st = Err sw \<Longrightarrow> ?thesis" by (simp add: reports_def)
qed

definition wf_apdu :: "u8 list \<Rightarrow> bool" where
  "wf_apdu apdu = (OFFSET_CDATA \<le> length apdu \<and> length apdu = unat (apdu ! OFFSET_LC) + OFFSET_CDATA)"

lemma wf_apdu_iff:
  "wf_apdu apdu \<longleftrightarrow> \<not> (length apdu < OFFSET_LC + 1 \<or>
    length apdu \<noteq> unat (G_io_apdu_buffer (receive apdu st) ! OFFSET_LC) + OFFSET_CDATA)"
  by (auto simp: wf_apdu_def offset_defs nth_append)

definition accepted_command ::
    "'h platform \<Rightarrow> u8 list \<Rightarrow> 'h app_state \<Rightarrow> 'h app_state \<Rightarrow> u8 list option \<Rightarrow> 'h app_state \<Rightarrow> nat \<Rightarrow> bool \<Rightarrow> bool" where
  "accepted_command P apdu st st' r st1 n async =
     (wf_apdu apdu \<and> handle_apdu P (receive apdu st) = Ok (st1, n, async) \<and>
      r = (if async then None else Some (take n (G_io_apdu_buffer st1) @ sw_bytes SW_OK)) \<and>
      ctx_req st' = ctx_req st1 \<and> on_screen st' = on_screen st1 \<and> ctx_u2fTimer st' = U2F_REQUEST_TIMEOUT)"

lemma iteration_cases:
  assumes "nimiq_main_iteration P apdu st = (Ok (st', r) :: (sw_t, _) result)" "platform_ok P" "state_ok st"
    and "length apdu \<le> IO_APDU_BUFFER_SIZE"
  shows "state_ok st' \<and> ((\<exists>sw. refused_command sw st st' r) \<or> (\<exists>st1 n async. accepted_command P apdu st st' r st1 n async))"
proof -
  note ok = receive_ok [OF assms(3,4)]
  let ?r = "if wf_apdu apdu then handle_apdu P (receive apdu st) else Err SW_WRONG_DATA_LENGTH"
  have "(case ?r of Ok (st, n, async) \<Rightarrow> finish_command SW_OK n async st
      | Err sw \<Rightarrow> finish_command sw 0 False (wipe_ctx (receive apdu st)) | Fault f \<Rightarrow> Fault f) = (Ok (st', r) :: (sw_t, _) result)"
    using assms(1) unfolding nimiq_main_iteration_def Let_def wf_apdu_iff [of apdu st] by (auto split: if_splits)
  then consider (Accepted) st1 n async where "?r = Ok (st1, n, async)" "finish_command SW_OK n async st1 = (Ok (st', r) :: (sw_t, _) result)"
    | (Refused) sw where "?r = Err sw" "finish_command sw 0 False (wipe_ctx (receive apdu st)) = (Ok (st', r) :: (sw_t, _) result)"
    by (cases ?r) auto
  then show ?thesis
  proof cases
    case Accepted
    then have "wf_apdu apdu" "handle_apdu P (receive apdu st) = Ok (st1, n, async)" by (auto split: if_splits)
    with handle_apdu_Ok [OF this(2) assms(2) ok] Accepted(2)
    show ?thesis unfolding accepted_command_def by auto
  next
    case Refused
    then have "sw \<noteq> SW_OK" by (auto split: if_splits dest: handle_apdu_Err)
    with Refused(2) ok show ?thesis
      by (auto simp: finish_command_def wipe_ctx_def refused_command_def andthen_eq_Ok memmove_at_eq_Ok state_ok_def)
  qed
qed

section \<open>What every step keeps\<close>

text \<open>The timer counts down in steps of 100 from a multiple of 100.\<close>

definition timer_ok :: "u16 \<Rightarrow> bool" where
  "timer_ok u = (\<exists>k \<le> 280. unat u = 100 * k)"

definition session_ok :: "'h app_state \<Rightarrow> bool" where
  "session_ok st = (state_ok st \<and> timer_ok (ctx_u2fTimer st))"

lemma timer_ok_simps [simp]: "timer_ok 0" "timer_ok U2F_REQUEST_TIMEOUT"
  by (auto simp: timer_ok_def U2F_REQUEST_TIMEOUT_def)

lemma unat_timer_minus: "timer_ok u \<Longrightarrow> u > 0 \<Longrightarrow> unat (u - 100) = unat u - 100"
  by (subst unat_sub) (auto simp: timer_ok_def word_le_nat_alt word_less_nat_alt)

lemma timer_ok_minus:
  assumes "timer_ok u" "u > 0"
  shows "timer_ok (u - 100)"
proof -
  obtain k where "k \<le> 280" "unat u = 100 * k" using assms(1) by (auto simp: timer_ok_def)
  then have "k - 1 \<le> 280" "unat (u - 100) = 100 * (k - 1)" using unat_timer_minus [OF assms] by auto
  then show ?thesis unfolding timer_ok_def by blast
qed

lemma same_but_buffer_refl [simp]: "same_but_buffer st st"
  using same_but_bufferI [of "G_io_apdu_buffer st" st] by simp

lemma ticker_Ok:
  assumes "ticker_event media st = Ok (st', r)" "apdu_buffer_ok st"
  shows "same_but_buffer (st\<lparr>ctx_u2fTimer := ctx_u2fTimer st'\<rparr>) st' \<and>
    (ctx_u2fTimer st' = ctx_u2fTimer st \<or> ctx_u2fTimer st > 0 \<and> ctx_u2fTimer st' = ctx_u2fTimer st - 100)"
  using assms
  by (auto simp: ticker_event_def Let_def u2f_send_keep_alive_def finalize_status andthen_eq_Ok
      apdu_buffer_ok_def IO_APDU_BUFFER_SIZE_def sw_bytes_def intro!: same_but_bufferI split: if_splits)

lemma open_message_page_arrays:
  assumes "open_message_page P which st = Ok (st', page)" "platform_ok P" "state_ok st"
  shows "state_ok st' \<and> ctx_u2fTimer st' = ctx_u2fTimer st \<and> on_screen st' = on_screen st"
proof -
  have arrays: "msg_arrays (req_msg P (ctx_req st))"
    using request_members(3) [OF assms(2)] assms(3) by (simp add: state_ok_def)
  from assms confirm_member_arrays [OF assms(2) arrays] arrays show ?thesis
    by (cases which) (auto simp: open_message_page_def andthen_eq_Ok ux_message_flow_message_length_step_def
        ux_message_flow_message_step_def Let_def state_ok_def msg_arrays_def confirm_arrays_def snprintf_at_def poke_def
        dest: prepare_arrays [OF _ assms(2) arrays] split: if_splits)
qed

lemma session_step_ok:
  assumes "session_step P st e out st'" "platform_ok P" "session_ok st"
  shows "session_ok st'"
  using assms
proof (induction rule: session_step.induct)
  case (command apdu st st' r)
  then have "state_ok st' \<and> (ctx_u2fTimer st' = 0 \<or> ctx_u2fTimer st' = U2F_REQUEST_TIMEOUT)"
    using iteration_cases [OF command(2) command.prems(1) _ command(1)]
    by (auto simp: session_ok_def refused_command_def accepted_command_def)
  then show ?case by (auto simp: session_ok_def)
next
  case (tick media st st' r)
  then have ok: "state_ok st" "timer_ok (ctx_u2fTimer st)" "apdu_buffer_ok st"
    by (auto simp: session_ok_def state_ok_def apdu_buffer_ok_def)
  note t = ticker_Ok [OF tick(1) ok(3)]
  then have "state_ok (st\<lparr>ctx_u2fTimer := ctx_u2fTimer st'\<rparr>)" using ok(1) by (simp add: state_ok_def)
  with t ok(2) show ?case by (auto simp: session_ok_def intro: timer_ok_minus dest: same_but_buffer_ok)
next
  case (button st approved st' reply)
  then show ?case using on_reviewed_keeps [OF button(2)] by (simp add: session_ok_def)
next
  case (open_page st which st' page)
  then show ?case using open_message_page_arrays [OF open_page(2)] by (simp add: session_ok_def)
next
  case (switch st t st')
  then show ?case using ui_message_signing_arrays [OF switch(3)] by (simp add: session_ok_def)
qed (auto simp: session_ok_def state_ok_def dest: main_catch_Some)

lemma reachable_ok: "reachable P st \<Longrightarrow> platform_ok P \<Longrightarrow> session_ok st"
proof (induction rule: reachable.induct)
  case (start st)
  then show ?case by (simp add: session_ok_def state_ok_def)
qed (blast intro: session_step_ok)

end
