(* ===== verification/Session_Properties.thy ===== *)
theory Session_Properties
  imports Session_Invariant
begin

text \<open>
  What a session guarantees whatever commands arrive: the state stays in order, an error leaves
  nothing behind, nothing but public keys and signatures of marked test messages leaves the device
  without the button, the keep alive message is sent in time, and a request ends the app only in the
  cases listed.
\<close>

section \<open>Running a session\<close>

text \<open>A step as a function of the event; \<open>None\<close> if the event cannot happen or ends the app.\<close>

definition completed :: "(sw_t, 'a) result \<Rightarrow> 'a option" where
  "completed r = (case r of Ok x \<Rightarrow> Some x | _ \<Rightarrow> None)"

definition perform :: "'h platform \<Rightarrow> event \<Rightarrow> 'h app_state \<Rightarrow> ('h app_state \<times> effect) option" where
  "perform P e st =
     (case e of
        Command apdu \<Rightarrow>
          if length apdu \<le> IO_APDU_BUFFER_SIZE
          then map_option (\<lambda>(st, r). (st, sent r)) (completed (nimiq_main_iteration P apdu st)) else None
      | Tick media \<Rightarrow> map_option (\<lambda>(st, r). (st, sent r)) (completed (ticker_event media st))
      | Review_button approved \<Rightarrow>
          if on_screen st \<noteq> Main_menu
          then map_option (\<lambda>(st, r). (st, Reply r)) (completed (on_reviewed P approved st)) else None
      | Open_page which \<Rightarrow>
          if on_screen st = Message_flow
          then map_option (\<lambda>(st, page). (st, Show page)) (completed (open_message_page P which st)) else None
      | Switch_display t \<Rightarrow>
          if on_screen st = Message_flow \<and> display_switch_shown P t (req_msg P (ctx_req st))
          then map_option (\<lambda>st. (st, Nothing)) (completed (ui_message_signing P t st)) else None
      | Status media usb_powered \<Rightarrow>
          (case status_event media usb_powered of
             None \<Rightarrow> Some (st, Nothing)
           | Some e \<Rightarrow> map_option (\<lambda>st. (st, Restart)) (main_catch e st))
      | Thrown e \<Rightarrow> map_option (\<lambda>st. (st, Restart)) (main_catch e st))"

fun perform_all :: "'h platform \<Rightarrow> event list \<Rightarrow> 'h app_state \<Rightarrow> ('h app_state \<times> effect list) option" where
  "perform_all P [] st = Some (st, [])"
| "perform_all P (e # es) st =
     (case perform P e st of
        None \<Rightarrow> None
      | Some (st, out) \<Rightarrow> map_option (\<lambda>(st, outs). (st, out # outs)) (perform_all P es st))"

lemma completed_eq_Some [simp]: "completed r = Some x \<longleftrightarrow> r = Ok x"
  by (cases r) (simp_all add: completed_def)

lemma perform_step: "perform P e st = Some (st', out) \<Longrightarrow> session_step P st e out st'"
  by (cases e) (auto simp: perform_def split: if_splits option.splits intro: session_step.intros)

lemma perform_replies:
  assumes "case perform P e st of Some (st', Reply r) \<Rightarrow> Q st' r | _ \<Rightarrow> False"
  obtains st' r where "session_step P st e (Reply r) st'" "Q st' r"
proof -
  obtain st' out where "perform P e st = Some (st', out)" "case out of Reply r \<Rightarrow> Q st' r | _ \<Rightarrow> False"
    using assms by (auto split: option.splits)
  with that show thesis by (cases out) (auto dest: perform_step)
qed

lemma perform_all_reachable:
  "perform_all P es st = Some (st', outs) \<Longrightarrow> reachable P st \<Longrightarrow> reachable P st'"
  by (induction es arbitrary: st outs)
    (auto split: option.splits dest!: perform_step, blast intro: reachable.step)

definition start_state :: "'h app_state" where
  "start_state = apdu_state []"

lemma reachable_start: "reachable P start_state"
  using reachable.start [of start_state P] by (simp add: start_state_def apdu_state_def main_start_def ui_menu_main_def wipe_ctx_def)

text \<open>Commands with their header, and the path \<^verbatim>\<open>44'\<close> at the head of their data.\<close>

definition command_apdu :: "u8 \<Rightarrow> u8 \<Rightarrow> u8 \<Rightarrow> u8 list \<Rightarrow> u8 list" where
  "command_apdu ins p1 p2 data = [CLA, ins, p1, p2, of_nat (length data)] @ data"

definition example_path_data :: "u8 list" where
  "example_path_data = [1, 0x80, 0, 0, 44]"

section \<open>Accepted commands\<close>

text \<open>The state a handler sees, and an accepted command by its instruction.\<close>

definition command_state :: "u8 list \<Rightarrow> 'h app_state \<Rightarrow> 'h app_state" where
  "command_state apdu st = (receive apdu st)\<lparr>ctx_u2fTimer := U2F_REQUEST_TIMEOUT\<rparr>"

lemma command_state_simps [simp]:
  "ctx_req (command_state apdu st) = ctx_req st" "on_screen (command_state apdu st) = on_screen st"
  "ctx_u2fTimer (command_state apdu st) = U2F_REQUEST_TIMEOUT"
  "G_io_apdu_buffer (command_state apdu st) = apdu @ drop (length apdu) (G_io_apdu_buffer st)"
  by (simp_all add: command_state_def)

lemma command_state_ok:
  assumes "state_ok st" "length apdu \<le> IO_APDU_BUFFER_SIZE"
  shows "state_ok (command_state apdu st)"
  using assms by (simp add: state_ok_def)

text \<open>A handler reads the bytes of its command and nothing that an earlier one left in the buffer.\<close>

lemma command_data_view:
  assumes "wf_apdu apdu" "state_ok st" "length apdu \<le> IO_APDU_BUFFER_SIZE"
  shows "view (G_io_apdu_buffer (command_state apdu st)) (Some OFFSET_CDATA, ucast (apdu ! OFFSET_LC)) = drop OFFSET_CDATA apdu"
    "wf_cursor (G_io_apdu_buffer (command_state apdu st)) (Some OFFSET_CDATA, ucast (apdu ! OFFSET_LC))"
proof -
  have n: "unat (ucast (apdu ! OFFSET_LC) :: u16) = length apdu - OFFSET_CDATA"
    using assms(1) unat_u16_of_u8 [of "apdu ! OFFSET_LC"] by (simp add: wf_apdu_def)
  have "length (G_io_apdu_buffer (command_state apdu st)) = IO_APDU_BUFFER_SIZE"
    using command_state_ok [OF assms(2,3)] unfolding state_ok_def by blast
  from wf_command_data [OF this]
  show "wf_cursor (G_io_apdu_buffer (command_state apdu st)) (Some OFFSET_CDATA, ucast (apdu ! OFFSET_LC))" .
  show "view (G_io_apdu_buffer (command_state apdu st)) (Some OFFSET_CDATA, ucast (apdu ! OFFSET_LC)) = drop OFFSET_CDATA apdu"
    unfolding view.simps n using assms(1) by (simp add: wf_apdu_def)
qed

definition public_key_command ::
    "'h platform \<Rightarrow> u8 list \<Rightarrow> 'h app_state \<Rightarrow> (sw_t, 'h app_state \<times> nat \<times> bool) result" where
  "public_key_command P apdu st =
     handle_get_public_key P (apdu ! OFFSET_P1) (apdu ! OFFSET_P2) (Some OFFSET_CDATA, ucast (apdu ! OFFSET_LC))
       (command_state apdu st)"

definition transaction_command ::
    "'h platform \<Rightarrow> u8 list \<Rightarrow> 'h app_state \<Rightarrow> (sw_t, 'h app_state \<times> bool) result" where
  "transaction_command P apdu st =
     handle_sign_transaction P (apdu ! OFFSET_P1) (apdu ! OFFSET_P2) (Some OFFSET_CDATA, ucast (apdu ! OFFSET_LC))
       (command_state apdu st)"

definition message_command ::
    "'h platform \<Rightarrow> u8 list \<Rightarrow> 'h app_state \<Rightarrow> (sw_t, 'h app_state \<times> bool) result" where
  "message_command P apdu st =
     handle_sign_message P (apdu ! OFFSET_P1) (apdu ! OFFSET_P2) (Some OFFSET_CDATA, ucast (apdu ! OFFSET_LC))
       (command_state apdu st)"

text \<open>The answer to a received command in terms of the handlers.\<close>

lemma handle_apdu_received:
  assumes "wf_apdu apdu"
  shows "handle_apdu P (receive apdu st) =
    (if apdu ! OFFSET_CLA \<noteq> CLA then Err SW_CLA_NOT_SUPPORTED
     else if apdu ! OFFSET_INS = INS_GET_PUBLIC_KEY then public_key_command P apdu st
     else if apdu ! OFFSET_INS = INS_SIGN_TX then no_result (transaction_command P apdu st)
     else if apdu ! OFFSET_INS = INS_SIGN_MESSAGE then no_result (message_command P apdu st)
     else if apdu ! OFFSET_INS = INS_KEEP_ALIVE then Ok (command_state apdu st, 0, True)
     else Err SW_INS_NOT_SUPPORTED)"
proof -
  have at: "(apdu @ rest) ! i = apdu ! i" if "i < 5" for i rest
    using assms that by (simp add: wf_apdu_def offset_defs nth_append)
  show ?thesis
    by (simp add: handle_apdu_def Let_def public_key_command_def transaction_command_def message_command_def
        command_state_def command_data_def no_result_def handle_keep_alive_def at offset_defs)
qed

lemma accepted_cases [consumes 1, case_names Public_key Transaction Message Keep_alive]:
  assumes "accepted_command P apdu st st' r st1 n async"
  obtains "apdu ! OFFSET_INS = INS_GET_PUBLIC_KEY" "public_key_command P apdu st = Ok (st1, n, async)"
  | "apdu ! OFFSET_INS = INS_SIGN_TX" "transaction_command P apdu st = Ok (st1, async)" "n = 0"
  | "apdu ! OFFSET_INS = INS_SIGN_MESSAGE" "message_command P apdu st = Ok (st1, async)" "n = 0"
  | "apdu ! OFFSET_INS = INS_KEEP_ALIVE" "st1 = command_state apdu st" "n = 0" "async"
  using assms unfolding accepted_command_def
  by (auto simp: handle_apdu_received no_result_Ok split: if_splits)

section \<open>Every reachable state\<close>

text \<open>
  C14: In every state that a session can reach, whatever commands arrive, in whatever order, and
  whatever the user does: every array of the active request and the APDU buffer have their declared
  sizes, and the timer is a multiple of 100 of at most 28000, so that its countdown meets zero.
\<close>

theorem reachable_session_ok:
  assumes "reachable P st" "platform_ok P"
  shows "request_ok (ctx_req st) \<and> length (G_io_apdu_buffer st) = IO_APDU_BUFFER_SIZE \<and>
    (\<exists>k \<le> 280. unat (ctx_u2fTimer st) = 100 * k)"
  using reachable_ok [OF assms] by (auto simp: session_ok_def state_ok_def timer_ok_def)

text \<open>The first chunk of a transaction, then a tick.\<close>

definition example_upload :: "event list" where
  "example_upload =
     [Command (command_apdu INS_SIGN_TX P1_FIRST P2_MORE (example_path_data @ [0, 1, 2, 3])), Tick IO_APDU_MEDIA_U2F]"

definition example_upload_state :: "u8 list app_state" where
  "example_upload_state = fst (the (perform_all (example_platform BAGL) example_upload start_state))"

lemma example_upload_state:
  "perform_all (example_platform BAGL) example_upload start_state =
    Some (example_upload_state, [Reply (sw_bytes SW_OK), Nothing]) \<and>
   ctx_u2fTimer example_upload_state = 27900"
proof -
  let ?r = "perform_all (example_platform BAGL) example_upload start_state"
  have "(case ?r of Some (st, outs) \<Rightarrow> outs = [Reply (sw_bytes SW_OK), Nothing] \<and> ctx_u2fTimer st = 27900
      | None \<Rightarrow> False)"
    by code_simp
  then show ?thesis by (auto simp: example_upload_state_def split: option.splits)
qed

theorem reachable_session_ok_witness:
  "reachable (example_platform BAGL) example_upload_state \<and> request_ok (ctx_req example_upload_state) \<and>
   ctx_u2fTimer example_upload_state = 27900 \<and> (\<exists>k \<le> 280. unat (ctx_u2fTimer example_upload_state) = 100 * k)"
proof -
  have "reachable (example_platform BAGL) example_upload_state"
    using perform_all_reachable [OF _ reachable_start] example_upload_state by blast
  with reachable_session_ok [OF this example_platform_ok] example_upload_state show ?thesis by blast
qed

section \<open>Errors\<close>

text \<open>
  C18: A command that is not answered with the status word of success is answered with a status word and
  nothing else, and wipes the context: no upload can be continued after it and nothing of an active
  request is left that a later approval could sign. The screen stays as it is.
\<close>

theorem failed_command_wipes:
  assumes "session_step P st (Command apdu) (Reply r) st'" "platform_ok P" "session_ok st"
    and "\<nexists>bs. r = bs @ sw_bytes SW_OK"
  shows "\<exists>sw. sw \<noteq> SW_OK \<and> r = sw_bytes sw \<and> ctx_req st' = Zeroed \<and> ctx_u2fTimer st' = 0 \<and>
    on_screen st' = on_screen st"
proof -
  obtain r' where step: "length apdu \<le> IO_APDU_BUFFER_SIZE"
      "nimiq_main_iteration P apdu st = (Ok (st', r') :: (sw_t, _) result)" "sent r' = Reply r"
    using assms(1) by (auto elim: session_step_elims(1))
  then have r': "r' = Some r" by (cases r') (simp_all add: sent_def)
  have "state_ok st" using assms(3) by (simp add: session_ok_def)
  from iteration_cases [OF step(2) assms(2) this step(1)] assms(4) show ?thesis
    by (auto simp: r' refused_command_def accepted_command_def split: if_splits)
qed

definition unknown_class :: "u8 list" where
  "unknown_class = [0, 0, 0, 0, 0]"

lemma example_failed_step:
  obtains st' where
    "session_step (example_platform BAGL) example_upload_state (Command unknown_class) (Reply [0x6E, 0]) st'"
proof -
  have "(case perform (example_platform BAGL) (Command unknown_class) example_upload_state of
      Some (st', Reply r) \<Rightarrow> r = [0x6E, 0] | _ \<Rightarrow> False)"
    by code_simp
  with that show thesis by (elim perform_replies) simp
qed

lemma example_upload_ok: "session_ok example_upload_state"
  using reachable_ok [OF perform_all_reachable [OF conjunct1 [OF example_upload_state] reachable_start] example_platform_ok] .

theorem failed_command_wipes_witness:
  "\<exists>sw st'. session_step (example_platform BAGL) example_upload_state (Command unknown_class) (Reply (sw_bytes sw)) st' \<and>
    sw_bytes sw = [0x6E, 0] \<and> ctx_req st' = Zeroed"
proof (rule example_failed_step)
  fix st'
  assume st': "session_step (example_platform BAGL) example_upload_state (Command unknown_class) (Reply [0x6E, 0]) st'"
  have "\<nexists>bs. [0x6E, 0] = bs @ sw_bytes SW_OK"
    by (auto simp: sw_bytes_def append_eq_Cons_conv)
  from failed_command_wipes [OF st' example_platform_ok example_upload_ok this] st' show ?thesis by metis
qed

section \<open>Without the button\<close>

lemma ticker_reply:
  assumes "ticker_event media st = Ok (st', Some r)" "apdu_buffer_ok st"
  shows "r = sw_bytes SW_KEEP_ALIVE"
  using assms
  by (auto simp: ticker_event_def Let_def u2f_send_keep_alive_def finalize_status andthen_eq_Ok split: if_splits)

lemma public_key_command_OkD:
  assumes "public_key_command P apdu st = Ok (st', n, async)" "wf_apdu apdu" "platform_ok P" "state_ok st"
    and "length apdu \<le> IO_APDU_BUFFER_SIZE"
  obtains path msg key c where "drop OFFSET_CDATA apdu = path_bytes path @ msg" "1 \<le> length path"
    "length path \<le> MAX_BIP32_PATH_LENGTH" "private_key_of P path (of_nat (length path)) = Some key"
    "key_context P (apdu ! OFFSET_P1 = P1_SIGNATURE) key msg c"
    "public_key_outcome P (apdu ! OFFSET_P2) c (command_state apdu st) st' n async"
    "apdu ! OFFSET_P2 = P2_CONFIRM \<or> apdu ! OFFSET_P2 = P2_NO_CONFIRM"
proof -
  have "apdu ! OFFSET_P2 = P2_CONFIRM \<or> apdu ! OFFSET_P2 = P2_NO_CONFIRM"
    using assms(1) unfolding public_key_command_def handle_get_public_key_def Let_def
    by (simp add: andthen_eq_Ok)
  with handle_get_public_key_OkD [OF assms(1) [unfolded public_key_command_def] assms(3)
      command_state_ok [OF assms(4,5)] refl] command_data_view(1) [OF assms(2,4,5)] that
  show thesis by auto
qed

text \<open>
  C7: Nothing but a status word leaves the device without the approval of the user, except for the
  reply to a request for a public key that asks for no confirmation: the key of the requested path, and
  with it at most the signature of a message that begins with the reserved prefix (or is a beginning
  of it). No signature of a transaction or of a signing request can be obtained without the button.
\<close>

theorem unapproved_reply:
  assumes "session_step P st e (Reply r) st'" "platform_ok P" "session_ok st"
    and "e \<noteq> Review_button True" "length r \<noteq> 2"
  shows "\<exists>apdu path msg key c. e = Command apdu \<and>
    apdu ! OFFSET_INS = INS_GET_PUBLIC_KEY \<and> apdu ! OFFSET_P2 = P2_NO_CONFIRM \<and>
    drop OFFSET_CDATA apdu = path_bytes path @ msg \<and> private_key_of P path (of_nat (length path)) = Some key \<and>
    key_context P (apdu ! OFFSET_P1 = P1_SIGNATURE) key msg c \<and> r = key_result c @ sw_bytes SW_OK"
  using assms(1)
proof (cases rule: session_step.cases)
  case (command apdu r')
  have ok: "state_ok st" using assms(3) by (simp add: session_ok_def)
  have r': "r' = Some r" using command(2) by (cases r') (simp_all add: sent_def)
  obtain st1 n async where acc: "accepted_command P apdu st st' r' st1 n async"
    using iteration_cases [OF command(4) assms(2) ok command(3)] assms(5)
    by (auto simp: refused_command_def r')
  then have wf: "wf_apdu apdu" and r: "\<not> async" "r = take n (G_io_apdu_buffer st1) @ sw_bytes SW_OK"
    using r' by (auto simp: accepted_command_def split: if_splits)
  from acc show ?thesis
  proof (cases rule: accepted_cases)
    case Public_key
    obtain path msg key c where
      c: "drop OFFSET_CDATA apdu = path_bytes path @ msg" "private_key_of P path (of_nat (length path)) = Some key"
        "key_context P (apdu ! OFFSET_P1 = P1_SIGNATURE) key msg c"
        "public_key_outcome P (apdu ! OFFSET_P2) c (command_state apdu st) st1 n async"
        "apdu ! OFFSET_P2 = P2_CONFIRM \<or> apdu ! OFFSET_P2 = P2_NO_CONFIRM"
      by (rule public_key_command_OkD [OF Public_key(2) wf assms(2) ok command(3)])
    have "apdu ! OFFSET_P2 = P2_NO_CONFIRM" "r = key_result c @ sw_bytes SW_OK"
      using c(4,5) r by (auto simp: public_key_outcome_def split: if_splits)
    with c(1-3) Public_key(1) command(1) show ?thesis by blast
  next
    case Transaction
    with r(2) assms(5) show ?thesis by simp
  next
    case Message
    with r(2) assms(5) show ?thesis by simp
  next
    case Keep_alive
    with r(1) show ?thesis by simp
  qed
next
  case (tick media r')
  then have "r' = Some r" by (cases r') (simp_all add: sent_def)
  then have "r = sw_bytes SW_KEEP_ALIVE"
    using ticker_reply [of media st st' r, OF tick(3) [unfolded \<open>r' = Some r\<close>]] assms(3)
    by (simp add: session_ok_def state_ok_def apdu_buffer_ok_def)
  with assms(5) show ?thesis by simp
next
  case (button approved)
  then have "on_reviewed P False st = Ok (st', r)" using assms(4) by (cases approved) simp_all
  then obtain st1 where "on_rejected st = (Ok (st1, r) :: (sw_t, _) result)"
    by (auto simp: on_reviewed_eq andthen_eq_Ok)
  moreover have "replies (on_rejected st :: (sw_t, _) result) (sw_bytes SW_DENY)"
    using assms(3) by (intro rejected) (simp add: session_ok_def state_ok_def apdu_buffer_ok_def)
  ultimately have "r = sw_bytes SW_DENY" by simp
  with assms(5) show ?thesis by simp
qed

definition example_key_command :: "u8 list" where
  "example_key_command = example_key_apdu P1_SIGNATURE (dummy_data @ [97, 98])"

lemma example_key_step:
  obtains st' r where "session_step (example_platform BAGL) start_state (Command example_key_command) (Reply r) st'"
    "length r = 98"
proof -
  have "(case perform (example_platform BAGL) (Command example_key_command) start_state of
      Some (st', Reply r) \<Rightarrow> length r = 98 | _ \<Rightarrow> False)"
    by code_simp
  then show thesis by (rule perform_replies) (rule that)
qed

theorem unapproved_reply_witness:
  "\<exists>path msg key c st'. session_step (example_platform BAGL) start_state (Command example_key_command)
      (Reply (key_result c @ sw_bytes SW_OK)) st' \<and>
    drop OFFSET_CDATA example_key_command = path_bytes path @ msg \<and>
    key_context (example_platform BAGL) True key msg c"
proof (rule example_key_step)
  fix st' r
  assume st': "session_step (example_platform BAGL) start_state (Command example_key_command) (Reply r) st'" "length r = 98"
  have p1: "example_key_command ! OFFSET_P1 = P1_SIGNATURE"
    by (simp add: example_key_command_def example_key_apdu_def offset_defs)
  from unapproved_reply [OF st'(1) example_platform_ok reachable_ok [OF reachable_start example_platform_ok]] st'
  show ?thesis by (auto simp: p1) blast
qed

section \<open>The keep alive message\<close>

text \<open>A number of ticks in a row, and what each of them sends.\<close>

fun ticks :: "nat \<Rightarrow> 'h app_state \<Rightarrow> (sw_t, 'h app_state \<times> u8 list option list) result" where
  "ticks 0 st = Ok (st, [])"
| "ticks (Suc n) st =
     andthen (ticker_event IO_APDU_MEDIA_U2F st) (\<lambda>(st, r).
     andthen (ticks n st) (\<lambda>(st, rs). Ok (st, r # rs)))"

lemma tick_before:
  assumes "unat (ctx_u2fTimer st) = 100 * Suc (Suc n)"
  shows "\<exists>st'. ticker_event IO_APDU_MEDIA_U2F st = Ok (st', None) \<and> unat (ctx_u2fTimer st') = 100 * Suc n \<and>
    G_io_apdu_buffer st' = G_io_apdu_buffer st \<and> ctx_req st' = ctx_req st \<and> on_screen st' = on_screen st"
proof -
  have "unat (ctx_u2fTimer st - 100) = unat (ctx_u2fTimer st) - 100"
    using assms by (subst unat_sub) (simp_all add: word_le_nat_alt)
  moreover have "ctx_u2fTimer st \<noteq> 0" "ctx_u2fTimer st - 100 \<noteq> 0"
    using assms calculation by auto
  ultimately show ?thesis using assms by (simp add: ticker_event_def Let_def word_neq_0_conv)
qed

text \<open>
  C20: While a request waits for the user over U2F, the keep alive message is sent exactly at the tick
  at which the timer runs out, after one tick for every 100 of its value, once and not before, and
  the request and the screen are kept. After a command that is 280 ticks, 28 seconds.
\<close>

theorem keep_alive_in_time:
  assumes "unat (ctx_u2fTimer st) = 100 * Suc n" "length (G_io_apdu_buffer st) = IO_APDU_BUFFER_SIZE"
  shows "\<exists>st'. ticks (Suc n + m) st = Ok (st', replicate n None @ [Some (sw_bytes SW_KEEP_ALIVE)] @ replicate m None) \<and>
    ctx_req st' = ctx_req st \<and> on_screen st' = on_screen st \<and> ctx_u2fTimer st' = 0"
  using assms
proof (induction n arbitrary: st)
  case 0
  have idle: "ctx_u2fTimer s = 0 \<Longrightarrow> ticks m s = Ok (s, replicate m None)" for s :: "'a app_state"
    by (induction m) (simp_all add: ticker_event_def)
  have "ctx_u2fTimer st = 100" using 0(1) by (simp add: word_unat_eq_iff)
  then show ?case using 0(2)
    by (simp add: ticker_event_def Let_def u2f_send_keep_alive_def finalize_status apdu_buffer_ok_def idle)
next
  case (Suc n)
  from tick_before [OF Suc.prems(1)] obtain s where
    s: "ticker_event IO_APDU_MEDIA_U2F st = (Ok (s, None) :: (sw_t, _) result)" "unat (ctx_u2fTimer s) = 100 * Suc n"
      "G_io_apdu_buffer s = G_io_apdu_buffer st" "ctx_req s = ctx_req st" "on_screen s = on_screen st" by blast
  from Suc.IH [OF s(2)] Suc.prems(2) s show ?case by auto
qed

theorem keep_alive_in_time_witness:
  "\<exists>st'. ticks (Suc 278 + 1) example_upload_state =
     Ok (st', replicate 278 None @ [Some (sw_bytes SW_KEEP_ALIVE)] @ replicate 1 None) \<and>
   ctx_req st' = ctx_req example_upload_state"
  using keep_alive_in_time [of example_upload_state 278 1] example_upload_state example_upload_ok
  by (auto simp: session_ok_def state_ok_def)

section \<open>Commands that end the app\<close>

text \<open>Whether the active request is an upload that a further chunk can continue.\<close>

definition continues_transaction :: "'h platform \<Rightarrow> 'h app_state \<Rightarrow> bool" where
  "continues_transaction P st = tx_context_ok (req_tx P (ctx_req st))"

definition continues_message :: "'h platform \<Rightarrow> 'h app_state \<Rightarrow> bool" where
  "continues_message P st = message_ok (req_msg P (ctx_req st))"

lemma iteration_fault:
  assumes "nimiq_main_iteration P apdu st = (Fault f :: ('e, _) result)" "platform_ok P" "state_ok st"
    and "length apdu \<le> IO_APDU_BUFFER_SIZE"
  shows "wf_apdu apdu \<and> handle_apdu P (receive apdu st) = Fault f"
proof -
  note ok = receive_ok [OF assms(3,4)]
  let ?r = "if wf_apdu apdu then handle_apdu P (receive apdu st) else Err SW_WRONG_DATA_LENGTH"
  have it: "(case ?r of Ok (st, n, async) \<Rightarrow> finish_command SW_OK n async st
      | Err sw \<Rightarrow> finish_command sw 0 False (wipe_ctx (receive apdu st)) | Fault f \<Rightarrow> Fault f) = (Fault f :: ('e, _) result)"
    using assms(1) unfolding nimiq_main_iteration_def Let_def wf_apdu_iff [of apdu st] by (auto split: if_splits)
  show ?thesis
  proof (cases ?r)
    case (Ok r)
    then obtain st' n async where h: "handle_apdu P (receive apdu st) = Ok (st', n, async)"
      by (cases r) (auto split: if_splits)
    then have sizes: "length (G_io_apdu_buffer st') = IO_APDU_BUFFER_SIZE \<and> n \<le> 96"
      by (rule handle_apdu_sizes [OF _ assms(2) ok])
    with it Ok h show ?thesis
      by (simp add: finish_command_def memmove_at_def IO_APDU_BUFFER_SIZE_def split: if_splits)
  next
    case (Err sw)
    with it ok show ?thesis
      by (simp add: finish_command_def wipe_ctx_def state_ok_def memmove_at_def IO_APDU_BUFFER_SIZE_def)
  next
    case (Fault f')
    with it show ?thesis by (simp split: if_splits)
  qed
qed

lemma iteration_no_error: "nimiq_main_iteration P apdu st \<noteq> Err e"
  by (auto simp: nimiq_main_iteration_def Let_def finish_command_def memmove_at_def split: result.split if_splits)

lemma command_fault_cases:
  assumes "nimiq_main_iteration P apdu st = (Fault f :: (sw_t, _) result)" "platform_ok P" "session_ok st"
    and "length apdu \<le> IO_APDU_BUFFER_SIZE"
  shows "apdu ! OFFSET_INS = INS_GET_PUBLIC_KEY \<and> apdu ! OFFSET_P1 = P1_SIGNATURE \<and> f = Null_dereference \<and>
      (\<exists>path. drop OFFSET_CDATA apdu = path_bytes path) \<or>
    apdu ! OFFSET_INS = INS_SIGN_TX \<and> apdu ! OFFSET_P1 = P1_MORE \<and> \<not> continues_transaction P st \<or>
    apdu ! OFFSET_INS = INS_SIGN_MESSAGE \<and> apdu ! OFFSET_P1 = P1_MORE \<and> \<not> continues_message P st \<or>
    apdu ! OFFSET_INS = INS_SIGN_TX \<and> apdu ! OFFSET_P2 = P2_LAST \<and> device P = NBGL \<and> f = Assertion_failed \<and>
      (\<exists>version bytes. uploaded_so_far P (apdu ! OFFSET_P1) (drop OFFSET_CDATA apdu) st version bytes \<and>
        contract_creation P version bytes)"
proof -
  have ok: "state_ok st" using assms(3) by (simp add: session_ok_def)
  note ok' = command_state_ok [OF ok assms(4)]
  have wf: "wf_apdu apdu" and h: "handle_apdu P (receive apdu st) = Fault f"
    using iteration_fault [OF assms(1,2) ok assms(4)] by simp_all
  note data = command_data_view [OF wf ok assms(4)]
  consider (Public_key) "apdu ! OFFSET_INS = INS_GET_PUBLIC_KEY" "public_key_command P apdu st = Fault f"
    | (Transaction) "apdu ! OFFSET_INS = INS_SIGN_TX" "transaction_command P apdu st = Fault f"
    | (Message) "apdu ! OFFSET_INS = INS_SIGN_MESSAGE" "message_command P apdu st = Fault f"
    using h by (auto simp: handle_apdu_received [OF wf] no_result_def andthen_eq_Fault split: if_splits)
  then show ?thesis
  proof cases
    case Public_key
    with handle_get_public_key_fault [OF Public_key(2) [unfolded public_key_command_def] assms(2) ok' refl] data(1)
    show ?thesis by auto
  next
    case Transaction
    have same: "uploaded_so_far P p1 chunk (command_state apdu st) = uploaded_so_far P p1 chunk st" for p1 chunk
      by (simp add: fun_eq_iff uploaded_so_far_def)
    from handle_sign_transaction_fault [OF Transaction(2) [unfolded transaction_command_def] assms(2) ok' data(2)]
    show ?thesis using Transaction(1) unfolding data(1) same by (auto simp: continues_transaction_def)
  next
    case Message
    note fault = Message(2) [unfolded message_command_def]
    have p1: "apdu ! OFFSET_P1 = P1_FIRST \<or> apdu ! OFFSET_P1 = P1_MORE"
      using fault by (auto simp: handle_sign_message_def check_def split: if_splits)
    have "\<not> (apdu ! OFFSET_P1 \<noteq> P1_FIRST \<longrightarrow> continues_message P st)"
    proof
      assume continues: "apdu ! OFFSET_P1 \<noteq> P1_FIRST \<longrightarrow> continues_message P st"
      have "delivers (\<lambda>_. True) (handle_sign_message P (apdu ! OFFSET_P1) (apdu ! OFFSET_P2)
          (Some OFFSET_CDATA, ucast (apdu ! OFFSET_LC)) (command_state apdu st))"
        by (rule delivers_handle_sign_message [OF assms(2) ok' data(2)])
          (use continues in \<open>simp_all add: continues_message_def\<close>)
      with fault show False by simp
    qed
    with p1 Message(1) show ?thesis by auto
  qed
qed

text \<open>
  C15: A command ends the app in these cases only: a public key is requested with a signature of the
  empty message; a chunk is said to continue an upload of a transaction or a message but the context
  is not one of such an upload; or the last chunk of a transaction, on a device with the NBGL
  interface, completes the bytes of a transaction that creates a vesting or a hashed time-locked
  contract. Every other command, however malformed, is answered. (The byte behind an array that
  \<^verbatim>\<open>iban_check\<close> reads for every printed address is taken to be readable, as everywhere but in the
  properties of \<^verbatim>\<open>iban_check\<close>.)
\<close>

theorem command_fault:
  assumes "nimiq_main_iteration P apdu st = (Fault f :: (sw_t, _) result)" "platform_ok P" "session_ok st"
    and "length apdu \<le> IO_APDU_BUFFER_SIZE"
  shows "apdu ! OFFSET_INS = INS_GET_PUBLIC_KEY \<and> apdu ! OFFSET_P1 = P1_SIGNATURE \<and> f = Null_dereference \<and>
      (\<exists>path. drop OFFSET_CDATA apdu = path_bytes path) \<or>
    apdu ! OFFSET_INS = INS_SIGN_TX \<and> apdu ! OFFSET_P1 = P1_MORE \<and> \<not> continues_transaction P st \<or>
    apdu ! OFFSET_INS = INS_SIGN_MESSAGE \<and> apdu ! OFFSET_P1 = P1_MORE \<and> \<not> continues_message P st \<or>
    apdu ! OFFSET_INS = INS_SIGN_TX \<and> apdu ! OFFSET_P2 = P2_LAST \<and> device P = NBGL \<and> f = Assertion_failed \<and>
      (\<exists>version bytes. uploaded_so_far P (apdu ! OFFSET_P1) (drop OFFSET_CDATA apdu) st version bytes \<and>
        contract_creation P version bytes)"
  by (rule command_fault_cases [OF assms])

definition empty_message_command :: "u8 list" where
  "empty_message_command = example_key_apdu P1_SIGNATURE []"

lemma example_faults:
  "nimiq_main_iteration (example_platform BAGL) empty_message_command start_state = (Fault Null_dereference :: (sw_t, _) result)"
proof -
  let ?r = "nimiq_main_iteration (example_platform BAGL) empty_message_command start_state :: (sw_t, _) result"
  have "(case ?r of Fault f \<Rightarrow> f = Null_dereference | _ \<Rightarrow> False)" by code_simp
  then show ?thesis by (cases ?r) simp_all
qed

theorem command_fault_witness:
  "nimiq_main_iteration (example_platform BAGL) empty_message_command start_state = (Fault Null_dereference :: (sw_t, _) result) \<and>
   (\<exists>path. drop OFFSET_CDATA empty_message_command = path_bytes path)"
proof -
  have "length empty_message_command \<le> IO_APDU_BUFFER_SIZE" "empty_message_command ! OFFSET_INS = INS_GET_PUBLIC_KEY"
    by (simp_all add: empty_message_command_def example_key_apdu_def IO_APDU_BUFFER_SIZE_def offset_defs instruction_defs)
  with command_fault [OF example_faults example_platform_ok reachable_ok [OF reachable_start example_platform_ok]]
    example_faults show ?thesis by (auto simp: instruction_defs)
qed

end
