(* ===== verification/Simulation.thy ===== *)
theory Simulation
  imports Prelude
begin

text \<open>
  Runs of a step relation with what was done and observed, and what it takes to show that they are runs
  of another one: every step has a counterpart, for an environment whose behaviour can be told from
  the events and observations so far.
\<close>

inductive run :: "('s \<Rightarrow> 'e \<Rightarrow> 'o \<Rightarrow> 's \<Rightarrow> bool) \<Rightarrow> 's \<Rightarrow> ('e \<times> 'o) list \<Rightarrow> 's \<Rightarrow> bool" for step where
  stop: "run step s [] s"
| more: "step s e out s1 \<Longrightarrow> run step s1 tr s' \<Longrightarrow> run step s ((e, out) # tr) s'"

inductive_cases run_elims: "run step s [] s'" "run step s (x # tr) s'"

lemma run_append: "run step s tr s1 \<Longrightarrow> run step s1 tr' s' \<Longrightarrow> run step s (tr @ tr') s'"
  by (induction rule: run.induct) (auto intro: run.intros)

text \<open>An environment that keeps to what it may do in its phase.\<close>

fun keeps_to :: "('p \<Rightarrow> 'e \<Rightarrow> bool) \<Rightarrow> ('p \<Rightarrow> 'e \<Rightarrow> 'o \<Rightarrow> 'p) \<Rightarrow> 'p \<Rightarrow> ('e \<times> 'o) list \<Rightarrow> bool" where
  "keeps_to allowed next_phase p [] = True"
| "keeps_to allowed next_phase p ((e, out) # tr) =
     (allowed p e \<and> keeps_to allowed next_phase (next_phase p e out) tr)"

text \<open>A value computed along a run.\<close>

fun along :: "('v \<Rightarrow> 'e \<Rightarrow> 'v) \<Rightarrow> 'v \<Rightarrow> ('e \<times> 'o) list \<Rightarrow> 'v" where
  "along f v [] = v"
| "along f v ((e, out) # tr) = along f (f v e) tr"

locale simulation =
  fixes step :: "'s \<Rightarrow> 'e \<Rightarrow> 'o \<Rightarrow> 's \<Rightarrow> bool"
    and spec :: "'a \<Rightarrow> 'e \<Rightarrow> 'o \<Rightarrow> 'a \<Rightarrow> bool"
    and rel :: "'a \<Rightarrow> 's \<Rightarrow> bool"
    and inv :: "'s \<Rightarrow> bool"
    and phase :: "'a \<Rightarrow> 'p"
    and allowed :: "'p \<Rightarrow> 'e \<Rightarrow> bool"
    and next_phase :: "'p \<Rightarrow> 'e \<Rightarrow> 'o \<Rightarrow> 'p"
  assumes keeps: "step s e out s' \<Longrightarrow> inv s \<Longrightarrow> inv s'"
    and simulates: "step s e out s' \<Longrightarrow> inv s \<Longrightarrow> rel a s \<Longrightarrow> allowed (phase a) e \<Longrightarrow>
      \<exists>a'. spec a e out a' \<and> rel a' s'"
    and phases: "spec a e out a' \<Longrightarrow> phase a' = next_phase (phase a) e out"
begin

lemma run_keeps: "run step s tr s' \<Longrightarrow> inv s \<Longrightarrow> inv s'"
  by (induction rule: run.induct) (auto dest: keeps)

lemma run_simulated:
  "run step s tr s' \<Longrightarrow> inv s \<Longrightarrow> rel a s \<Longrightarrow> keeps_to allowed next_phase (phase a) tr \<Longrightarrow>
    \<exists>a'. run spec a tr a' \<and> rel a' s'"
proof (induction arbitrary: a rule: run.induct)
  case (stop s)
  then show ?case by (blast intro: run.stop)
next
  case (more s e out s1 tr s')
  obtain a1 where a1: "spec a e out a1" "rel a1 s1" using simulates [OF more(1) more(4,5)] more(6) by auto
  have "keeps_to allowed next_phase (phase a1) tr" using more(6) by (simp add: phases [OF a1(1)])
  from more.IH [OF keeps [OF more(1,4)] a1(2) this] a1(1) show ?case by (blast intro: run.more)
qed

end

text \<open>A relation between the state and such a value that every step keeps holds at the end.\<close>

lemma run_along:
  assumes "\<And>a v e out a'. spec a e out a' \<Longrightarrow> R a v \<Longrightarrow> R a' (f v e)"
  shows "run spec a tr a' \<Longrightarrow> R a v \<Longrightarrow> R a' (along f v tr)"
  by (induction arbitrary: v rule: run.induct) (auto dest: assms)

end
