(* ===== verification/Protocol.thy ===== *)
theory Protocol
  imports Session_Properties Simulation
begin

text \<open>
  What the app promises to a client and its user, as a small state machine, and the proof that the
  command loop implements it for a client that sends no command while a request is reviewed and
  continues no upload but its own. \<open>Acceptance\<close> shows why that condition is needed.
\<close>

section \<open>The promise\<close>

text \<open>
  The jobs of the app, with what has been uploaded: nothing to do; chunks of a transaction or of a
  message received so far; the key, the transaction or the message that the user reviews.
\<close>

datatype job =
    Idle
  | Receiving_transaction "u32 list" transaction_version_t "u8 list"
  | Receiving_message "u32 list" u8 u32 "u8 list"
  | Reviewing_key "u8 list" string
  | Reviewing_transaction "u32 list" transaction_version_t "u8 list" screen
  | Reviewing_message "u32 list" u8 u32 "u8 list" message_display_type_t

text \<open>The screens of a transaction, by what its bytes mean.\<close>

definition displays ::
    "'h platform \<Rightarrow> transaction_version_t \<Rightarrow> tx_content \<Rightarrow> payload \<Rightarrow> screen \<Rightarrow> bool" where
  "displays P version tx p screen =
     (\<exists>out. tx_display (blake2b P) version tx p = Ok (observe shown out) \<and>
       ui_transaction_signing (device P) out = (Ok screen :: (sw_t, _) result))"

definition reviewable :: "'h platform \<Rightarrow> transaction_version_t \<Rightarrow> u8 list \<Rightarrow> screen \<Rightarrow> bool" where
  "reviewable P version data screen =
     ((version = TRANSACTION_VERSION_LEGACY \<or> version = TRANSACTION_VERSION_ALBATROSS) \<and>
      (\<exists>tx p. tx_ok version tx \<and> carries version tx p \<and> data = tx_bytes version tx \<and> displays P version tx p screen))"

text \<open>The display of a message: its default, the other choices, and the page.\<close>

definition default_display :: "u8 \<Rightarrow> u32 \<Rightarrow> u8 list \<Rightarrow> message_display_type_t" where
  "default_display flags len data =
     (if unat len \<le> MAX_PRINTABLE_MESSAGE_LENGTH \<and> is_printable_ascii data \<and>
         flags AND (MESSAGE_FLAG_PREFER_DISPLAY_TYPE_HEX OR MESSAGE_FLAG_PREFER_DISPLAY_TYPE_HASH) = 0
      then MESSAGE_DISPLAY_TYPE_ASCII
      else if unat len \<le> MAX_PRINTABLE_MESSAGE_LENGTH \<and> flags AND MESSAGE_FLAG_PREFER_DISPLAY_TYPE_HASH = 0
      then MESSAGE_DISPLAY_TYPE_HEX
      else MESSAGE_DISPLAY_TYPE_HASH)"

definition can_display :: "u32 \<Rightarrow> u8 list \<Rightarrow> message_display_type_t \<Rightarrow> bool" where
  "can_display len data t =
     (case t of
        MESSAGE_DISPLAY_TYPE_ASCII \<Rightarrow> unat len \<le> MAX_PRINTABLE_MESSAGE_LENGTH \<and> is_printable_ascii data
      | MESSAGE_DISPLAY_TYPE_HEX \<Rightarrow> unat len \<le> MAX_PRINTABLE_MESSAGE_LENGTH
      | MESSAGE_DISPLAY_TYPE_HASH \<Rightarrow> True)"

text \<open>The hexadecimal text of no bytes is whatever the buffer contained before.\<close>

definition message_page :: "(u8 list \<Rightarrow> u8 list) \<Rightarrow> u8 list \<Rightarrow> message_display_type_t \<Rightarrow> page \<Rightarrow> bool" where
  "message_page sha256 data t page =
     (case t of
        MESSAGE_DISPLAY_TYPE_ASCII \<Rightarrow> page = (''Message'', map char_of_byte data)
      | MESSAGE_DISPLAY_TYPE_HEX \<Rightarrow> fst page = ''Message Hex'' \<and> (data \<noteq> [] \<longrightarrow> snd page = hex_string data)
      | MESSAGE_DISPLAY_TYPE_HASH \<Rightarrow> page = (''Message Hash'', hex_string (sha256 data)))"

text \<open>The chunks received up to a command, if the command continues or begins an upload.\<close>

definition uploads_transaction ::
    "job \<Rightarrow> u8 list \<Rightarrow> u32 list \<Rightarrow> transaction_version_t \<Rightarrow> u8 list \<Rightarrow> bool" where
  "uploads_transaction job apdu path version data =
     (apdu ! OFFSET_INS = INS_SIGN_TX \<and>
      (apdu ! OFFSET_P1 = P1_FIRST \<and> drop OFFSET_CDATA apdu = path_bytes path @ version # data \<and>
         1 \<le> length path \<and> length path \<le> MAX_BIP32_PATH_LENGTH \<or>
       apdu ! OFFSET_P1 = P1_MORE \<and>
         (\<exists>received. job = Receiving_transaction path version received \<and> data = received @ drop OFFSET_CDATA apdu)))"

definition uploads_message :: "job \<Rightarrow> u8 list \<Rightarrow> u32 list \<Rightarrow> u8 \<Rightarrow> u32 \<Rightarrow> u8 list \<Rightarrow> bool" where
  "uploads_message job apdu path flags len data =
     (apdu ! OFFSET_INS = INS_SIGN_MESSAGE \<and>
      (apdu ! OFFSET_P1 = P1_FIRST \<and> drop OFFSET_CDATA apdu = path_bytes path @ flags # be_bytes 4 (unat len) @ data \<and>
         1 \<le> length path \<and> length path \<le> MAX_BIP32_PATH_LENGTH \<or>
       apdu ! OFFSET_P1 = P1_MORE \<and>
         (\<exists>received. job = Receiving_message path flags len received \<and> data = received @ drop OFFSET_CDATA apdu)))"

definition message_reply :: "'h platform \<Rightarrow> (u8 list \<Rightarrow> u8 list) \<Rightarrow> u32 list \<Rightarrow> u32 \<Rightarrow> u8 list \<Rightarrow> u8 list" where
  "message_reply P sha256 path len data =
     (case Option.bind (private_key_of P path (of_nat (length path)))
         (\<lambda>key. eddsa_sign P key (sha256 (message_prefix len @ data))) of
        None \<Rightarrow> failed_reply
      | Some sig \<Rightarrow> sig @ sw_bytes SW_OK)"

fun reviewing :: "job \<Rightarrow> bool" where
  "reviewing (Reviewing_key _ _) = True"
| "reviewing (Reviewing_transaction _ _ _ _) = True"
| "reviewing (Reviewing_message _ _ _ _ _) = True"
| "reviewing _ = False"

inductive spec_step ::
    "'h platform \<Rightarrow> (u8 list \<Rightarrow> u8 list) \<Rightarrow> job \<Rightarrow> event \<Rightarrow> effect \<Rightarrow> job \<Rightarrow> bool" for P sha256 where
  refused: "sw \<noteq> SW_OK \<Longrightarrow>
    spec_step P sha256 job (Command apdu) (Reply (sw_bytes sw)) Idle"
| keep_alive: "apdu ! OFFSET_INS = INS_KEEP_ALIVE \<Longrightarrow>
    spec_step P sha256 job (Command apdu) Nothing job"
| key: "apdu ! OFFSET_INS = INS_GET_PUBLIC_KEY \<Longrightarrow> apdu ! OFFSET_P2 = P2_NO_CONFIRM \<Longrightarrow>
    drop OFFSET_CDATA apdu = path_bytes path @ msg \<Longrightarrow> private_key_of P path (of_nat (length path)) = Some k \<Longrightarrow>
    key_context P (apdu ! OFFSET_P1 = P1_SIGNATURE) k msg c \<Longrightarrow>
    spec_step P sha256 job (Command apdu) (Reply (key_result c @ sw_bytes SW_OK)) Idle"
| key_review: "apdu ! OFFSET_INS = INS_GET_PUBLIC_KEY \<Longrightarrow> apdu ! OFFSET_P2 = P2_CONFIRM \<Longrightarrow>
    drop OFFSET_CDATA apdu = path_bytes path @ msg \<Longrightarrow> private_key_of P path (of_nat (length path)) = Some k \<Longrightarrow>
    key_context P (apdu ! OFFSET_P1 = P1_SIGNATURE) k msg c \<Longrightarrow>
    blake2b P (compress_public_key (publicKey c)) = Some h \<Longrightarrow>
    spec_step P sha256 job (Command apdu) Nothing (Reviewing_key (key_result c) (shown_address P (take 20 h)))"
| transaction_chunk: "uploads_transaction job apdu path version data \<Longrightarrow> length data \<le> MAX_RAW_TX \<Longrightarrow>
    apdu ! OFFSET_P2 = P2_MORE \<Longrightarrow>
    spec_step P sha256 job (Command apdu) (Reply (sw_bytes SW_OK)) (Receiving_transaction path version data)"
| transaction_review: "uploads_transaction job apdu path version data \<Longrightarrow> length data \<le> MAX_RAW_TX \<Longrightarrow>
    apdu ! OFFSET_P2 = P2_LAST \<Longrightarrow> reviewable P version data screen \<Longrightarrow>
    spec_step P sha256 job (Command apdu) Nothing (Reviewing_transaction path version data screen)"
| message_chunk: "uploads_message job apdu path flags len data \<Longrightarrow> apdu ! OFFSET_P2 = P2_MORE \<Longrightarrow>
    spec_step P sha256 job (Command apdu) (Reply (sw_bytes SW_OK)) (Receiving_message path flags len data)"
| message_review: "uploads_message job apdu path flags len data \<Longrightarrow> apdu ! OFFSET_P2 = P2_LAST \<Longrightarrow>
    len = of_nat (length data) \<Longrightarrow>
    spec_step P sha256 job (Command apdu) Nothing
      (Reviewing_message path flags len data (default_display flags len data))"
| tick: "spec_step P sha256 job (Tick media) Nothing job"
| keep_alive_sent: "spec_step P sha256 job (Tick IO_APDU_MEDIA_U2F) (Reply (sw_bytes SW_KEEP_ALIVE)) job"
| reject: "reviewing job \<Longrightarrow> spec_step P sha256 job (Review_button False) (Reply (sw_bytes SW_DENY)) Idle"
| approve_key: "spec_step P sha256 (Reviewing_key result text) (Review_button True) (Reply (result @ sw_bytes SW_OK)) Idle"
| approve_transaction: "tx_ok version tx \<Longrightarrow> carries version tx p \<Longrightarrow> data = tx_bytes version tx \<Longrightarrow>
    displays P version tx p screen \<Longrightarrow>
    spec_step P sha256 (Reviewing_transaction path version data screen) (Review_button True)
      (Reply (transaction_reply P path version tx p)) Idle"
| approve_message:
    "spec_step P sha256 (Reviewing_message path flags len data t) (Review_button True)
      (Reply (message_reply P sha256 path len data)) Idle"
| show_length: "job = Reviewing_message path flags len data t \<Longrightarrow>
    spec_step P sha256 job (Open_page Length_page) (Show (''Message Length'', dec (unat len))) job"
| show_message: "job = Reviewing_message path flags len data t \<Longrightarrow> message_page sha256 data t page \<Longrightarrow>
    spec_step P sha256 job (Open_page Message_page) (Show page) job"
| switch: "can_display len data t' \<Longrightarrow>
    spec_step P sha256 (Reviewing_message path flags len data t) (Switch_display t') Nothing
      (Reviewing_message path flags len data t')"
| powered: "spec_step P sha256 job (Status media usb_powered) Nothing job"
| unplugged: "spec_step P sha256 job (Status IO_APDU_MEDIA_USB_HID False) Restart Idle"
| thrown: "spec_step P sha256 job (Thrown e) Restart Idle"

section \<open>States that carry out a job\<close>

text \<open>The screen during a job, on both user interfaces; the BAGL message flow has pages of its own.\<close>

definition message_shown ::
    "'h platform \<Rightarrow> (u8 list \<Rightarrow> u8 list) \<Rightarrow> u8 list \<Rightarrow> message_display_type_t \<Rightarrow> shown_screen \<Rightarrow> bool" where
  "message_shown P sha256 data t s =
     (case device P of
        BAGL \<Rightarrow> s = Message_flow
      | NBGL \<Rightarrow> \<exists>page. message_page sha256 data t page \<and> s = Message_review (message_review_subtitle t) [page])"

fun carries_out ::
    "'h platform \<Rightarrow> ('h \<Rightarrow> u8 list) \<Rightarrow> (u8 list \<Rightarrow> u8 list) \<Rightarrow> job \<Rightarrow> 'h app_state \<Rightarrow> bool" where
  "carries_out P hashed sha256 Idle st = (on_screen st = Main_menu)"
| "carries_out P hashed sha256 (Receiving_transaction path version data) st =
     (on_screen st = Main_menu \<and> (\<exists>t. ctx_req st = Tx t \<and> tx_received path version data t))"
| "carries_out P hashed sha256 (Receiving_message path flags len data) st =
     (on_screen st = Main_menu \<and>
      (\<exists>m. ctx_req st = Msg m \<and> message_ok m \<and> receiving hashed path flags len data m))"
| "carries_out P hashed sha256 (Reviewing_key result text) st =
     (on_screen st = Address_review text \<and>
      (\<exists>c h. ctx_req st = Pk c \<and> key_result c = result \<and>
        blake2b P (compress_public_key (publicKey c)) = Some h \<and> text = shown_address P (take 20 h)))"
| "carries_out P hashed sha256 (Reviewing_transaction path version data screen) st =
     (on_screen st = Transaction_review screen \<and>
      (\<exists>t. ctx_req st = Tx t \<and> tx_reviewed P path version data t screen))"
| "carries_out P hashed sha256 (Reviewing_message path flags len data t) st =
     (message_shown P sha256 data t (on_screen st) \<and> can_display len data t \<and>
      (\<exists>m c. ctx_req st = Msg m \<and> message_ok m \<and> reviewed m c \<and> displayType c = t \<and>
        confirming sha256 path flags len data m c))"

text \<open>Only the request and the screen matter for that.\<close>

lemma carries_out_cong:
  "carries_out P hashed sha256 job st \<Longrightarrow> ctx_req st' = ctx_req st \<Longrightarrow> on_screen st' = on_screen st \<Longrightarrow>
    carries_out P hashed sha256 job st'"
  by (cases job) auto

lemma screen_of_job:
  assumes "carries_out P hashed sha256 job st"
  shows "on_screen st = Main_menu \<longleftrightarrow> \<not> reviewing job"
    and "on_screen st = Message_flow \<Longrightarrow> \<exists>path flags len data t. job = Reviewing_message path flags len data t"
  using assms by (cases job; auto simp: message_shown_def split: device.splits)+

section \<open>The client\<close>

text \<open>
  A client that waits: while a request is reviewed it sends nothing but keep alive commands, and it
  continues no upload that is not its own. What it may send depends on its phase, which it can tell
  from its commands and the replies.
\<close>

datatype phase = Free | Sending_transaction | Sending_message | Waiting

fun phase_of :: "job \<Rightarrow> phase" where
  "phase_of Idle = Free"
| "phase_of (Receiving_transaction _ _ _) = Sending_transaction"
| "phase_of (Receiving_message _ _ _ _) = Sending_message"
| "phase_of _ = Waiting"

definition next_phase :: "phase \<Rightarrow> event \<Rightarrow> effect \<Rightarrow> phase" where
  "next_phase ph e out =
     (if out = Restart then Free
      else case e of
        Command apdu \<Rightarrow>
          if out = Nothing then (if apdu ! OFFSET_INS = INS_KEEP_ALIVE then ph else Waiting)
          else if out \<noteq> Reply (sw_bytes SW_OK) then Free
          else if apdu ! OFFSET_INS = INS_SIGN_TX then Sending_transaction
          else if apdu ! OFFSET_INS = INS_SIGN_MESSAGE then Sending_message else Free
      | Review_button _ \<Rightarrow> Free
      | _ \<Rightarrow> ph)"

fun phase_may_send :: "phase \<Rightarrow> u8 list \<Rightarrow> bool" where
  "phase_may_send Sending_transaction apdu =
     (apdu ! OFFSET_INS = INS_SIGN_MESSAGE \<longrightarrow> apdu ! OFFSET_P1 \<noteq> P1_MORE)"
| "phase_may_send Sending_message apdu =
     (apdu ! OFFSET_INS = INS_SIGN_TX \<longrightarrow> apdu ! OFFSET_P1 \<noteq> P1_MORE)"
| "phase_may_send Free apdu =
     (apdu ! OFFSET_INS = INS_SIGN_TX \<or> apdu ! OFFSET_INS = INS_SIGN_MESSAGE \<longrightarrow> apdu ! OFFSET_P1 \<noteq> P1_MORE)"
| "phase_may_send Waiting apdu = (wf_apdu apdu \<and> apdu ! OFFSET_CLA = CLA \<and> apdu ! OFFSET_INS = INS_KEEP_ALIVE)"

abbreviation may_send :: "job \<Rightarrow> u8 list \<Rightarrow> bool" where
  "may_send job \<equiv> phase_may_send (phase_of job)"

definition patient :: "phase \<Rightarrow> event \<Rightarrow> bool" where
  "patient ph e = (case e of Command apdu \<Rightarrow> phase_may_send ph apdu | _ \<Rightarrow> True)"

section \<open>The handlers keep the promise\<close>

lemma not_reviewing_menu:
  "carries_out P hashed sha256 job st \<Longrightarrow> \<not> reviewing job \<Longrightarrow> on_screen st = Main_menu"
  using screen_of_job(1) by blast

lemma reviewed_version:
  assumes "tx_reviewed P path version data t screen"
  shows "version = TRANSACTION_VERSION_LEGACY \<or> version = TRANSACTION_VERSION_ALBATROSS"
  using assms by (auto simp: tx_reviewed_def parse_tx_def Ok_simps)

lemma reviewed_is_reviewable:
  assumes "tx_reviewed P path version data t screen" "platform_ok P"
  shows "reviewable P version data screen"
proof (rule reviewed_transaction [OF assms])
  fix tx p
  assume "tx_ok version tx" "carries version tx p" "data = tx_bytes version tx"
    "tx_display (blake2b P) version tx p = Ok (observe shown (parsed t))"
  moreover have "ui_transaction_signing (device P) (parsed t) = (Ok screen :: (sw_t, _) result)"
    using assms(1) by (simp add: tx_reviewed_def)
  ultimately show ?thesis using reviewed_version [OF assms(1)] unfolding reviewable_def displays_def by blast
qed

lemma transaction_command_outcome:
  assumes "transaction_command P apdu st = Ok (st1, async)" "apdu ! OFFSET_INS = INS_SIGN_TX" "wf_apdu apdu"
    and "platform_ok P" "state_ok st" "length apdu \<le> IO_APDU_BUFFER_SIZE"
    and "carries_out P hashed sha256 job st" "\<not> reviewing job" "may_send job apdu"
  shows "\<exists>path version data. uploads_transaction job apdu path version data \<and>
    tx_outcome P (apdu ! OFFSET_P2) path version data (command_state apdu st) st1 async"
proof -
  note handled = assms(1) [unfolded transaction_command_def]
  note data = command_data_view [OF assms(3,5,6)] and ok = command_state_ok [OF assms(5,6)]
  from handle_sign_transaction_OkD(1) [OF handled] show ?thesis
  proof
    assume p1: "apdu ! OFFSET_P1 = P1_FIRST"
    from handle_sign_transaction_first [OF handled [unfolded p1] assms(4) ok data(2), unfolded data(1)]
    show ?thesis using p1 assms(2) unfolding uploads_transaction_def by auto
  next
    assume p1: "apdu ! OFFSET_P1 = P1_MORE"
    then obtain path version received where job: "job = Receiving_transaction path version received"
      using assms(2,8,9) by (cases job) (auto simp: instruction_defs)
    then obtain t where t: "ctx_req st = Tx t" "tx_received path version received t" using assms(7) by auto
    have "tx_outcome P (apdu ! OFFSET_P2) path version (received @ drop OFFSET_CDATA apdu) (command_state apdu st) st1 async"
      using handle_sign_transaction_more [OF handled [unfolded p1] data(2) _ _ t(2), unfolded data(1)] t(1) by simp
    with p1 assms(2) job show ?thesis unfolding uploads_transaction_def by blast
  qed
qed

lemma transaction_command_refines:
  assumes "transaction_command P apdu st = Ok (st1, async)" "apdu ! OFFSET_INS = INS_SIGN_TX" "wf_apdu apdu"
    and "platform_ok P" "state_ok st" "length apdu \<le> IO_APDU_BUFFER_SIZE"
    and "carries_out P hashed sha256 job st" "\<not> reviewing job" "may_send job apdu"
  shows "\<exists>job'. spec_step P sha256 job (Command apdu) (sent (if async then None else Some (sw_bytes SW_OK))) job' \<and>
    carries_out P hashed sha256 job' st1"
proof -
  obtain path version data where up: "uploads_transaction job apdu path version data"
    and out: "tx_outcome P (apdu ! OFFSET_P2) path version data (command_state apdu st) st1 async"
    using transaction_command_outcome [OF assms] by blast
  have p2: "apdu ! OFFSET_P2 = P2_LAST \<or> apdu ! OFFSET_P2 = P2_MORE"
    using handle_sign_transaction_OkD(2) [OF assms(1) [unfolded transaction_command_def]] .
  show ?thesis
  proof (cases "apdu ! OFFSET_P2 = P2_MORE")
    case True
    with out not_reviewing_menu [OF assms(7,8)]
    have "\<not> async" and after: "carries_out P hashed sha256 (Receiving_transaction path version data) st1"
      and fits: "length data \<le> MAX_RAW_TX"
      by (auto simp: tx_outcome_def tx_received_def)
    then have "sent (if async then None else Some (sw_bytes SW_OK)) = Reply (sw_bytes SW_OK)" by (simp add: sent_def)
    with after spec_step.transaction_chunk [OF up fits True] show ?thesis by metis
  next
    case False
    with out obtain t screen where r: "async" "ctx_req st1 = Tx t" "tx_reviewed P path version data t screen"
        "on_screen st1 = Transaction_review screen"
      by (auto simp: tx_outcome_def)
    have "length data \<le> MAX_RAW_TX" using r(3) by (simp add: tx_reviewed_def tx_received_def)
    then have "spec_step P sha256 job (Command apdu) Nothing (Reviewing_transaction path version data screen)"
      using spec_step.transaction_review [OF up _ _ reviewed_is_reviewable [OF r(3) assms(4)]] p2 False by blast
    moreover have "carries_out P hashed sha256 (Reviewing_transaction path version data screen) st1" using r by simp
    ultimately show ?thesis using r(1) by (auto simp: sent_def)
  qed
qed

lemma public_key_command_refines:
  assumes "public_key_command P apdu st = Ok (st1, n, async)" "apdu ! OFFSET_INS = INS_GET_PUBLIC_KEY" "wf_apdu apdu"
    and "platform_ok P" "state_ok st" "length apdu \<le> IO_APDU_BUFFER_SIZE"
    and "carries_out P hashed sha256 job st" "\<not> reviewing job"
  shows "\<exists>job'. spec_step P sha256 job (Command apdu)
      (sent (if async then None else Some (take n (G_io_apdu_buffer st1) @ sw_bytes SW_OK))) job' \<and>
    carries_out P hashed sha256 job' st1"
proof -
  obtain path msg k c where
    c: "drop OFFSET_CDATA apdu = path_bytes path @ msg" "private_key_of P path (of_nat (length path)) = Some k"
      "key_context P (apdu ! OFFSET_P1 = P1_SIGNATURE) k msg c"
    and out: "public_key_outcome P (apdu ! OFFSET_P2) c (command_state apdu st) st1 n async"
    and p2: "apdu ! OFFSET_P2 = P2_CONFIRM \<or> apdu ! OFFSET_P2 = P2_NO_CONFIRM"
    by (rule public_key_command_OkD [OF assms(1,3-6)])
  show ?thesis
  proof (cases "apdu ! OFFSET_P2 = P2_CONFIRM")
    case True
    with out obtain h where h: "async" "blake2b P (compress_public_key (publicKey c)) = Some h"
        "address c = shown_address P (take 20 h)" "on_screen st1 = Address_review (address c)" "ctx_req st1 = Pk c"
      by (auto simp: public_key_outcome_def)
    from spec_step.key_review [OF assms(2) True c h(2), of sha256 job] h show ?thesis by (auto simp: sent_def)
  next
    case False
    with p2 have no: "apdu ! OFFSET_P2 = P2_NO_CONFIRM" by blast
    have r: "\<not> async" "take n (G_io_apdu_buffer st1) = key_result c" "on_screen st1 = Main_menu"
      using False out not_reviewing_menu [OF assms(7,8)] by (auto simp: public_key_outcome_def)
    from spec_step.key [OF assms(2) no c, of sha256 job] r show ?thesis by (auto simp: sent_def)
  qed
qed

lemma confirming_fields:
  assumes "confirming sha256 path flags len data m c"
  shows "isPrintableAscii m \<longleftrightarrow> unat len \<le> MAX_PRINTABLE_MESSAGE_LENGTH \<and> is_printable_ascii data"
    "messageLength m = len" "msg_flags m = flags"
  using assms unfolding confirming_def by (simp_all split: if_splits)

lemma message_display_type_default:
  "confirming sha256 path flags len data m c \<Longrightarrow> message_display_type m = default_display flags len data"
  by (simp add: message_display_type_def default_display_def confirming_fields)

lemma default_display_can: "can_display len data (default_display flags len data)"
  by (simp add: can_display_def default_display_def)

text \<open>What the two user interfaces print is the page of the promise.\<close>

lemma printable_text:
  "is_printable_ascii data \<Longrightarrow> c_string (map char_of_byte data @ [NUL]) = map char_of_byte data"
  by (rule c_string_no_NUL [OF printable_no_NUL])

lemma shown_message_page:
  assumes "confirming sha256 path flags len data m c" "can_display len data (displayType c)"
  shows "message_page sha256 data (displayType c) (shown_message m c)"
proof -
  have "take (unat (messageLength m)) (printableMessage m) = data" if "displayType c \<noteq> MESSAGE_DISPLAY_TYPE_HASH"
    using assms that by (auto simp: confirming_def can_display_def split: message_display_type_t.splits)
  then show ?thesis using assms
    by (cases "displayType c")
      (simp_all add: message_page_def shown_message_def Let_def printable_text can_display_def confirming_def)
qed

lemma message_screen_shown:
  assumes "confirming sha256 path flags len data m c" "can_display len data (displayType c)"
  shows "message_shown P sha256 data (displayType c) (message_screen P m c)"
  using shown_message_page [OF assms] 
  by (cases "device P") (simp_all add: message_shown_def message_screen_def del: split_paired_Ex)

lemma message_command_outcome:
  assumes "message_command P apdu st = Ok (st1, async)" "apdu ! OFFSET_INS = INS_SIGN_MESSAGE" "wf_apdu apdu"
    and "platform_ok P" "incremental_hash P hashed sha256" "state_ok st" "length apdu \<le> IO_APDU_BUFFER_SIZE"
    and "carries_out P hashed sha256 job st" "\<not> reviewing job" "may_send job apdu"
  shows "\<exists>path flags len data. uploads_message job apdu path flags len data \<and>
    message_outcome P hashed sha256 (apdu ! OFFSET_P2) path flags len data st1 async"
proof -
  note handled = assms(1) [unfolded message_command_def]
  note data = command_data_view [OF assms(3,6,7)] and ok = command_state_ok [OF assms(6,7)]
  from handle_sign_message_OkD(1) [OF handled] show ?thesis
  proof
    assume p1: "apdu ! OFFSET_P1 = P1_FIRST"
    from handle_sign_message_first [OF handled [unfolded p1] assms(4) ok data(2) assms(5), unfolded data(1)]
    show ?thesis using p1 assms(2) unfolding uploads_message_def by blast
  next
    assume p1: "apdu ! OFFSET_P1 = P1_MORE"
    then obtain path flags len received where job: "job = Receiving_message path flags len received"
      using assms(2,9,10) by (cases job) (auto simp: instruction_defs)
    then obtain m where m: "ctx_req (command_state apdu st) = Msg m" "receiving hashed path flags len received m" "message_ok m"
      using assms(8) by auto
    from handle_sign_message_more [OF handled [unfolded p1] assms(4) ok data(2) assms(5) m, unfolded data(1)]
    show ?thesis using p1 assms(2) job unfolding uploads_message_def by blast
  qed
qed

lemma message_outcome_screen:
  assumes "message_outcome P hashed sha256 p2 path flags len data st async" "p2 = P2_LAST"
  shows "async \<and> len = of_nat (length data) \<and>
    carries_out P hashed sha256 (Reviewing_message path flags len data (default_display flags len data)) st"
proof -
  have no: "p2 \<noteq> P2_MORE" using assms(2) by (simp add: chunk_parameter_defs)
  obtain m c where m: "ctx_req st = Msg m" "message_ok m" "confirming sha256 path flags len data m c" "reviewed m c"
      "on_screen st = message_screen P m c" "displayType c = message_display_type m" and "async"
    using assms(1) no unfolding message_outcome_def by auto
  have t: "displayType c = default_display flags len data" using m(3,6) message_display_type_default by simp
  then have "can_display len data (displayType c)" using default_display_can by simp
  with message_screen_shown [OF m(3) this] m t \<open>async\<close> show ?thesis
    by (auto simp: confirming_def)
qed

lemma message_command_refines:
  assumes "message_command P apdu st = Ok (st1, async)" "apdu ! OFFSET_INS = INS_SIGN_MESSAGE" "wf_apdu apdu"
    and "platform_ok P" "incremental_hash P hashed sha256" "state_ok st" "length apdu \<le> IO_APDU_BUFFER_SIZE"
    and "carries_out P hashed sha256 job st" "\<not> reviewing job" "may_send job apdu"
  shows "\<exists>job'. spec_step P sha256 job (Command apdu) (sent (if async then None else Some (sw_bytes SW_OK))) job' \<and>
    carries_out P hashed sha256 job' st1"
proof -
  obtain path flags len data where up: "uploads_message job apdu path flags len data"
    and out: "message_outcome P hashed sha256 (apdu ! OFFSET_P2) path flags len data st1 async"
    using message_command_outcome [OF assms] by blast
  show ?thesis
  proof (cases "apdu ! OFFSET_P2 = P2_MORE")
    case True
    have "on_screen st1 = Main_menu" if "\<not> async"
      using handle_sign_message_arrays [OF assms(1) [unfolded message_command_def] assms(4) command_state_ok [OF assms(6,7)]
        command_data_view(2) [OF assms(3,6,7)]] not_reviewing_menu [OF assms(8,9)] that by simp
    with out True have "\<not> async" and after: "carries_out P hashed sha256 (Receiving_message path flags len data) st1"
      by (auto simp: message_outcome_def)
    then have "sent (if async then None else Some (sw_bytes SW_OK)) = Reply (sw_bytes SW_OK)" by (simp add: sent_def)
    with after spec_step.message_chunk [OF up True] show ?thesis by metis
  next
    case False
    then have last: "apdu ! OFFSET_P2 = P2_LAST"
      using handle_sign_message_OkD(2) [OF assms(1) [unfolded message_command_def]] by blast
    note after = message_outcome_screen [OF out last]
    then have "sent (if async then None else Some (sw_bytes SW_OK)) = Nothing" by (simp add: sent_def)
    with after spec_step.message_review [OF up last] show ?thesis by metis
  qed
qed

section \<open>The user keeps the promise\<close>

lemma snprintf_dec_u32_at:
  assumes "length arr = PRINTED_MESSAGE_BUFFER_LENGTH"
  obtains out where "snprintf_at 0 (length arr) (dec (unat (len :: u32))) arr = Ok out"
    "length out = PRINTED_MESSAGE_BUFFER_LENGTH" "c_string out = dec (unat len)"
proof -
  have n: "length (dec (unat len)) \<le> 10" by (rule length_dec_u32)
  let ?out = "dec (unat len) @ NUL # drop (Suc (length (dec (unat len)))) arr"
  have "snprintf_at 0 (length arr) (dec (unat len)) arr = Ok ?out"
    using n assms by (simp add: snprintf_at_def poke_def snprintf_def PRINTED_MESSAGE_BUFFER_LENGTH_def
        MAX_PRINTABLE_MESSAGE_LENGTH_def)
  moreover have "length ?out = PRINTED_MESSAGE_BUFFER_LENGTH"
    using n assms by (simp add: PRINTED_MESSAGE_BUFFER_LENGTH_def MAX_PRINTABLE_MESSAGE_LENGTH_def)
  ultimately show thesis by (rule that) (rule c_string_no_NUL [OF dec_no_NUL])
qed

text \<open>Printing into the context changes nothing of what is reviewed.\<close>

lemma printed_still_reviewed:
  assumes "confirming sha256 path flags len data m c" "message_ok m" "reviewed m c"
    and "c' = c\<lparr>printedMessageLabel := label, printedMessage := out\<rparr>" "length out = PRINTED_MESSAGE_BUFFER_LENGTH"
    and "m' = m\<lparr>msg_union := Confirm c'\<rparr>"
  shows "confirming sha256 path flags len data m' c' \<and> message_ok m' \<and> reviewed m' c' \<and> displayType c' = displayType c"
  using assms(2,3,5) confirming_same_content [OF assms(1), of m' c']
  by (simp add: assms(4,6) same_content_def message_ok_def msg_arrays_def confirm_arrays_def reviewed_def)

lemma reviewing_still_carried_out:
  assumes "message_shown P sha256 data (displayType c) (on_screen st)" "can_display len data (displayType c)"
    and "confirming sha256 path flags len data m c" "message_ok m" "reviewed m c"
    and "length out = PRINTED_MESSAGE_BUFFER_LENGTH"
    and "st' = st\<lparr>ctx_req := Msg (m\<lparr>msg_union := Confirm (c\<lparr>printedMessageLabel := label, printedMessage := out\<rparr>)\<rparr>)\<rparr>"
  shows "carries_out P hashed sha256 (Reviewing_message path flags len data (displayType c)) st'"
  using printed_still_reviewed [OF assms(3,4,5) refl assms(6) refl, of label] assms(1,2)
  unfolding carries_out.simps assms(7) by fastforce

lemma open_page_refines:
  assumes "on_screen st = Message_flow" "open_message_page P which st = (Ok (st', page) :: (sw_t, _) result)"
    and "carries_out P hashed sha256 job st"
  shows "spec_step P sha256 job (Open_page which) (Show page) job \<and> carries_out P hashed sha256 job st'"
proof -
  obtain path flags len data t where job: "job = Reviewing_message path flags len data t"
    using screen_of_job(2) [OF assms(3,1)] by blast
  then obtain m c where m: "ctx_req st = Msg m" "message_ok m" "reviewed m c" "displayType c = t"
      "confirming sha256 path flags len data m c" and can: "can_display len data t"
      "message_shown P sha256 data t (on_screen st)"
    using assms(3) by auto
  have u: "msg_union m = Confirm c" and arrays: "msg_arrays m" "length (printedMessage c) = PRINTED_MESSAGE_BUFFER_LENGTH"
    using m(2,3) by (simp_all add: reviewed_def message_ok_def msg_arrays_def confirm_arrays_def)
  note still = reviewing_still_carried_out [OF _ _ m(5,2,3)]
  show ?thesis
  proof (cases which)
    case Length_page
    obtain out where out: "snprintf_at 0 (length (printedMessage c)) (dec (unat len)) (printedMessage c) = (Ok out :: (sw_t, _) result)"
        "length out = PRINTED_MESSAGE_BUFFER_LENGTH" "c_string out = dec (unat len)"
      by (rule snprintf_dec_u32_at [OF arrays(2), of len])
    have r: "st' = st\<lparr>ctx_req := Msg (m\<lparr>msg_union := Confirm (c\<lparr>printedMessage := out\<rparr>)\<rparr>)\<rparr>"
        "page = (''Message Length'', dec (unat len))"
      using assms(2) out confirming_fields(2) [OF m(5)]
      by (auto simp: Length_page open_message_page_def ux_message_flow_message_length_step_def m(1) u Let_def)
    have "carries_out P hashed sha256 job st'"
      using still [of P st out st' "printedMessageLabel c"] can out(2)
      by (simp add: job m(4) r(1))
    with spec_step.show_length [OF job] show ?thesis by (simp add: Length_page r(2))
  next
    case Message_page
    have fits: "displayType c \<noteq> MESSAGE_DISPLAY_TYPE_HASH \<Longrightarrow> unat (messageLength m) \<le> MAX_PRINTABLE_MESSAGE_LENGTH"
      using m(3) by (simp add: reviewed_def)
    obtain out where out: "ux_message_signing_prepare_printed_message P m =
        (Ok (print_in_confirm (fst (shown_message m c)) out c m) :: (sw_t, _) result)"
      "length out = PRINTED_MESSAGE_BUFFER_LENGTH" "c_string out = snd (shown_message m c)"
      by (rule prepare_printed_message [OF u arrays(1) fits])
    have r: "st' = st\<lparr>ctx_req := Msg (print_in_confirm (fst (shown_message m c)) out c m)\<rparr>" "page = shown_message m c"
      using assms(2) out by (auto simp: Message_page open_message_page_def ux_message_flow_message_step_def m(1)
          print_in_confirm_def Let_def)
    have "carries_out P hashed sha256 job st'"
      using still [of P st out st' "fst (shown_message m c)"] can out(2)
      by (simp add: job m(4) r(1) print_in_confirm_def)
    moreover have "message_page sha256 data t page"
      using shown_message_page [OF m(5)] can(1) m(4) r(2) by simp
    ultimately show ?thesis using spec_step.show_message [OF job] by (simp add: Message_page)
  qed
qed

lemma switch_refines:
  assumes "on_screen st = Message_flow" "display_switch_shown P t' (req_msg P (ctx_req st))"
    and "ui_message_signing P t' st = (Ok st' :: (sw_t, _) result)"
    and "carries_out P hashed sha256 job st" "platform_ok P" "state_ok st"
  shows "\<exists>job'. spec_step P sha256 job (Switch_display t') Nothing job' \<and> carries_out P hashed sha256 job' st'"
proof -
  obtain path flags len data t where job: "job = Reviewing_message path flags len data t"
    using screen_of_job(2) [OF assms(4,1)] by blast
  then obtain m c where m: "ctx_req st = Msg m" "message_ok m" "reviewed m c" "displayType c = t"
      "confirming sha256 path flags len data m c"
    using assms(4) by auto
  note fields = confirming_fields [OF m(5)]
  have can: "can_display len data t'"
    using assms(2) fields m(1)
    by (cases t') (simp_all add: can_display_def display_switch_shown_def ux_message_flow_display_ascii_step_def
        ux_message_flow_display_hex_step_def)
  let ?after = "carries_out P hashed sha256 (Reviewing_message path flags len data t')"
  have "delivers ?after (ui_message_signing P t' st :: (sw_t, _) result)"
  proof (rule delivers_ui_message_signing [OF assms(5)], goal_cases)
    case 3
    then show ?case using can fields(2) m(1)
      by (cases t') (simp_all add: can_display_def)
  next
    case (4 m' c' st1)
    have "msg_union m = Confirm c" using m(3) by (simp add: reviewed_def)
    with 4(5) have "same_content m c m' c'" by (simp add: m(1))
    from confirming_same_content [OF m(5) this] have new: "confirming sha256 path flags len data m' c'" .
    from message_screen_shown [OF new] 4 new can show ?case by auto
  qed (use assms(6) m(1,2) in \<open>simp_all add: state_ok_def\<close>)
  from deliversD [OF this assms(3)] show ?thesis
    unfolding job using spec_step.switch [OF can] by blast
qed

lemma approval_refines:
  assumes "on_reviewed P True st = Ok (st', reply)" "carries_out P hashed sha256 job st" "reviewing job"
    and "platform_ok P" "state_ok st"
  shows "spec_step P sha256 job (Review_button True) (Reply reply) Idle"
proof -
  have buf: "apdu_buffer_ok st" using assms(5) by (simp add: state_ok_def apdu_buffer_ok_def)
  show ?thesis
  proof (cases job)
    case (Reviewing_key result address)
    then obtain c where c: "on_screen st = Address_review address" "ctx_req st = Pk c" "key_result c = result"
      using assms(2) by auto
    have "pk_arrays (req_pk P (ctx_req st))" using assms(5) by (simp add: c(2) state_ok_def)
    from address_approved [OF this buf] have "replies (on_address_approved P st) (result @ sw_bytes SW_OK)"
      by (simp add: c(2,3))
    with assms(1) have "reply = result @ sw_bytes SW_OK" by (auto simp: on_reviewed_eq andthen_eq_Ok c(1))
    then show ?thesis unfolding Reviewing_key by (simp add: spec_step.approve_key)
  next
    case (Reviewing_transaction path version data screen)
    then obtain t where t: "on_screen st = Transaction_review screen" "ctx_req st = Tx t"
        "tx_reviewed P path version data t screen"
      using assms(2) by auto
    obtain tx p where tx: "tx_ok version tx" "carries version tx p" "data = tx_bytes version tx"
      "tx_display (blake2b P) version tx p = Ok (observe shown (parsed t))"
      and r: "replies (on_transaction_approved P st :: (sw_t, _) result) (transaction_reply P path version tx p)"
      by (rule transaction_approved [OF t(3,2) assms(4) buf])
    have "displays P version tx p screen"
      using tx(4) t(3) by (auto simp: displays_def tx_reviewed_def)
    moreover have "reply = transaction_reply P path version tx p"
      using assms(1) r by (auto simp: on_reviewed_eq andthen_eq_Ok t(1))
    ultimately show ?thesis unfolding Reviewing_transaction using tx by (simp add: spec_step.approve_transaction)
  next
    case (Reviewing_message path flags len data t)
    then obtain m c where m: "message_shown P sha256 data t (on_screen st)" "ctx_req st = Msg m"
        "confirming sha256 path flags len data m c"
      using assms(2) by auto
    from message_approved [OF m(3,2) assms(4) buf]
    have "replies (on_message_approved P st :: (sw_t, _) result) (message_reply P sha256 path len data)"
      by (simp add: message_reply_def)
    moreover have "on_screen st = Message_flow \<or> (\<exists>title entries. on_screen st = Message_review title entries)"
      using m(1) by (auto simp: message_shown_def split: device.splits)
    ultimately have "reply = message_reply P sha256 path len data"
      using assms(1) by (auto simp: on_reviewed_eq andthen_eq_Ok)
    then show ?thesis unfolding Reviewing_message by (simp add: spec_step.approve_message)
  qed (use assms(3) in simp_all)
qed

lemma button_refines:
  assumes "on_screen st \<noteq> Main_menu" "on_reviewed P approved st = Ok (st', reply)"
    and "carries_out P hashed sha256 job st" "platform_ok P" "state_ok st"
  shows "spec_step P sha256 job (Review_button approved) (Reply reply) Idle \<and> carries_out P hashed sha256 Idle st'"
proof -
  have r: "reviewing job" using assms(1,3) screen_of_job(1) by blast
  have "spec_step P sha256 job (Review_button approved) (Reply reply) Idle"
  proof (cases approved)
    case True
    then have "on_reviewed P True st = Ok (st', reply)" using assms(2) by simp
    from approval_refines [OF this assms(3) r assms(4,5)] True show ?thesis by simp
  next
    case False
    then obtain st1 where "on_rejected st = (Ok (st1, reply) :: (sw_t, _) result)"
      using assms(2) by (auto simp: on_reviewed_eq andthen_eq_Ok)
    moreover have "replies (on_rejected st :: (sw_t, _) result) (sw_bytes SW_DENY)"
      using assms(5) by (intro rejected) (simp add: state_ok_def apdu_buffer_ok_def)
    ultimately show ?thesis using spec_step.reject [OF r] False by simp
  qed
  with on_reviewed_keeps(2) [OF assms(2,4,5)] show ?thesis by simp
qed

section \<open>The session keeps the promise\<close>

lemma accepted_command_refines:
  assumes "accepted_command P apdu st st' r st1 n async" "platform_ok P" "incremental_hash P hashed sha256" "state_ok st"
    and "length apdu \<le> IO_APDU_BUFFER_SIZE" "carries_out P hashed sha256 job st" "may_send job apdu"
  shows "\<exists>job'. spec_step P sha256 job (Command apdu) (sent r) job' \<and> carries_out P hashed sha256 job' st'"
proof -
  have wf: "wf_apdu apdu" and r: "r = (if async then None else Some (take n (G_io_apdu_buffer st1) @ sw_bytes SW_OK))"
    and st': "ctx_req st' = ctx_req st1" "on_screen st' = on_screen st1"
    using assms(1) by (simp_all add: accepted_command_def)
  have menu: "\<not> reviewing job" if "apdu ! OFFSET_INS \<noteq> INS_KEEP_ALIVE"
    using assms(7) that by (cases job) simp_all
  have "\<exists>job'. spec_step P sha256 job (Command apdu) (sent r) job' \<and> carries_out P hashed sha256 job' st1"
    using assms(1)
  proof (cases rule: accepted_cases)
    case Public_key
    with public_key_command_refines [OF Public_key(2,1) wf assms(2,4,5,6)] menu show ?thesis
      by (simp add: r instruction_defs)
  next
    case Transaction
    have "\<not> reviewing job" using menu Transaction(1) by (simp add: instruction_defs)
    from transaction_command_refines [OF Transaction(2,1) wf assms(2,4,5,6) this assms(7)]
    show ?thesis unfolding r Transaction(3) take_0 append_Nil .
  next
    case Message
    have "\<not> reviewing job" using menu Message(1) by (simp add: instruction_defs)
    from message_command_refines [OF Message(2,1) wf assms(2,3,4,5,6) this assms(7)]
    show ?thesis unfolding r Message(3) take_0 append_Nil .
  next
    case Keep_alive
    have "carries_out P hashed sha256 job st1"
      by (rule carries_out_cong [OF assms(6)]) (simp_all add: Keep_alive(2))
    moreover have "sent r = Nothing" using Keep_alive(4) by (simp add: r sent_def)
    ultimately show ?thesis using spec_step.keep_alive [OF Keep_alive(1)] by metis
  qed
  then show ?thesis using carries_out_cong st' by blast
qed

lemma refused_only_in_menu:
  assumes "refused_command sw st st' r" "carries_out P hashed sha256 job st" "\<not> reviewing job"
  shows "spec_step P sha256 job (Command apdu) (sent r) Idle \<and> carries_out P hashed sha256 Idle st'"
  using assms(1) not_reviewing_menu [OF assms(2,3)]
  by (auto simp: refused_command_def sent_def intro: spec_step.refused)

text \<open>A keep alive command is never refused.\<close>

lemma keep_alive_not_refused:
  assumes "nimiq_main_iteration P apdu st = (Ok (st', r) :: (sw_t, _) result)" "platform_ok P" "state_ok st"
    and "length apdu \<le> IO_APDU_BUFFER_SIZE" "wf_apdu apdu" "apdu ! OFFSET_CLA = CLA" "apdu ! OFFSET_INS = INS_KEEP_ALIVE"
  shows "\<exists>st1 n async. accepted_command P apdu st st' r st1 n async"
proof -
  have h: "handle_apdu P (receive apdu st) = Ok (command_state apdu st, 0, True)"
    using assms(6,7) by (simp add: handle_apdu_received [OF assms(5)] instruction_defs)
  have "nimiq_main_iteration P apdu st = (finish_command SW_OK 0 True (command_state apdu st) :: (sw_t, _) result)"
    using assms(5) h unfolding nimiq_main_iteration_def Let_def wf_apdu_iff [of apdu st] by simp
  with assms(1) have "r = None"
    by (auto simp: finish_command_def andthen_eq_Ok)
  with iteration_cases [OF assms(1-4)] show ?thesis by (auto simp: refused_command_def)
qed

lemma command_refines:
  assumes "nimiq_main_iteration P apdu st = (Ok (st', r) :: (sw_t, _) result)" "length apdu \<le> IO_APDU_BUFFER_SIZE"
    and "platform_ok P" "incremental_hash P hashed sha256" "state_ok st" "carries_out P hashed sha256 job st" "may_send job apdu"
  shows "\<exists>job'. spec_step P sha256 job (Command apdu) (sent r) job' \<and> carries_out P hashed sha256 job' st'"
proof (cases "reviewing job")
  case True
  then have "wf_apdu apdu" "apdu ! OFFSET_CLA = CLA" "apdu ! OFFSET_INS = INS_KEEP_ALIVE"
    using assms(7) by (cases job; simp)+
  from keep_alive_not_refused [OF assms(1,3,5,2) this] accepted_command_refines [OF _ assms(3,4,5,2,6,7)]
  show ?thesis by blast
next
  case False
  with iteration_cases [OF assms(1,3,5,2)] accepted_command_refines [OF _ assms(3,4,5,2,6,7)]
    refused_only_in_menu [OF _ assms(6)] show ?thesis by blast
qed

lemma tick_refines:
  assumes "ticker_event media st = (Ok (st', r) :: (sw_t, _) result)" "state_ok st" "carries_out P hashed sha256 job st"
  shows "spec_step P sha256 job (Tick media) (sent r) job \<and> carries_out P hashed sha256 job st'"
proof -
  have buf: "apdu_buffer_ok st" using assms(2) by (simp add: state_ok_def apdu_buffer_ok_def)
  obtain u mem where "st' = st\<lparr>ctx_u2fTimer := u, G_io_apdu_buffer := mem\<rparr>"
    using ticker_Ok [OF assms(1) buf] unfolding same_but_buffer_def by blast
  then have "ctx_req st' = ctx_req st" "on_screen st' = on_screen st" by simp_all
  then have "carries_out P hashed sha256 job st'" using carries_out_cong [OF assms(3)] by blast
  moreover have "spec_step P sha256 job (Tick media) (sent r) job"
  proof (cases r)
    case None
    then show ?thesis by (simp add: sent_def spec_step.tick)
  next
    case (Some bs)
    then have "media = IO_APDU_MEDIA_U2F" using assms(1) by (auto simp: ticker_event_def split: if_splits)
    moreover have "bs = sw_bytes SW_KEEP_ALIVE" using ticker_reply [OF assms(1) [unfolded Some] buf] .
    ultimately show ?thesis using Some by (simp add: sent_def spec_step.keep_alive_sent)
  qed
  ultimately show ?thesis by simp
qed

lemma step_refines:
  assumes "session_step P st e out st'" "platform_ok P" "incremental_hash P hashed sha256" "session_ok st"
    and "carries_out P hashed sha256 job st" "patient (phase_of job) e"
  shows "\<exists>job'. spec_step P sha256 job e out job' \<and> carries_out P hashed sha256 job' st'"
proof -
  have ok: "state_ok st" using assms(4) by (simp add: session_ok_def)
  from assms(1) show ?thesis
  proof (cases rule: session_step.cases)
    case (command apdu r)
    then show ?thesis
      using command_refines [OF command(4,3) assms(2,3) ok assms(5)] assms(6) by (simp add: patient_def)
  next
    case (tick media r)
    with tick_refines [OF tick(3) ok assms(5)] show ?thesis by blast
  next
    case (button approved reply)
    with button_refines [OF button(3,4) assms(5,2) ok] show ?thesis by blast
  next
    case (open_page which page)
    with open_page_refines [OF open_page(3,4) assms(5)] show ?thesis by blast
  next
    case (switch t)
    with switch_refines [OF switch(3-5) assms(5,2) ok] show ?thesis by blast
  next
    case (status media usb_powered)
    with assms(5) show ?thesis by (blast intro: spec_step.powered)
  next
    case (unplugged media usb_powered e')
    then have "carries_out P hashed sha256 Idle st'" by (auto dest: main_catch_Some)
    with unplugged show ?thesis
      by (auto simp: status_event_def intro!: exI [of _ Idle] spec_step.unplugged split: if_splits)
  next
    case (thrown e')
    then have "carries_out P hashed sha256 Idle st'" by (auto dest: main_catch_Some)
    with thrown show ?thesis by (auto intro!: exI [of _ Idle] spec_step.thrown)
  qed
qed

section \<open>Runs\<close>

lemma sw_bytes_inject: "sw_bytes a = sw_bytes b \<longleftrightarrow> a = b"
  by (cases a; cases b) (simp_all add: sw_bytes_def)

lemma key_reply_not_status: "key_context P b k msg c \<Longrightarrow> key_result c @ sw_bytes SW_OK \<noteq> sw_bytes sw"
proof
  assume "key_context P b k msg c" "key_result c @ sw_bytes SW_OK = sw_bytes sw"
  from arg_cong [OF this(2), of length] have "length (key_result c) = 0" by simp
  moreover have "32 \<le> length (key_result c)"
    using \<open>key_context P b k msg c\<close> key_result_length [of c] by (simp add: key_context_def)
  ultimately show False by simp
qed

lemma uploads_instruction:
  "uploads_transaction job apdu path version data \<Longrightarrow> apdu ! OFFSET_INS = INS_SIGN_TX"
  "uploads_message job apdu path flags len msg \<Longrightarrow> apdu ! OFFSET_INS = INS_SIGN_MESSAGE"
  by (simp_all only: uploads_transaction_def uploads_message_def)

lemma spec_step_phase:
  assumes "spec_step P sha256 job e out job'"
  shows "phase_of job' = next_phase (phase_of job) e out"
  using assms
proof (induction rule: spec_step.induct)
  case (key apdu path msg k c job)
  from key(1) key_reply_not_status [OF key(5)] show ?case by (simp add: next_phase_def instruction_defs)
qed (simp_all add: next_phase_def sw_bytes_inject uploads_instruction instruction_defs)

text \<open>The simulation, on the states that are in order.\<close>

interpretation promise: simulation "session_step P" "spec_step P sha256" "carries_out P hashed sha256"
    "\<lambda>st. session_ok st \<and> platform_ok P \<and> incremental_hash P hashed sha256" phase_of patient next_phase
  for P hashed sha256
proof
  fix s s' :: "'a app_state" and e out
  assume "session_step P s e out s'" "session_ok s \<and> platform_ok P \<and> incremental_hash P hashed sha256"
  then show "session_ok s' \<and> platform_ok P \<and> incremental_hash P hashed sha256"
    using session_step_ok by blast
next
  fix s s' :: "'a app_state" and e out job
  assume "session_step P s e out s'" "session_ok s \<and> platform_ok P \<and> incremental_hash P hashed sha256"
    "carries_out P hashed sha256 job s" "patient (phase_of job) e"
  then show "\<exists>job'. spec_step P sha256 job e out job' \<and> carries_out P hashed sha256 job' s'"
    using step_refines by blast
qed (rule spec_step_phase)

text \<open>The data of the chunks sent since the last first one.\<close>

definition add_chunk :: "u8 list \<Rightarrow> event \<Rightarrow> u8 list" where
  "add_chunk sent_data e =
     (case e of
        Command apdu \<Rightarrow>
          if apdu ! OFFSET_INS \<noteq> INS_SIGN_TX \<and> apdu ! OFFSET_INS \<noteq> INS_SIGN_MESSAGE then sent_data
          else if apdu ! OFFSET_P1 = P1_FIRST then drop OFFSET_CDATA apdu
          else sent_data @ drop OFFSET_CDATA apdu
      | _ \<Rightarrow> sent_data)"

definition uploaded :: "(event \<times> effect) list \<Rightarrow> u8 list" where
  "uploaded = along add_chunk []"

fun upload_of :: "job \<Rightarrow> u8 list option" where
  "upload_of (Receiving_transaction path version data) = Some (path_bytes path @ version # data)"
| "upload_of (Reviewing_transaction path version data _) = Some (path_bytes path @ version # data)"
| "upload_of (Receiving_message path flags len data) = Some (path_bytes path @ flags # be_bytes 4 (unat len) @ data)"
| "upload_of (Reviewing_message path flags len data _) = Some (path_bytes path @ flags # be_bytes 4 (unat len) @ data)"
| "upload_of _ = None"

lemma uploads_transaction_chunk:
  assumes "uploads_transaction job apdu path version data" "\<forall>b. upload_of job = Some b \<longrightarrow> b = bs"
  shows "add_chunk bs (Command apdu) = path_bytes path @ version # data"
  using assms unfolding uploads_transaction_def
  by (elim conjE disjE exE) (simp_all add: add_chunk_def chunk_parameter_defs)

lemma uploads_message_chunk:
  assumes "uploads_message job apdu path flags len data" "\<forall>b. upload_of job = Some b \<longrightarrow> b = bs"
  shows "add_chunk bs (Command apdu) = path_bytes path @ flags # be_bytes 4 (unat len) @ data"
  using assms unfolding uploads_message_def
  by (elim conjE disjE exE) (simp_all add: add_chunk_def chunk_parameter_defs instruction_defs del: be_bytes.simps)

lemma spec_step_upload:
  assumes "spec_step P sha256 job e out job'" "\<forall>b. upload_of job = Some b \<longrightarrow> b = bs"
  shows "\<forall>b. upload_of job' = Some b \<longrightarrow> b = add_chunk bs e"
  using assms
proof (induction rule: spec_step.induct)
  case (keep_alive apdu job)
  then show ?case by (simp add: add_chunk_def instruction_defs)
qed (simp_all add: uploads_transaction_chunk uploads_message_chunk del: be_bytes.simps, simp_all add: add_chunk_def)

lemma run_upload:
  assumes "run (spec_step P sha256) Idle tr job" "upload_of job = Some b"
  shows "uploaded tr = b"
proof -
  have "\<forall>b. upload_of job = Some b \<longrightarrow> b = along add_chunk [] tr"
    by (rule run_along [where R = "\<lambda>job bs. \<forall>b. upload_of job = Some b \<longrightarrow> b = bs", OF _ assms(1)])
      (rule spec_step_upload, simp_all)
  with assms(2) show ?thesis by (simp add: uploaded_def)
qed

section \<open>What the client and the user can rely on\<close>

lemma patient_run:
  assumes "run (session_step P) st tr st'" "platform_ok P" "incremental_hash P hashed sha256"
    and "session_ok st" "on_screen st = Main_menu" "keeps_to patient next_phase Free tr"
  shows "\<exists>job. run (spec_step P sha256) Idle tr job \<and> carries_out P hashed sha256 job st'"
  using promise.run_simulated [of P st tr st' hashed sha256 Idle] assms by simp

text \<open>
  C1: For a client that waits, every run of the app from the main menu, with all commands, ticks, pages
  and buttons, is a run of the promise with the same replies and pages, and ends in a state that
  carries out its job: the context holds what was uploaded, and the screen shows what is reviewed.
\<close>

theorem session_keeps_promise:
  assumes "run (session_step P) st tr st'" "platform_ok P" "incremental_hash P hashed sha256"
    and "session_ok st" "on_screen st = Main_menu" "keeps_to patient next_phase Free tr"
  shows "\<exists>job. run (spec_step P sha256) Idle tr job \<and> carries_out P hashed sha256 job st'"
  by (rule patient_run [OF assms])

lemma perform_all_run:
  "perform_all P es st = Some (st', outs) \<Longrightarrow> run (session_step P) st (zip es outs) st'"
proof (induction es arbitrary: st outs)
  case (Cons e es)
  obtain st1 out outs' where 1: "perform P e st = Some (st1, out)" "perform_all P es st1 = Some (st', outs')"
      "outs = out # outs'"
    using Cons.prems by (auto split: option.splits)
  from run.more [OF perform_step [OF 1(1)] Cons.IH [OF 1(2)]] show ?case by (simp add: 1(3))
qed (simp add: run.stop)

lemma start_in_order: "session_ok start_state" "on_screen start_state = Main_menu"
  by (simp_all add: start_state_def apdu_state_def session_ok_def state_ok_def)

text \<open>A message of two bytes in two chunks, its review and its approval.\<close>

definition example_signing :: "event list" where
  "example_signing =
     [Command (command_apdu INS_SIGN_MESSAGE P1_FIRST P2_MORE (example_path_data @ [0, 0, 0, 0, 2, 104])),
      Command (command_apdu INS_SIGN_MESSAGE P1_MORE P2_LAST [105]), Open_page Message_page]"

definition example_signing_run :: "(event \<times> effect) list" where
  "example_signing_run =
     zip example_signing [Reply (sw_bytes SW_OK), Nothing, Show (''Message'', ''hi'')]"

lemma example_signing_run:
  obtains st st' where "run (session_step (example_platform BAGL)) start_state example_signing_run st"
    "session_step (example_platform BAGL) st (Review_button True)
      (Reply (pad 64 (pad 32 (message_prefix 2 @ [104, 105])) @ sw_bytes SW_OK)) st'"
    "on_screen st = Message_flow"
proof -
  have "(case perform_all (example_platform BAGL) example_signing start_state of
      Some (st, outs) \<Rightarrow> outs = [Reply (sw_bytes SW_OK), Nothing, Show (''Message'', ''hi'')] \<and> on_screen st = Message_flow \<and>
        (case perform (example_platform BAGL) (Review_button True) st of
           Some (st', Reply r) \<Rightarrow> r = pad 64 (pad 32 (message_prefix 2 @ [104, 105])) @ sw_bytes SW_OK
         | _ \<Rightarrow> False)
    | None \<Rightarrow> False)"
    by code_simp
  then obtain st where st: "perform_all (example_platform BAGL) example_signing start_state =
      Some (st, [Reply (sw_bytes SW_OK), Nothing, Show (''Message'', ''hi'')])" "on_screen st = Message_flow"
    and reply: "case perform (example_platform BAGL) (Review_button True) st of
      Some (st', Reply r) \<Rightarrow> r = pad 64 (pad 32 (message_prefix 2 @ [104, 105])) @ sw_bytes SW_OK | _ \<Rightarrow> False"
    by (auto split: option.splits)
  from reply show thesis
    by (rule perform_replies) (use that perform_all_run [OF st(1)] st(2) in \<open>auto simp: example_signing_run_def\<close>)
qed

lemma example_signing_patient: "keeps_to patient next_phase Free example_signing_run"
  by (simp add: example_signing_run_def example_signing_def patient_def next_phase_def command_apdu_def
      example_path_data_def offset_defs instruction_defs chunk_parameter_defs sw_bytes_def)

theorem session_keeps_promise_witness:
  "\<exists>st job. run (session_step (example_platform BAGL)) start_state example_signing_run st \<and>
    run (spec_step (example_platform BAGL) (pad 32)) Idle example_signing_run job \<and>
    carries_out (example_platform BAGL) id (pad 32) job st"
proof (rule example_signing_run)
  fix st
  assume st: "run (session_step (example_platform BAGL)) start_state example_signing_run st"
  from session_keeps_promise [OF st example_platform_ok example_incremental_hash start_in_order example_signing_patient] st
  show ?thesis by blast
qed

lemma approval_of_job:
  assumes "run (session_step P) st tr st1" "session_step P st1 (Review_button True) (Reply r) st2"
    and "platform_ok P" "incremental_hash P hashed sha256" "session_ok st" "on_screen st = Main_menu"
    and "keeps_to patient next_phase Free tr"
  obtains job where "run (spec_step P sha256) Idle tr job" "carries_out P hashed sha256 job st1"
    "spec_step P sha256 job (Review_button True) (Reply r) Idle"
proof -
  obtain job where job: "run (spec_step P sha256) Idle tr job" "carries_out P hashed sha256 job st1"
    using patient_run [OF assms(1,3-7)] by blast
  have ok: "state_ok st1"
    using promise.run_keeps [OF assms(1), of hashed sha256] assms(3-5) by (simp add: session_ok_def)
  from assms(2) have "on_screen st1 \<noteq> Main_menu" "on_reviewed P True st1 = Ok (st2, r)"
    by (auto elim: session_step_elims(3))
  from button_refines [OF this job(2) assms(3) ok] have "spec_step P sha256 job (Review_button True) (Reply r) Idle" ..
  with job show thesis by (rule that)
qed

text \<open>
  C2: When the user of a client that waits approves, then what is sent is one of the following, with
  \<open>uploaded tr\<close> the data of the chunks the client has sent, in order. It is the result for the key
  whose address is on the screen; or the signature, with the key of the uploaded path, of exactly the
  uploaded transaction, filled in with the staker proof if it has an empty one, and the screens display
  that transaction; or the signature of the prefixed hash of exactly the uploaded message, and it is that
  message which is reviewed.
\<close>

theorem approved_is_uploaded_and_shown:
  assumes "run (session_step P) st tr st1" "session_step P st1 (Review_button True) (Reply r) st2"
    and "platform_ok P" "incremental_hash P hashed sha256" "session_ok st" "on_screen st = Main_menu"
    and "keeps_to patient next_phase Free tr"
  shows "(\<exists>c h. blake2b P (compress_public_key (publicKey c)) = Some h \<and>
       on_screen st1 = Address_review (shown_address P (take 20 h)) \<and> r = key_result c @ sw_bytes SW_OK) \<or>
    (\<exists>path version tx p screen. uploaded tr = path_bytes path @ version # tx_bytes version tx \<and>
       tx_ok version tx \<and> carries version tx p \<and> on_screen st1 = Transaction_review screen \<and>
       displays P version tx p screen \<and> r = transaction_reply P path version tx p) \<or>
    (\<exists>path flags len data t. uploaded tr = path_bytes path @ flags # be_bytes 4 (unat len) @ data \<and>
       len = of_nat (length data) \<and> message_shown P sha256 data t (on_screen st1) \<and>
       r = message_reply P sha256 path len data)"
proof -
  obtain job where job: "run (spec_step P sha256) Idle tr job" "carries_out P hashed sha256 job st1"
    and step: "spec_step P sha256 job (Review_button True) (Reply r) Idle"
    by (rule approval_of_job [OF assms])
  from step show ?thesis
  proof (cases rule: spec_step.cases)
    case (approve_key result address)
    with job(2) show ?thesis by auto
  next
    case (approve_transaction version tx p data screen path)
    have "uploaded tr = path_bytes path @ version # data"
      by (rule run_upload [OF job(1)]) (simp add: approve_transaction(1))
    moreover have "on_screen st1 = Transaction_review screen" using job(2) by (simp add: approve_transaction(1))
    ultimately show ?thesis using approve_transaction by blast
  next
    case (approve_message path flags len data t)
    have "uploaded tr = path_bytes path @ flags # be_bytes 4 (unat len) @ data"
      by (rule run_upload [OF job(1)]) (simp add: approve_message(1) del: be_bytes.simps)
    moreover have "message_shown P sha256 data t (on_screen st1)" "len = of_nat (length data)"
      using job(2) by (auto simp: approve_message(1) confirming_def)
    ultimately show ?thesis using approve_message by blast
  qed simp
qed

theorem approved_is_uploaded_and_shown_witness:
  "\<exists>st st' path flags len data. run (session_step (example_platform BAGL)) start_state example_signing_run st \<and>
    session_step (example_platform BAGL) st (Review_button True)
      (Reply (message_reply (example_platform BAGL) (pad 32) path len data)) st' \<and>
    uploaded example_signing_run = path_bytes path @ flags # be_bytes 4 (unat len) @ data"
proof (rule example_signing_run)
  fix st st'
  assume st: "run (session_step (example_platform BAGL)) start_state example_signing_run st"
      "session_step (example_platform BAGL) st (Review_button True)
        (Reply (pad 64 (pad 32 (message_prefix 2 @ [104, 105])) @ sw_bytes SW_OK)) st'"
      "on_screen st = Message_flow"
  from approved_is_uploaded_and_shown [OF st(1,2) example_platform_ok example_incremental_hash start_in_order
      example_signing_patient] st
  show ?thesis by (auto simp del: be_bytes.simps) metis
qed

section \<open>The app goes on\<close>

lemma carries_out_continues:
  assumes "carries_out P hashed sha256 job st" "phase_may_send (phase_of job) apdu" "apdu ! OFFSET_P1 = P1_MORE"
  shows "apdu ! OFFSET_INS = INS_SIGN_TX \<Longrightarrow> continues_transaction P st"
    and "apdu ! OFFSET_INS = INS_SIGN_MESSAGE \<Longrightarrow> continues_message P st"
  using assms
  by (cases job; auto simp: continues_transaction_def continues_message_def tx_received_def tx_context_ok_def
      instruction_defs)+

lemma job_upload:
  assumes "carries_out P hashed sha256 job st" "phase_may_send (phase_of job) apdu"
    and "apdu ! OFFSET_INS = INS_SIGN_TX"
    and "uploaded_so_far P (apdu ! OFFSET_P1) (drop OFFSET_CDATA apdu) st version data"
  shows "\<exists>path. uploads_transaction job apdu path version data"
proof (cases "apdu ! OFFSET_P1 = P1_FIRST")
  case True
  with assms(3,4) show ?thesis by (auto simp: uploaded_so_far_def uploads_transaction_def)
next
  case False
  with assms(4) have more: "apdu ! OFFSET_P1 = P1_MORE" by (simp add: uploaded_so_far_def)
  with assms(2,3) obtain path v received where job: "job = Receiving_transaction path v received"
    by (cases job) (auto simp: instruction_defs)
  with assms(1) obtain t where "ctx_req st = Tx t" "tx_received path v received t" by auto
  with assms(3,4) False more job show ?thesis
    by (auto simp: uploaded_so_far_def uploads_transaction_def tx_received_iff)
qed

text \<open>
  C16: A client that waits gets an answer to every command or its review, in every phase, with two
  exceptions in which the app ends: it asks for a public key with a signature of the empty message, or
  its last chunk, on a device with the NBGL interface, completes the upload of a transaction that
  creates a vesting or a hashed time-locked contract.
\<close>

theorem patient_command_answered:
  assumes "carries_out P hashed sha256 job st" "patient (phase_of job) (Command apdu)" "platform_ok P" "session_ok st"
    and "length apdu \<le> IO_APDU_BUFFER_SIZE"
  shows "(\<exists>st' r. session_step P st (Command apdu) (sent r) st') \<or>
    apdu ! OFFSET_INS = INS_GET_PUBLIC_KEY \<and> apdu ! OFFSET_P1 = P1_SIGNATURE \<and>
      (\<exists>path. drop OFFSET_CDATA apdu = path_bytes path) \<or>
    apdu ! OFFSET_P2 = P2_LAST \<and> device P = NBGL \<and>
      (\<exists>path version data. uploads_transaction job apdu path version data \<and> contract_creation P version data)"
proof (cases "nimiq_main_iteration P apdu st :: (sw_t, _) result")
  case (Ok x)
  then show ?thesis using session_step.command [OF assms(5)] by (cases x) blast
next
  case (Err sw)
  then show ?thesis by (simp add: iteration_no_error)
next
  case (Fault f)
  have may_send: "phase_may_send (phase_of job) apdu" using assms(2) by (simp add: patient_def)
  note continues = carries_out_continues [OF assms(1) may_send]
  from command_fault_cases [OF Fault assms(3,4,5)] continues job_upload [OF assms(1) may_send]
  show ?thesis by blast
qed

lemma example_upload_menu: "on_screen example_upload_state = Main_menu"
proof -
  have "(case on_screen example_upload_state of Main_menu \<Rightarrow> True | _ \<Rightarrow> False)" by code_simp
  then show ?thesis by (auto split: shown_screen.splits)
qed

theorem patient_command_answered_witness:
  "\<exists>st' r. session_step (example_platform BAGL) example_upload_state (Command unknown_class) (sent r) st'"
proof -
  have job: "carries_out (example_platform BAGL) id (pad 32) Idle example_upload_state"
    using example_upload_menu by simp
  have "patient (phase_of Idle) (Command unknown_class)" "length unknown_class \<le> IO_APDU_BUFFER_SIZE"
      "unknown_class ! OFFSET_INS = 0"
    by (simp_all add: patient_def unknown_class_def offset_defs instruction_defs IO_APDU_BUFFER_SIZE_def)
  with patient_command_answered [OF job _ example_platform_ok example_upload_ok, of unknown_class] show ?thesis
    by (auto simp: instruction_defs)
qed

lemma replies_Ok: "replies r bs \<Longrightarrow> \<exists>st'. r = Ok (st', bs)"
  by (simp add: replies_def)

text \<open>
  C17: Every review ends: for a client that waits, each of the two buttons is answered, whatever the
  SDK returns, no assertion fails and no memory outside the arrays is touched, and the main menu
  is shown again.
\<close>

theorem review_always_ends:
  assumes "carries_out P hashed sha256 job st" "reviewing job" "platform_ok P" "session_ok st"
  shows "\<exists>st' r. session_step P st (Review_button approved) (Reply r) st' \<and> on_screen st' = Main_menu \<and>
    session_ok st'"
proof -
  have ok: "state_ok st" "apdu_buffer_ok st" using assms(4) by (simp_all add: session_ok_def state_ok_def apdu_buffer_ok_def)
  have no_menu: "on_screen st \<noteq> Main_menu" using screen_of_job(1) [OF assms(1)] assms(2) by blast
  have "\<exists>st' r. on_reviewed P approved st = Ok (st', r)"
  proof (cases approved)
    case False
    have "replies (on_rejected st :: (sw_t, _) result) (sw_bytes SW_DENY)" by (rule rejected [OF ok(2)])
    from replies_Ok [OF this] False show ?thesis by (auto simp: on_reviewed_eq)
  next
    case True
    show ?thesis
    proof (cases job)
      case (Reviewing_key result address)
      then obtain c where c: "on_screen st = Address_review address" "ctx_req st = Pk c" using assms(1) by auto
      have "pk_arrays (req_pk P (ctx_req st))" using ok(1) by (simp add: c(2) state_ok_def)
      then have "replies (on_address_approved P st) (key_result c @ sw_bytes SW_OK)"
        using address_approved [OF _ ok(2), of P] by (simp add: c(2))
      from replies_Ok [OF this] show ?thesis using True by (auto simp: on_reviewed_eq c(1))
    next
      case (Reviewing_transaction path version data screen)
      then obtain t where t: "on_screen st = Transaction_review screen" "ctx_req st = Tx t"
        "tx_reviewed P path version data t screen" using assms(1) by auto
      obtain bs where "replies (on_transaction_approved P st :: (sw_t, _) result) bs"
        by (rule transaction_approved [OF t(3,2) assms(3) ok(2)])
      from replies_Ok [OF this] show ?thesis using True by (auto simp: on_reviewed_eq t(1))
    next
      case (Reviewing_message path flags len data t)
      then obtain m c where m: "message_shown P sha256 data t (on_screen st)" "ctx_req st = Msg m"
        "confirming sha256 path flags len data m c" using assms(1) by auto
      from message_approved [OF m(3,2) assms(3) ok(2)] obtain bs
        where "replies (on_message_approved P st :: (sw_t, _) result) bs" by blast
      from replies_Ok [OF this] m(1) show ?thesis using True
        by (auto simp: on_reviewed_eq message_shown_def split: device.splits)
    qed (use assms(2) in simp_all)
  qed
  then obtain st' r where r: "on_reviewed P approved st = Ok (st', r)" by blast
  from session_step.button [OF no_menu this] have step: "session_step P st (Review_button approved) (Reply r) st'" .
  from session_step_ok [OF step assms(3,4)] on_reviewed_keeps(2) [OF r assms(3) ok(1)] step show ?thesis by blast
qed

theorem review_always_ends_witness:
  "\<exists>job st st' r. carries_out (example_platform BAGL) id (pad 32) job st \<and> reviewing job \<and>
    session_step (example_platform BAGL) st (Review_button False) (Reply r) st'"
proof (rule example_signing_run)
  fix st
  assume st: "run (session_step (example_platform BAGL)) start_state example_signing_run st" "on_screen st = Message_flow"
  obtain job where job: "carries_out (example_platform BAGL) id (pad 32) job st"
    using patient_run [OF st(1) example_platform_ok example_incremental_hash start_in_order example_signing_patient] by blast
  have "session_ok st"
    using promise.run_keeps [OF st(1), of id "pad 32"] start_in_order example_incremental_hash by simp
  moreover have "reviewing job" using screen_of_job(1) [OF job] st(2) by simp
  ultimately show ?thesis using review_always_ends [OF job _ example_platform_ok] job by blast
qed

end
