(* ===== verification/Acceptance.thy ===== *)
theory Acceptance
  imports Protocol
begin

text \<open>
  What the app does not refuse: the converse of the promise of \<open>Protocol\<close> for uploads. A transaction that
  can be displayed, and a message of the announced length if the hashing of the SDK succeeds, are
  accepted chunk by chunk, however they are cut into chunks, and reviewed after the last one. At the
  end, what a client that does not wait is not refused: to replace the bytes of a reviewed transaction.
\<close>

section \<open>Chunks of transactions\<close>

lemma after_path:
  assumes "wf_cursor mem cur" "fst cur \<noteq> None" "view mem cur = path_bytes path @ rest"
    and "1 \<le> length path" "length path \<le> MAX_BIP32_PATH_LENGTH"
  obtains c where "read_bip32_path mem cur = Ok ((path, of_nat (length path)), c)" "wf_cursor mem c"
    "view mem c = rest" "fst c \<noteq> None"
proof -
  have "view mem cur = of_nat (length path) # concat (map (\<lambda>x. be_bytes 4 (unat x)) path) @ rest"
    using assms(3) by (simp add: path_bytes_def)
  from read_bip32_path_encoded [OF assms(1,4,5) this] obtain c where
    c: "read_bip32_path mem cur = Ok ((path, of_nat (length path)), c)" "wf_cursor mem c" "view mem c = rest"
    by blast
  have "fst c \<noteq> None" using read_bip32_path_advance [OF c(1) assms(1)] assms(2) by simp
  with c show thesis by (rule that)
qed

lemma sign_transaction_first_encoded:
  assumes "wf_cursor mem cur" "fst cur \<noteq> None" "tx_arrays t" "view mem cur = path_bytes path @ version # data"
    and "1 \<le> length path" "length path \<le> MAX_BIP32_PATH_LENGTH" "length data \<le> MAX_RAW_TX"
  shows "\<exists>t'. sign_transaction_first mem cur t = Ok t' \<and> tx_received path version data t'"
proof -
  obtain c where c: "read_bip32_path mem cur = Ok ((path, of_nat (length path)), c)" "wf_cursor mem c"
      "view mem c = version # data" "fst c \<noteq> None"
    by (rule after_path [OF assms(1,2,4-6)])
  have v: "read_u8 mem c = Ok (version, advance 1 c)" "wf_cursor mem (advance 1 c)" "view mem (advance 1 c) = data"
    using r8.read_prefix [OF c(2), of "[version]" data] c(3) by simp_all
  obtain p n where at: "advance 1 c = (p, n)" "p \<noteq> None" using c(4) by (metis fst_advance_eq_None prod.exhaust fst_conv)
  have n: "unat n = length data" using length_view [OF v(2)] v(3) by (simp only: at snd_conv)
  have bytes: "bytes_at mem p (length data) = (Ok data :: (sw_t, _) result)"
    by (rule bytes_at_eq [OF _ at(2) _ n [symmetric]]) (use v(2,3) at(1) in simp_all)
  let ?t = "t\<lparr>tx_bip32Path := path @ drop (length path) (tx_bip32Path t), tx_bip32PathLength := of_nat (length path),
    transactionVersion := version, rawTxLength := ucast n, rawTx := data @ drop (length data) (rawTx t)\<rparr>"
  have "sign_transaction_first mem cur t = Ok ?t"
    using c(1) v(1) assms(3,7) n at bytes by (simp add: sign_transaction_first_def tx_arrays_def)
  moreover have "tx_received path version data ?t"
    using assms(3,5-7) n
    by (simp add: tx_received_def tx_arrays_def unat_of_nat MAX_BIP32_PATH_LENGTH_def)
  ultimately show ?thesis by blast
qed

lemma sign_transaction_more_extends:
  assumes "wf_cursor mem cur" "fst cur \<noteq> None" "tx_received path version data t"
    and "length data + length (view mem cur) \<le> MAX_RAW_TX"
  shows "\<exists>t'. sign_transaction_more mem cur t = Ok t' \<and> tx_received path version (data @ view mem cur) t'"
proof -
  have ok: "tx_context_ok t" using assms(3) by (simp add: tx_received_def tx_context_ok_def)
  have new: "bytes_at mem (fst cur) (unat (snd cur)) = (Ok (view mem cur) :: (sw_t, _) result)"
    using bytes_at_view [of mem "fst cur" "snd cur"] assms(1,2) by simp
  have raw: "unat (rawTxLength t) = length data" "length (rawTx t) = 188"
    using assms(3) by (simp_all add: tx_received_def tx_arrays_def MAX_RAW_TX_def)
  have len: "length (view mem cur) = unat (snd cur)" by (rule length_view [OF assms(1)])
  have "unat (rawTxLength t) + unat (ucast (snd cur) :: u32) < 2 ^ LENGTH(32)"
    using raw(1) assms(4) len by (simp add: MAX_RAW_TX_def)
  then have "unat (rawTxLength t + ucast (snd cur)) = length data + unat (snd cur)"
    unfolding unat_add_lem by (simp add: raw(1))
  then obtain t' where t': "sign_transaction_more mem cur t = Ok t'"
    using assms(4) new raw len by (simp add: sign_transaction_more_def Let_def MAX_RAW_TX_def)
  with sign_transaction_more_OkD [OF t' assms(1-3)] show ?thesis by blast
qed

text \<open>The screen depends on nothing of the parser's result but what is shown.\<close>

lemma screen_of_shown:
  assumes "observe shown p = observe shown q"
  shows "ui_transaction_signing d p = ui_transaction_signing d q"
proof -
  have eq: "shown (type_specific p) = shown (type_specific q)" "transaction_type p = transaction_type q"
    "transaction_label_type p = transaction_label_type q" "tx_value p = tx_value q" "tx_fee p = tx_fee q"
    "tx_network p = tx_network q"
    using assms by (simp_all add: observe_def)
  show ?thesis
  proof (cases "type_specific p")
    case (Staking_incoming_tx a)
    then obtain b where b: "type_specific q = Staking_incoming_tx b" "staking_type b = staking_type a"
      "staking_specific b = staking_specific a" "validator_or_staker_address b = validator_or_staker_address a"
      using eq(1) by (cases "type_specific q") auto
    show ?thesis
      by (cases "transaction_type q"; cases d)
        (simp_all add: bagl_ui_transaction_signing_def nbgl_ui_transaction_signing_def Staking_incoming_tx b eq
          ux_transaction_normal_or_staking_outgoing_flow_def ux_transaction_vesting_creation_flow_def
          ux_transaction_htlc_creation_flow_def ux_transaction_staking_incoming_flow_def flow_steps page_defs
          ui_transaction_prepare_review_entries_normal_or_staking_outgoing_def staking_entry_defs
          ui_transaction_prepare_review_entries_staking_incoming_def)
  next
    case (Normal_or_staking_outgoing_tx a)
    then have "p = q" using eq by (cases "type_specific q") auto
    then show ?thesis by simp
  next
    case (Htlc_creation_tx a)
    then have "p = q" using eq by (cases "type_specific q") auto
    then show ?thesis by simp
  next
    case (Vesting_creation_tx a)
    then have "p = q" using eq by (cases "type_specific q") auto
    then show ?thesis by simp
  qed
qed

lemma sign_transaction_rest_reviewable:
  assumes "tx_received path version data t" "reviewable P version data screen" "platform_ok P"
  shows "\<exists>st'. sign_transaction_rest P P2_LAST st t = Ok (st', True) \<and> on_screen st' = Transaction_review screen"
proof -
  obtain tx p out where r: "version = TRANSACTION_VERSION_LEGACY \<or> version = TRANSACTION_VERSION_ALBATROSS"
      "tx_ok version tx" "carries version tx p" "data = tx_bytes version tx"
      "tx_display (blake2b P) version tx p = Ok (observe shown out)"
      "ui_transaction_signing (device P) out = (Ok screen :: (sw_t, _) result)"
    using assms(2) unfolding reviewable_def displays_def by blast
  have n: "(ucast (rawTxLength t) :: u16) = of_nat (length data)" and version: "transactionVersion t = version"
    using assms(1) by (simp_all add: tx_received_def) (simp add: word_eq_iff_unsigned [where 'a = nat] unsigned_ucast_eq unat_of_nat take_bit_eq_mod)
  note b = reviewed_buffer [OF assms(1)]
  note parsed = parse_tx_eq [OF r(2,3) hash_ok_platform [OF assms(3)] r(1) b(1), unfolded r(5)]
  then obtain q where q: "parse_tx (blake2b P) (rawTx t) version (Some 0, of_nat (length data)) = Ok q"
      "observe shown q = observe shown out"
    using b(2) r(4) by (auto simp: andthen_eq_Ok)
  have "ui_transaction_signing (device P) q = (Ok screen :: (sw_t, _) result)"
    by (simp add: screen_of_shown [OF q(2)] r(6))
  with q(1) show ?thesis by (simp add: sign_transaction_rest_def n version chunk_parameter_defs to_sw_def)
qed

section \<open>Commands of an upload\<close>

lemma well_formed_length: "wf_apdu apdu \<Longrightarrow> length apdu \<le> IO_APDU_BUFFER_SIZE"
  using unat_bounds(1) [of "apdu ! OFFSET_LC"] by (simp add: wf_apdu_def IO_APDU_BUFFER_SIZE_def OFFSET_CDATA_def)

lemma handled_command:
  assumes "wf_apdu apdu" "handle_apdu P (receive apdu st) = Ok (st1, n, async)"
    and "finish_command SW_OK n async st1 = (Ok (st', r) :: (sw_t, _) result)"
  shows "session_step P st (Command apdu) (sent r) st'"
proof (rule session_step.command)
  show "length apdu \<le> IO_APDU_BUFFER_SIZE" by (rule well_formed_length [OF assms(1)])
  show "nimiq_main_iteration P apdu st = (Ok (st', r) :: (sw_t, _) result)"
    using assms unfolding nimiq_main_iteration_def Let_def wf_apdu_iff [of apdu st] by simp
qed

text \<open>A request that its handler accepts is answered with success, or its review starts.\<close>

lemma handler_accepts:
  assumes "request_handler P h" "platform_ok P" "state_ok st" "wf_apdu apdu"
    and "handle_apdu P (receive apdu st) = h p1 p2 (Some OFFSET_CDATA, ucast (apdu ! OFFSET_LC)) (command_state apdu st)"
    and "h p1 p2 (Some OFFSET_CDATA, ucast (apdu ! OFFSET_LC)) (command_state apdu st) = Ok (st1, 0, async)"
  obtains st' where "session_step P st (Command apdu) (if async then Nothing else Reply (sw_bytes SW_OK)) st'"
    "ctx_req st' = ctx_req st1" "on_screen st' = on_screen st1"
proof -
  note ok = command_state_ok [OF assms(3) well_formed_length [OF assms(4)]]
  have "data_cursor (command_state apdu st) (Some OFFSET_CDATA, ucast (apdu ! OFFSET_LC))"
    using command_data_view(2) [OF assms(4,3) well_formed_length [OF assms(4)]] unfolding data_cursor_def by blast
  then have "\<exists>st'. finish_command SW_OK 0 async st1 = (Ok (st', if async then None
      else Some (take 0 (G_io_apdu_buffer st1) @ sw_bytes SW_OK)) :: (sw_t, _) result) \<and> state_ok st' \<and>
    ctx_u2fTimer st' = ctx_u2fTimer (command_state apdu st) \<and> ctx_req st' = ctx_req st1 \<and> on_screen st' = on_screen st1"
    by (rule request_handler.finished [OF assms(1,2) ok _ assms(6)])
  then obtain st' where
    st': "finish_command SW_OK 0 async st1 = (Ok (st', if async then None else Some (sw_bytes SW_OK)) :: (sw_t, _) result)"
      "ctx_req st' = ctx_req st1" "on_screen st' = on_screen st1" by auto
  from handled_command [OF assms(4) _ st'(1)] assms(5,6) st'(2,3) show thesis
    by (intro that [of st']) (auto simp: sent_def split: if_splits)
qed

lemma transaction_accepts:
  assumes "transaction_command P apdu st = Ok (st1, async)" "platform_ok P" "state_ok st" "wf_apdu apdu"
    and "apdu ! OFFSET_CLA = CLA" "apdu ! OFFSET_INS = INS_SIGN_TX"
  obtains st' where "session_step P st (Command apdu) (if async then Nothing else Reply (sw_bytes SW_OK)) st'"
    "ctx_req st' = ctx_req st1" "on_screen st' = on_screen st1"
  by (rule handler_accepts [OF transaction_requests.request_handler_axioms assms(2-4)])
    (use assms in \<open>auto simp: handle_apdu_received instruction_defs transaction_command_def no_result_Ok intro: that\<close>)

lemma message_accepts:
  assumes "message_command P apdu st = Ok (st1, async)" "platform_ok P" "state_ok st" "wf_apdu apdu"
    and "apdu ! OFFSET_CLA = CLA" "apdu ! OFFSET_INS = INS_SIGN_MESSAGE"
  obtains st' where "session_step P st (Command apdu) (if async then Nothing else Reply (sw_bytes SW_OK)) st'"
    "ctx_req st' = ctx_req st1" "on_screen st' = on_screen st1"
  by (rule handler_accepts [OF message_requests.request_handler_axioms assms(2-4)])
    (use assms in \<open>auto simp: handle_apdu_received instruction_defs message_command_def no_result_Ok intro: that\<close>)

section \<open>Accepted chunks of a transaction\<close>

lemma transaction_chunk_read:
  assumes "uploads_transaction job apdu path version data" "length data \<le> MAX_RAW_TX"
    and "carries_out P hashed sha256 job st" "platform_ok P" "state_ok st" "wf_apdu apdu"
    and "apdu ! OFFSET_P2 = P2_LAST \<or> apdu ! OFFSET_P2 = P2_MORE"
  obtains t where "tx_received path version data t"
    "transaction_command P apdu st = sign_transaction_rest P (apdu ! OFFSET_P2) (command_state apdu st) t"
proof -
  let ?mem = "G_io_apdu_buffer (command_state apdu st)" and ?cur = "(Some OFFSET_CDATA, ucast (apdu ! OFFSET_LC) :: u16)"
  note view = command_data_view [OF assms(6,5) well_formed_length [OF assms(6)]]
  have arrays: "tx_arrays (req_tx P (ctx_req st))"
    using request_members(2) [OF assms(4)] assms(5) by (simp add: state_ok_def)
  show thesis
  proof (cases "apdu ! OFFSET_P1 = P1_FIRST")
    case True
    with assms(1) have first: "view ?mem ?cur = path_bytes path @ version # data" "1 \<le> length path"
        "length path \<le> MAX_BIP32_PATH_LENGTH"
      unfolding view(1) uploads_transaction_def by (auto simp: chunk_parameter_defs)
    obtain t where "sign_transaction_first ?mem ?cur (req_tx P (ctx_req st)) = Ok t" "tx_received path version data t"
      using sign_transaction_first_encoded [OF view(2) _ arrays first assms(2)] by auto
    with assms(7) True show thesis
      by (intro that [of t]) (auto simp: transaction_command_def handle_sign_transaction_def)
  next
    case False
    with assms(1) obtain received where p1: "apdu ! OFFSET_P1 = P1_MORE" "P1_MORE \<noteq> P1_FIRST"
      and job: "job = Receiving_transaction path version received" "data = received @ drop OFFSET_CDATA apdu"
      unfolding uploads_transaction_def by (auto simp: chunk_parameter_defs)
    then obtain t where t: "ctx_req st = Tx t" "tx_received path version received t" using assms(3) by auto
    have "length received + length (view ?mem ?cur) \<le> MAX_RAW_TX" using assms(2) unfolding view(1) job(2) by simp
    from sign_transaction_more_extends [OF view(2) _ t(2) this, unfolded view(1)] obtain t' where
      "sign_transaction_more ?mem ?cur t = Ok t'" "tx_received path version data t'"
      unfolding job(2) by auto
    with assms(7) p1 t(1) show thesis
      by (intro that [of t']) (auto simp: transaction_command_def handle_sign_transaction_def)
  qed
qed

lemma transaction_chunk_accepted:
  assumes "uploads_transaction job apdu path version data" "length data \<le> MAX_RAW_TX"
    and "carries_out P hashed sha256 job st" "\<not> reviewing job" "platform_ok P" "state_ok st" "wf_apdu apdu"
    and "apdu ! OFFSET_CLA = CLA" "apdu ! OFFSET_P2 = P2_MORE"
  shows "\<exists>st'. session_step P st (Command apdu) (Reply (sw_bytes SW_OK)) st' \<and>
    carries_out P hashed sha256 (Receiving_transaction path version data) st'"
proof -
  obtain t where t: "tx_received path version data t"
      "transaction_command P apdu st = sign_transaction_rest P (apdu ! OFFSET_P2) (command_state apdu st) t"
    by (rule transaction_chunk_read [OF assms(1-3,5-7) disjI2 [OF assms(9)]])
  have ins: "apdu ! OFFSET_INS = INS_SIGN_TX" using assms(1) by (simp add: uploads_transaction_def)
  have "transaction_command P apdu st = Ok ((command_state apdu st)\<lparr>ctx_req := Tx t\<rparr>, False)"
    using t(2) assms(9) by (simp add: sign_transaction_rest_def)
  then show ?thesis
    by (rule transaction_accepts [OF _ assms(5-8) ins])
      (use t(1) not_reviewing_menu [OF assms(3,4)] in \<open>auto intro!: exI\<close>)
qed

lemma transaction_last_accepted:
  assumes "uploads_transaction job apdu path version data" "length data \<le> MAX_RAW_TX"
    and "carries_out P hashed sha256 job st" "\<not> reviewing job" "platform_ok P" "state_ok st" "wf_apdu apdu"
    and "apdu ! OFFSET_CLA = CLA" "apdu ! OFFSET_P2 = P2_LAST" "reviewable P version data screen"
  shows "\<exists>st'. session_step P st (Command apdu) Nothing st' \<and>
    carries_out P hashed sha256 (Reviewing_transaction path version data screen) st'"
proof -
  obtain t where t: "tx_received path version data t"
      "transaction_command P apdu st = sign_transaction_rest P (apdu ! OFFSET_P2) (command_state apdu st) t"
    by (rule transaction_chunk_read [OF assms(1-3,5-7) disjI1 [OF assms(9)]])
  have ins: "apdu ! OFFSET_INS = INS_SIGN_TX" using assms(1) by (simp add: uploads_transaction_def)
  obtain st1 where st1: "transaction_command P apdu st = Ok (st1, True)" "on_screen st1 = Transaction_review screen"
    using sign_transaction_rest_reviewable [OF t(1) assms(10,5)] t(2) assms(9) by auto
  have "tx_outcome P P2_LAST path version data (command_state apdu st) st1 True"
    using sign_transaction_rest_OkD [OF _ t(1)] st1(1) t(2) assms(9) by metis
  then obtain t' where t': "ctx_req st1 = Tx t'" "tx_reviewed P path version data t' screen"
    using st1(2) by (auto simp: tx_outcome_def chunk_parameter_defs)
  show ?thesis
    by (rule transaction_accepts [OF st1(1) assms(5-8) ins]) (use t' st1(2) in auto)
qed

section \<open>Chunks of messages\<close>

text \<open>The hypothesis on the SDK: hashing with SHA-256 reports no error.\<close>

definition hashes_succeed :: "'h platform \<Rightarrow> bool" where
  "hashes_succeed P = ((\<forall>h data. hash_update P h data \<noteq> None) \<and> (\<forall>h. hash_final P h \<noteq> None))"

lemma hashes_succeedD:
  assumes "hashes_succeed P"
  obtains h' where "hash_update P h data = Some h'"
  using assms unfolding hashes_succeed_def by (metis option.exhaust)

lemma sign_message_first_encoded:
  assumes "wf_cursor mem cur" "fst cur \<noteq> None" "msg_arrays m" "hashes_succeed P" "incremental_hash P hashed sha256"
    and "view mem cur = path_bytes path @ flags # be_bytes 4 (unat len) @ data"
    and "1 \<le> length path" "length path \<le> MAX_BIP32_PATH_LENGTH"
  shows "\<exists>m' cur'. sign_message_first P mem cur m = Ok (m', cur') \<and> wf_cursor mem cur' \<and> view mem cur' = data \<and>
    receiving hashed path flags len [] m' \<and> message_ok m'"
proof -
  note h = incremental_hashD [OF assms(5)]
  obtain c where c: "read_bip32_path mem cur = Ok ((path, of_nat (length path)), c)" "wf_cursor mem c"
      "view mem c = flags # be_bytes 4 (unat len) @ data"
    by (rule after_path [OF assms(1,2,6-8)])
  have v: "read_u8 mem c = Ok (flags, advance 1 c)" "wf_cursor mem (advance 1 c)"
      "view mem (advance 1 c) = be_bytes 4 (unat len) @ data"
    using r8.read_prefix [OF c(2), of "[flags]" "be_bytes 4 (unat len) @ data"] c(3) by simp_all
  have len: "read_u32 mem (advance 1 c) = Ok (len, advance 4 (advance 1 c))"
      "wf_cursor mem (advance 4 (advance 1 c))" "view mem (advance 4 (advance 1 c)) = data"
    using r32.read_encoded [OF v(2,3)] by simp_all
  obtain g where g: "hash_update P (sha256_init P) MESSAGE_SIGNING_PREFIX = Some g" using assms(4) by (rule hashes_succeedD)
  obtain g' where g': "hash_update P g (map of_char (dec (unat len))) = Some g'" using assms(4) by (rule hashes_succeedD)
  let ?m = "m\<lparr>msg_bip32Path := path @ drop (length path) (msg_bip32Path m), msg_bip32PathLength := of_nat (length path),
    msg_flags := flags, messageLength := len, processedMessageLength := 0,
    isPrintableAscii := (unat len \<le> MAX_PRINTABLE_MESSAGE_LENGTH), msg_union := Prepare (sha256_init P) g'\<rparr>"
  have "sign_message_first P mem cur m = Ok (?m, advance 4 (advance 1 c))"
    using c(1) v(1) len(1) g g' by (simp add: sign_message_first_def snprintf_dec_u32)
  moreover have "receiving hashed path flags len [] ?m"
    using assms(7,8) h(2) [OF g] h(2) [OF g']
    by (simp add: receiving_def message_prefix_def h(1) unat_of_nat MAX_BIP32_PATH_LENGTH_def)
  moreover have "message_ok ?m" using assms(3,8) by (simp add: message_ok_def msg_arrays_def)
  ultimately show ?thesis using len(2,3) by blast
qed

lemma sign_message_data_accepted:
  assumes "wf_cursor mem cur" "message_ok m" "receiving hashed path flags len data m" "hashes_succeed P"
    and "length data + length (view mem cur) \<le> unat len"
  shows "\<exists>m'. sign_message_data P mem cur m = Ok m'"
proof (cases "snd cur = 0")
  case False
  let ?new = "view mem cur"
  have new: "length ?new = unat (snd cur)" using assms(1) by (rule length_view)
  have at: "bytes_at mem (fst cur) (unat (snd cur)) = (Ok ?new :: (sw_t, _) result)"
    using bytes_at_cursor [OF assms(1), of "unat (snd cur)"] new False by (simp add: unat_gt_0)
  have m: "messageLength m = len" "processedMessageLength m = of_nat (length data)"
    using assms(3) by (simp_all add: receiving_def)
  have n: "unat (ucast (snd cur) :: u32) = unat (snd cur)"
    using unat_bounds(2) [of "snd cur"] by (simp add: unsigned_ucast_eq take_bit_nat_eq_self)
  have "processedMessageLength m + ucast (snd cur) = (of_nat (length data + unat (snd cur)) :: u32)"
    by (simp add: m(2))
  moreover have "unat (of_nat (length data + unat (snd cur)) :: u32) = length data + unat (snd cur)"
    unfolding unat_of_nat using assms(5) new unat_bounds(3) [of len] by simp
  ultimately have sum: "unat (processedMessageLength m + ucast (snd cur)) = length data + unat (snd cur)" by simp
  have fits: "\<not> processedMessageLength m + ucast (snd cur) > messageLength m"
    using assms(5) new by (simp only: word_less_nat_alt sum m(1) not_less)
  have "delivers (\<lambda>m'. \<exists>m''. update_hashes P ?new m' = Ok m'') (store_printable ?new m :: (sw_t, _) result)"
  proof (rule delivers_store_printable [OF assms(2) fits new])
    fix bs b
    obtain g g' where "prepare_member P (msg_union m) = (g, g')" by fastforce
    moreover obtain k where "hash_update P g ?new = Some k" using assms(4) by (rule hashes_succeedD)
    moreover obtain k' where "hash_update P g' ?new = Some k'" using assms(4) by (rule hashes_succeedD)
    ultimately show "\<exists>m''. update_hashes P ?new (m\<lparr>printableMessage := bs, isPrintableAscii := b\<rparr>) = Ok m''"
      by (simp add: update_hashes_def)
  qed
  moreover have "reports (\<lambda>_. False) (store_printable ?new m :: (sw_t, _) result)"
    by (auto simp: store_printable_def intro!: reports_intros)
  ultimately obtain m1 m2 where "store_printable ?new m = (Ok m1 :: (sw_t, _) result)" "update_hashes P ?new m1 = Ok m2"
    by (cases "store_printable ?new m :: (sw_t, _) result") (auto simp: reports_no_error)
  with False fits at show ?thesis by (simp add: sign_message_data_def)
qed (simp add: sign_message_data_def)

lemma sign_message_hashes_accepted:
  assumes "hashes_succeed P" "receiving hashed path flags len data m" "len = of_nat (length data)"
  shows "\<exists>m'. sign_message_hashes P m = Ok m'"
proof -
  obtain g g' where "prepare_member P (msg_union m) = (g, g')" by fastforce
  moreover obtain d d' where "hash_final P g = Some d" "hash_final P g' = Some d'"
    using assms(1) unfolding hashes_succeed_def by (metis option.exhaust)
  moreover have "processedMessageLength m = messageLength m" using assms(2,3) by (simp add: receiving_def)
  ultimately show ?thesis by (simp add: sign_message_hashes_def)
qed

section \<open>Accepted chunks of a message\<close>

lemma ui_message_signing_accepted:
  assumes "platform_ok P" "length (G_io_apdu_buffer st) = IO_APDU_BUFFER_SIZE" "message_ok m"
  shows "\<exists>st'. ui_message_signing P (message_display_type m) (st\<lparr>ctx_req := Msg m\<rparr>) = (Ok st' :: (sw_t, _) result)"
proof -
  let ?r = "ui_message_signing P (message_display_type m) (st\<lparr>ctx_req := Msg m\<rparr>) :: (sw_t, _) result"
  have "delivers (\<lambda>_. True) ?r"
    by (rule delivers_ui_message_signing [OF assms(1)]) (use assms(2,3) display_type_fits [OF assms(3)] in simp_all)
  moreover have "reports (\<lambda>_. False) ?r" by (rule reports_ui_message_signing)
  ultimately show ?thesis by (cases ?r) (auto simp: reports_no_error)
qed

lemma sign_message_chunk_accepted:
  assumes "platform_ok P" "length (G_io_apdu_buffer st) = IO_APDU_BUFFER_SIZE" "hashes_succeed P"
    and "incremental_hash P hashed sha256" "wf_cursor (G_io_apdu_buffer st) cur" "message_ok m"
    and "receiving hashed path flags len data m" "data' = data @ view (G_io_apdu_buffer st) cur"
    and "p2 = P2_MORE \<and> length data' \<le> unat len \<or> p2 = P2_LAST \<and> length data' = unat len"
  shows "\<exists>st'. sign_message_chunk P p2 m cur st = Ok (st', p2 = P2_LAST)"
proof -
  have "length data + length (view (G_io_apdu_buffer st) cur) \<le> unat len" using assms(9) by (auto simp: assms(8))
  from sign_message_data_accepted [OF assms(5-7,3) this] obtain m1 where
    m1: "sign_message_data P (G_io_apdu_buffer st) cur m = Ok m1" by blast
  have ok: "message_ok m1" by (rule deliversD [OF delivers_sign_message_data [OF assms(6,5)] m1])
  have r: "receiving hashed path flags len data' m1"
    using sign_message_data_OkD(1) [OF m1 assms(5,4) message_ok_arrays [OF assms(6)] assms(7)] by (simp add: assms(8))
  show ?thesis
  proof (cases "p2 = P2_MORE")
    case True
    then show ?thesis by (simp add: sign_message_chunk_def m1 chunk_parameter_defs)
  next
    case False
    then have last: "p2 = P2_LAST" "length data' = unat len" using assms(9) by auto
    have "len = of_nat (length data')" by (simp add: last(2))
    from sign_message_hashes_accepted [OF assms(3) r this] obtain m2 where m2: "sign_message_hashes P m1 = Ok m2" by blast
    have "message_ok m2"
      by (rule deliversD [OF delivers_sign_message_hashes [OF assms(1) ok] m2])
    from ui_message_signing_accepted [OF assms(1,2) this] obtain st' where
      "ui_message_signing P (message_display_type m2) (st\<lparr>ctx_req := Msg m2\<rparr>) = (Ok st' :: (sw_t, _) result)" by blast
    with last(1) m1 m2 show ?thesis by (simp add: sign_message_chunk_def chunk_parameter_defs)
  qed
qed

lemma message_command_accepted:
  assumes "uploads_message job apdu path flags len data" "carries_out P hashed sha256 job st" "platform_ok P"
    and "hashes_succeed P" "incremental_hash P hashed sha256" "state_ok st" "wf_apdu apdu"
    and p2: "apdu ! OFFSET_P2 = P2_MORE \<and> length data \<le> unat len \<or> apdu ! OFFSET_P2 = P2_LAST \<and> length data = unat len"
  shows "\<exists>st1. message_command P apdu st = Ok (st1, apdu ! OFFSET_P2 = P2_LAST) \<and>
    message_outcome P hashed sha256 (apdu ! OFFSET_P2) path flags len data st1 (apdu ! OFFSET_P2 = P2_LAST)"
proof -
  let ?st = "command_state apdu st" and ?cur = "(Some OFFSET_CDATA, ucast (apdu ! OFFSET_LC) :: u16)"
  note view = command_data_view [OF assms(7,6) well_formed_length [OF assms(7)]]
  have "state_ok ?st" by (rule command_state_ok [OF assms(6) well_formed_length [OF assms(7)]])
  then have buf: "length (G_io_apdu_buffer ?st) = IO_APDU_BUFFER_SIZE" unfolding state_ok_def by blast
  have arrays: "msg_arrays (req_msg P (ctx_req st))"
    using request_members(3) [OF assms(3)] assms(6) by (simp add: state_ok_def)
  have p2': "apdu ! OFFSET_P2 = P2_LAST \<or> apdu ! OFFSET_P2 = P2_MORE" using p2 by blast
  have finish: ?thesis if r:
    "message_command P apdu st = sign_message_chunk P (apdu ! OFFSET_P2) m cur ?st"
    "wf_cursor (G_io_apdu_buffer ?st) cur" "message_ok m" "receiving hashed path flags len received m"
    "data = received @ view (G_io_apdu_buffer ?st) cur" for m cur received
  proof -
    obtain st1 where "message_command P apdu st = Ok (st1, apdu ! OFFSET_P2 = P2_LAST)"
      using sign_message_chunk_accepted [OF assms(3) buf assms(4,5) r(2-5) p2] r(1) by auto
    with Message_Signing.message_chunk [OF _ p2' assms(3) buf r(2) assms(5) r(3,4)] r(1,5) show ?thesis by metis
  qed
  show ?thesis
  proof (cases "apdu ! OFFSET_P1 = P1_FIRST")
    case True
    with assms(1) have first: "view (G_io_apdu_buffer ?st) ?cur = path_bytes path @ flags # be_bytes 4 (unat len) @ data"
        "1 \<le> length path" "length path \<le> MAX_BIP32_PATH_LENGTH"
      unfolding view(1) uploads_message_def by (auto simp: chunk_parameter_defs)
    have "fst ?cur \<noteq> None" by simp
    from sign_message_first_encoded [OF view(2) this arrays assms(4,5) first] obtain m cur where
      "sign_message_first P (G_io_apdu_buffer ?st) ?cur (req_msg P (ctx_req st)) = Ok (m, cur)"
      "wf_cursor (G_io_apdu_buffer ?st) cur" "view (G_io_apdu_buffer ?st) cur = data"
      "receiving hashed path flags len [] m" "message_ok m" by blast
    with True p2' show ?thesis
      by (intro finish [of m cur "[]"]) (auto simp: message_command_def handle_sign_message_def)
  next
    case False
    with assms(1) obtain received where p1: "apdu ! OFFSET_P1 = P1_MORE" "P1_MORE \<noteq> P1_FIRST"
      and job: "job = Receiving_message path flags len received" "data = received @ drop OFFSET_CDATA apdu"
      unfolding uploads_message_def by (auto simp: chunk_parameter_defs)
    then obtain m where m: "ctx_req st = Msg m" "message_ok m" "receiving hashed path flags len received m"
      using assms(2) by auto
    show ?thesis
      by (rule finish [OF _ view(2) m(2,3)])
        (use p1 p2' m(1) view(1) job(2) in \<open>auto simp: message_command_def handle_sign_message_def\<close>)
  qed
qed

lemma message_chunk_accepted:
  assumes "uploads_message job apdu path flags len data" "length data \<le> unat len"
    and "carries_out P hashed sha256 job st" "\<not> reviewing job" "platform_ok P" "state_ok st" "wf_apdu apdu"
    and "apdu ! OFFSET_CLA = CLA" "apdu ! OFFSET_P2 = P2_MORE" "hashes_succeed P" "incremental_hash P hashed sha256"
  shows "\<exists>st'. session_step P st (Command apdu) (Reply (sw_bytes SW_OK)) st' \<and>
    carries_out P hashed sha256 (Receiving_message path flags len data) st'"
proof -
  have ins: "apdu ! OFFSET_INS = INS_SIGN_MESSAGE" using assms(1) by (simp add: uploads_message_def)
  have "\<not> (apdu ! OFFSET_P2 = P2_LAST)" using assms(9) by (simp add: chunk_parameter_defs)
  with message_command_accepted [OF assms(1,3,5,10,11,6,7) disjI1] assms(2,9) obtain st1 where
    st1: "message_command P apdu st = Ok (st1, False)" "message_outcome P hashed sha256 P2_MORE path flags len data st1 False"
    by auto
  have "on_screen st1 = Main_menu"
    using handle_sign_message_arrays [OF st1(1) [unfolded message_command_def] assms(5)
      command_state_ok [OF assms(6) well_formed_length [OF assms(7)]]
      command_data_view(2) [OF assms(7,6) well_formed_length [OF assms(7)]]] not_reviewing_menu [OF assms(3,4)] by simp
  with st1(2) have "carries_out P hashed sha256 (Receiving_message path flags len data) st1"
    by (auto simp: message_outcome_def)
  then show ?thesis
    by (rule_tac message_accepts [OF st1(1) assms(5-8) ins]) (use carries_out_cong in fastforce)
qed

lemma message_last_accepted:
  assumes "uploads_message job apdu path flags len data" "length data = unat len"
    and "carries_out P hashed sha256 job st" "\<not> reviewing job" "platform_ok P" "state_ok st" "wf_apdu apdu"
    and "apdu ! OFFSET_CLA = CLA" "apdu ! OFFSET_P2 = P2_LAST" "hashes_succeed P" "incremental_hash P hashed sha256"
  shows "\<exists>st'. session_step P st (Command apdu) Nothing st' \<and>
    carries_out P hashed sha256 (Reviewing_message path flags len data (default_display flags len data)) st'"
proof -
  have ins: "apdu ! OFFSET_INS = INS_SIGN_MESSAGE" using assms(1) by (simp add: uploads_message_def)
  from message_command_accepted [OF assms(1,3,5,10,11,6,7) disjI2] assms(2,9) obtain st1 where
    st1: "message_command P apdu st = Ok (st1, True)" "message_outcome P hashed sha256 P2_LAST path flags len data st1 True"
    by auto
  from message_outcome_screen [OF st1(2)]
  have "carries_out P hashed sha256 (Reviewing_message path flags len data (default_display flags len data)) st1" by blast
  then show ?thesis
    by (rule_tac message_accepts [OF st1(1) assms(5-8) ins]) (simp only: if_True, blast intro: carries_out_cong)
qed

section \<open>Whole uploads\<close>

text \<open>
  An upload as a client makes it: the head of the request in front of the first chunk, all chunks but
  the last one marked as such and answered with success, the last one answered by the review.
\<close>

definition chunk_data :: "u8 list \<Rightarrow> u8 \<Rightarrow> u8 list \<Rightarrow> u8 list" where
  "chunk_data head p1 chunk = (if p1 = P1_FIRST then head @ chunk else chunk)"

fun upload_from :: "u8 \<Rightarrow> u8 list \<Rightarrow> u8 \<Rightarrow> u8 list list \<Rightarrow> (event \<times> effect) list" where
  "upload_from ins head p1 [] = []"
| "upload_from ins head p1 [c] = [(Command (command_apdu ins p1 P2_LAST (chunk_data head p1 c)), Nothing)]"
| "upload_from ins head p1 (c # c' # cs) =
     (Command (command_apdu ins p1 P2_MORE (chunk_data head p1 c)), Reply (sw_bytes SW_OK)) #
       upload_from ins head P1_MORE (c' # cs)"

definition upload :: "u8 \<Rightarrow> u8 list \<Rightarrow> u8 list list \<Rightarrow> (event \<times> effect) list" where
  "upload ins head chunks = upload_from ins head P1_FIRST chunks"

text \<open>The chunks fit into commands, whose data are at most 255 bytes.\<close>

definition chunks_fit :: "u8 list \<Rightarrow> u8 \<Rightarrow> u8 list list \<Rightarrow> bool" where
  "chunks_fit head p1 chunks =
     (chunks \<noteq> [] \<and> length (chunk_data head p1 (hd chunks)) \<le> 255 \<and> list_all (\<lambda>c. length c \<le> 255) (tl chunks))"

text \<open>
  What the handler of an upload promises: \<open>ready\<close> is the state before a chunk, with its first parameter
  and the bytes received so far, \<open>whole\<close> the uploads that can be reviewed.
\<close>

locale chunked_upload =
  fixes step :: "'s \<Rightarrow> event \<Rightarrow> effect \<Rightarrow> 's \<Rightarrow> bool"
    and ins :: u8
    and head :: "u8 list"
    and ready :: "u8 \<Rightarrow> u8 list \<Rightarrow> 's \<Rightarrow> bool"
    and whole :: "u8 list \<Rightarrow> bool"
    and complete :: "u8 list \<Rightarrow> 's \<Rightarrow> bool"
  assumes chunk: "ready p1 received s \<Longrightarrow> whole (received @ c @ rest) \<Longrightarrow> length (chunk_data head p1 c) \<le> 255 \<Longrightarrow>
      \<exists>s'. step s (Command (command_apdu ins p1 P2_MORE (chunk_data head p1 c))) (Reply (sw_bytes SW_OK)) s' \<and>
        ready P1_MORE (received @ c) s'"
    and last_chunk: "ready p1 received s \<Longrightarrow> whole (received @ c) \<Longrightarrow> length (chunk_data head p1 c) \<le> 255 \<Longrightarrow>
      \<exists>s'. step s (Command (command_apdu ins p1 P2_LAST (chunk_data head p1 c))) Nothing s' \<and>
        complete (received @ c) s'"
begin

lemma completes:
  "ready p1 received s \<Longrightarrow> whole (received @ concat cs) \<Longrightarrow> chunks_fit head p1 cs \<Longrightarrow>
    \<exists>s'. run step s (upload_from ins head p1 cs) s' \<and> complete (received @ concat cs) s'"
proof (induction cs arbitrary: p1 received s rule: induct_list012)
  case 1
  then show ?case by (simp add: chunks_fit_def)
next
  case (2 c)
  then obtain s' where "step s (Command (command_apdu ins p1 P2_LAST (chunk_data head p1 c))) Nothing s'"
      "complete (received @ c) s'"
    using last_chunk [OF 2(1), of c] by (auto simp: chunks_fit_def)
  then show ?case by (auto intro: run.intros)
next
  case (3 c c' cs)
  have fit: "length (chunk_data head p1 c) \<le> 255" "chunks_fit head P1_MORE (c' # cs)"
    using 3(5) by (simp_all add: chunks_fit_def chunk_data_def chunk_parameter_defs)
  have "whole (received @ c @ concat (c' # cs))" using 3(4) by simp
  from chunk [OF 3(3) this fit(1)] obtain s1 where
    s1: "step s (Command (command_apdu ins p1 P2_MORE (chunk_data head p1 c))) (Reply (sw_bytes SW_OK)) s1"
      "ready P1_MORE (received @ c) s1" by blast
  from 3(2) [OF s1(2) _ fit(2)] 3(4) s1(1) show ?case by (auto intro: run.more)
qed

end

lemma command_apdu_simps [simp]:
  "length c \<le> 255 \<Longrightarrow> wf_apdu (command_apdu ins p1 p2 c)"
  "command_apdu ins p1 p2 c ! OFFSET_CLA = CLA" "command_apdu ins p1 p2 c ! OFFSET_INS = ins"
  "command_apdu ins p1 p2 c ! OFFSET_P1 = p1" "command_apdu ins p1 p2 c ! OFFSET_P2 = p2"
  "drop OFFSET_CDATA (command_apdu ins p1 p2 c) = c"
  by (simp_all add: command_apdu_def wf_apdu_def offset_defs unat_of_nat)

text \<open>
  A state that is ready for a chunk carries out the upload so far, or before the first chunk any job
  that is not a review.
\<close>

definition in_order ::
    "'h platform \<Rightarrow> ('h \<Rightarrow> u8 list) \<Rightarrow> (u8 list \<Rightarrow> u8 list) \<Rightarrow> job \<Rightarrow> 'h app_state \<Rightarrow> bool" where
  "in_order P hashed sha256 job st = (platform_ok P \<and> session_ok st \<and> carries_out P hashed sha256 job st)"

definition ready_for ::
    "'h platform \<Rightarrow> ('h \<Rightarrow> u8 list) \<Rightarrow> (u8 list \<Rightarrow> u8 list) \<Rightarrow> (u8 list \<Rightarrow> job) \<Rightarrow> u8 \<Rightarrow> u8 list \<Rightarrow> 'h app_state \<Rightarrow> bool" where
  "ready_for P hashed sha256 job_of p1 received st =
     (p1 = P1_FIRST \<and> received = [] \<and> (\<exists>job. \<not> reviewing job \<and> in_order P hashed sha256 job st) \<or>
      p1 = P1_MORE \<and> in_order P hashed sha256 (job_of received) st)"

lemma step_in_order:
  assumes "session_step P st e out st'" "carries_out P hashed sha256 job' st'" "in_order P hashed sha256 job st"
  shows "in_order P hashed sha256 job' st'"
  using session_step_ok [OF assms(1)] assms(2,3) by (simp add: in_order_def)

lemma ready_uploads_transaction:
  assumes "ready_for P hashed sha256 (Receiving_transaction path version) p1 received st" "1 \<le> length path"
    and "length path \<le> MAX_BIP32_PATH_LENGTH" "data = chunk_data (path_bytes path @ [version]) p1 c"
  obtains job where "uploads_transaction job (command_apdu INS_SIGN_TX p1 p2 data) path version (received @ c)"
    "\<not> reviewing job" "in_order P hashed sha256 job st"
  using assms
  by (auto simp: ready_for_def uploads_transaction_def chunk_data_def chunk_parameter_defs intro: that)

lemma ready_uploads_message:
  assumes "ready_for P hashed sha256 (Receiving_message path flags len) p1 received st" "1 \<le> length path"
    and "length path \<le> MAX_BIP32_PATH_LENGTH" "data = chunk_data (path_bytes path @ flags # be_bytes 4 (unat len)) p1 c"
  obtains job where "uploads_message job (command_apdu INS_SIGN_MESSAGE p1 p2 data) path flags len (received @ c)"
    "\<not> reviewing job" "in_order P hashed sha256 job st"
  using assms
  by (auto simp: ready_for_def uploads_message_def chunk_data_def chunk_parameter_defs simp del: be_bytes.simps intro: that)

definition whole_transaction ::
    "'h platform \<Rightarrow> u32 list \<Rightarrow> transaction_version_t \<Rightarrow> screen \<Rightarrow> u8 list \<Rightarrow> bool" where
  "whole_transaction P path version screen data =
     (1 \<le> length path \<and> length path \<le> MAX_BIP32_PATH_LENGTH \<and> length data \<le> MAX_RAW_TX \<and>
      reviewable P version data screen)"

definition whole_message ::
    "'h platform \<Rightarrow> ('h \<Rightarrow> u8 list) \<Rightarrow> (u8 list \<Rightarrow> u8 list) \<Rightarrow> u32 list \<Rightarrow> u32 \<Rightarrow> u8 list \<Rightarrow> bool" where
  "whole_message P hashed sha256 path len data =
     (1 \<le> length path \<and> length path \<le> MAX_BIP32_PATH_LENGTH \<and> hashes_succeed P \<and> incremental_hash P hashed sha256 \<and>
      length data = unat len)"

interpretation transaction_upload: chunked_upload "session_step P" INS_SIGN_TX "path_bytes path @ [version]"
  "ready_for P hashed sha256 (Receiving_transaction path version)" "whole_transaction P path version screen"
  "\<lambda>data. in_order P hashed sha256 (Reviewing_transaction path version data screen)"
  for P path version hashed sha256 screen
proof (unfold_locales, goal_cases)
  case (1 p1 received st c rest)
  then have w: "1 \<le> length path" "length path \<le> MAX_BIP32_PATH_LENGTH" "length (received @ c) \<le> MAX_RAW_TX"
    by (simp_all add: whole_transaction_def)
  let ?apdu = "command_apdu INS_SIGN_TX p1 P2_MORE (chunk_data (path_bytes path @ [version]) p1 c)"
  obtain job where job: "uploads_transaction job ?apdu path version (received @ c)" "\<not> reviewing job"
      "in_order P hashed sha256 job st"
    by (rule ready_uploads_transaction [OF 1(1) w(1,2) refl])
  then obtain st' where "session_step P st (Command ?apdu) (Reply (sw_bytes SW_OK)) st'"
      "carries_out P hashed sha256 (Receiving_transaction path version (received @ c)) st'"
    using transaction_chunk_accepted [OF job(1) w(3), of P hashed sha256 st] 1(3)
    by (auto simp: in_order_def session_ok_def)
  with step_in_order [OF this job(3)] show ?case by (auto simp: ready_for_def)
next
  case (2 p1 received st c)
  then have w: "1 \<le> length path" "length path \<le> MAX_BIP32_PATH_LENGTH" "length (received @ c) \<le> MAX_RAW_TX"
      "reviewable P version (received @ c) screen"
    by (simp_all add: whole_transaction_def)
  let ?apdu = "command_apdu INS_SIGN_TX p1 P2_LAST (chunk_data (path_bytes path @ [version]) p1 c)"
  obtain job where job: "uploads_transaction job ?apdu path version (received @ c)" "\<not> reviewing job"
      "in_order P hashed sha256 job st"
    by (rule ready_uploads_transaction [OF 2(1) w(1,2) refl])
  then obtain st' where "session_step P st (Command ?apdu) Nothing st'"
      "carries_out P hashed sha256 (Reviewing_transaction path version (received @ c) screen) st'"
    using transaction_last_accepted [OF job(1) w(3), of P hashed sha256 st screen] 2(3) w(4)
    by (auto simp: in_order_def session_ok_def)
  with step_in_order [OF this job(3)] show ?case by blast
qed

interpretation message_upload: chunked_upload "session_step P" INS_SIGN_MESSAGE
  "path_bytes path @ flags # be_bytes 4 (unat len)"
  "ready_for P hashed sha256 (Receiving_message path flags len)" "whole_message P hashed sha256 path len"
  "\<lambda>data. in_order P hashed sha256 (Reviewing_message path flags len data (default_display flags len data))"
  for P path flags len hashed sha256
proof (unfold_locales, goal_cases)
  case (1 p1 received st c rest)
  then have w: "1 \<le> length path" "length path \<le> MAX_BIP32_PATH_LENGTH" "length (received @ c) \<le> unat len"
      "hashes_succeed P" "incremental_hash P hashed sha256"
    by (simp_all add: whole_message_def)
  let ?apdu = "command_apdu INS_SIGN_MESSAGE p1 P2_MORE (chunk_data (path_bytes path @ flags # be_bytes 4 (unat len)) p1 c)"
  obtain job where job: "uploads_message job ?apdu path flags len (received @ c)" "\<not> reviewing job"
      "in_order P hashed sha256 job st"
    by (rule ready_uploads_message [OF 1(1) w(1,2) refl])
  then obtain st' where "session_step P st (Command ?apdu) (Reply (sw_bytes SW_OK)) st'"
      "carries_out P hashed sha256 (Receiving_message path flags len (received @ c)) st'"
    using message_chunk_accepted [OF job(1) w(3) _ _ _ _ _ _ _ w(4,5), of st] 1(3)
    by (auto simp: in_order_def session_ok_def)
  with step_in_order [OF this job(3)] show ?case by (auto simp: ready_for_def)
next
  case (2 p1 received st c)
  then have w: "1 \<le> length path" "length path \<le> MAX_BIP32_PATH_LENGTH" "length (received @ c) = unat len"
      "hashes_succeed P" "incremental_hash P hashed sha256"
    by (simp_all add: whole_message_def)
  let ?apdu = "command_apdu INS_SIGN_MESSAGE p1 P2_LAST (chunk_data (path_bytes path @ flags # be_bytes 4 (unat len)) p1 c)"
  obtain job where job: "uploads_message job ?apdu path flags len (received @ c)" "\<not> reviewing job"
      "in_order P hashed sha256 job st"
    by (rule ready_uploads_message [OF 2(1) w(1,2) refl])
  then obtain st' where "session_step P st (Command ?apdu) Nothing st'"
      "carries_out P hashed sha256 (Reviewing_message path flags len (received @ c)
        (default_display flags len (received @ c))) st'"
    using message_last_accepted [OF job(1) w(3) _ _ _ _ _ _ _ w(4,5), of st] 2(3)
    by (auto simp: in_order_def session_ok_def)
  with step_in_order [OF this job(3)] show ?case by blast
qed

section \<open>Requests are served\<close>

lemma transaction_review_approved:
  assumes "in_order P hashed sha256 (Reviewing_transaction path version data screen) st"
  shows "\<exists>tx p st'. tx_ok version tx \<and> carries version tx p \<and> data = tx_bytes version tx \<and>
    session_step P st (Review_button True) (Reply (transaction_reply P path version tx p)) st'"
proof -
  have ok: "platform_ok P" "apdu_buffer_ok st" and screen: "on_screen st = Transaction_review screen"
    using assms by (auto simp: in_order_def session_ok_def state_ok_def apdu_buffer_ok_def)
  obtain t where t: "ctx_req st = Tx t" "tx_reviewed P path version data t screen"
    using assms by (auto simp: in_order_def)
  obtain tx p where tx: "tx_ok version tx" "carries version tx p" "data = tx_bytes version tx"
    "replies (on_transaction_approved P st :: (sw_t, _) result) (transaction_reply P path version tx p)"
    by (rule transaction_approved [OF t(2,1) ok])
  from replies_Ok [OF tx(4)] obtain st1 where
    "on_transaction_approved P st = (Ok (st1, transaction_reply P path version tx p) :: (sw_t, _) result)" by blast
  then have "on_reviewed P True st = Ok (st1\<lparr>on_screen := Main_menu\<rparr>, transaction_reply P path version tx p)"
    by (simp add: on_reviewed_eq screen)
  from session_step.button [OF _ this] screen tx(1-3) show ?thesis by auto
qed

lemma message_review_approved:
  assumes "in_order P hashed sha256 (Reviewing_message path flags len data t) st"
  shows "\<exists>st'. session_step P st (Review_button True) (Reply (message_reply P sha256 path len data)) st'"
proof -
  have ok: "platform_ok P" "apdu_buffer_ok st" and screen: "message_shown P sha256 data t (on_screen st)"
    using assms by (auto simp: in_order_def session_ok_def state_ok_def apdu_buffer_ok_def)
  obtain m c where m: "ctx_req st = Msg m" "confirming sha256 path flags len data m c"
    using assms by (auto simp: in_order_def)
  from replies_Ok [OF message_approved [OF m(2,1) ok]] obtain st1 where
    "on_message_approved P st = (Ok (st1, message_reply P sha256 path len data) :: (sw_t, _) result)"
    unfolding message_reply_def by blast
  with screen have "on_reviewed P True st = Ok (st1\<lparr>on_screen := Main_menu\<rparr>, message_reply P sha256 path len data)"
    "on_screen st \<noteq> Main_menu"
    by (auto simp: on_reviewed_eq message_shown_def split: device.splits)
  from session_step.button [OF this(2,1)] show ?thesis by blast
qed

lemma ready_first:
  "carries_out P hashed sha256 job st \<Longrightarrow> \<not> reviewing job \<Longrightarrow> platform_ok P \<Longrightarrow> session_ok st \<Longrightarrow>
    ready_for P hashed sha256 job_of P1_FIRST [] st"
  by (auto simp: ready_for_def in_order_def)

text \<open>
  C3: A transaction that can be displayed is signed. From every state without a review, also in the
  middle of another upload, a client uploads it in chunks of its choice: every chunk but the last one
  is answered with success, the last one starts the review that displays the transaction, and the
  user's approval is answered with the reply of the transaction that has been uploaded.
\<close>

theorem transaction_upload_completes:
  assumes "carries_out P hashed sha256 job st" "\<not> reviewing job" "platform_ok P" "session_ok st"
    and "1 \<le> length path" "length path \<le> MAX_BIP32_PATH_LENGTH" "length (concat chunks) \<le> MAX_RAW_TX"
    and "reviewable P version (concat chunks) screen" "chunks_fit (path_bytes path @ [version]) P1_FIRST chunks"
  shows "\<exists>st1 st2 tx p.
    run (session_step P) st (upload INS_SIGN_TX (path_bytes path @ [version]) chunks) st1 \<and>
    on_screen st1 = Transaction_review screen \<and>
    tx_ok version tx \<and> carries version tx p \<and> concat chunks = tx_bytes version tx \<and>
    session_step P st1 (Review_button True) (Reply (transaction_reply P path version tx p)) st2"
proof -
  have "whole_transaction P path version screen ([] @ concat chunks)"
    using assms(5-8) by (simp add: whole_transaction_def)
  from transaction_upload.completes [OF ready_first [OF assms(1-4)] this assms(9)] obtain st1 where
    st1: "run (session_step P) st (upload INS_SIGN_TX (path_bytes path @ [version]) chunks) st1"
      "in_order P hashed sha256 (Reviewing_transaction path version (concat chunks) screen) st1"
    by (auto simp: upload_def)
  then have "on_screen st1 = Transaction_review screen" by (simp add: in_order_def)
  with st1(1) transaction_review_approved [OF st1(2)] show ?thesis by blast
qed

definition example_parsed :: parsed_tx_t where
  "example_parsed = \<lparr>type_specific = Normal_or_staking_outgoing_tx
       \<lparr>recipient = ''NQ07 0000 0000 0000 0000 0000 0000 0000 0000'', extra_data_label = ''Data'', extra_data = ''hi''\<rparr>,
     transaction_type = TRANSACTION_TYPE_NORMAL,
     transaction_label_type = TRANSACTION_LABEL_TYPE_REGULAR_TRANSACTION,
     tx_value = ''1.5 NIM'', tx_fee = ''0 NIM'', tx_network = ''Main''\<rparr>"

definition example_screen :: screen where
  "example_screen = Bagl_flow ''Transaction'' [(''Amount'', ''1.5 NIM''),
     (''Recipient'', ''NQ07 0000 0000 0000 0000 0000 0000 0000 0000''), (''Data'', ''hi''), (''Network'', ''Main'')]"

lemma example_reviewable:
  "reviewable (example_platform BAGL) TRANSACTION_VERSION_ALBATROSS
    (tx_bytes TRANSACTION_VERSION_ALBATROSS example_transfer) example_screen"
proof -
  have "tx_display example_hash TRANSACTION_VERSION_ALBATROSS example_transfer Basic_transfer =
      Ok (observe shown example_parsed)"
    by (simp add: example_display observe_def example_parsed_def)
  moreover have "ui_transaction_signing BAGL example_parsed = (Ok example_screen :: (sw_t, _) result)"
    by (simp add: bagl_ui_transaction_signing_def example_parsed_def transfer_flow(1) transfer_pages_def page_defs
        example_screen_def)
  ultimately show ?thesis using example_ok(2,3)
    unfolding reviewable_def displays_def example_platform_simps by blast
qed

theorem transaction_upload_completes_witness:
  "\<exists>st1 st2 tx p. run (session_step (example_platform BAGL)) start_state
      (upload INS_SIGN_TX (path_bytes [0x8000002C] @ [TRANSACTION_VERSION_ALBATROSS])
        [take 30 (tx_bytes TRANSACTION_VERSION_ALBATROSS example_transfer),
         drop 30 (tx_bytes TRANSACTION_VERSION_ALBATROSS example_transfer)]) st1 \<and>
    on_screen st1 = Transaction_review example_screen \<and>
    session_step (example_platform BAGL) st1 (Review_button True)
      (Reply (transaction_reply (example_platform BAGL) [0x8000002C] TRANSACTION_VERSION_ALBATROSS tx p)) st2"
proof -
  let ?data = "tx_bytes TRANSACTION_VERSION_ALBATROSS example_transfer"
  have len: "length ?data = 69" by (simp add: example_transfer_def tx_bytes_def)
  have "carries_out (example_platform BAGL) id (pad 32) Idle start_state" by (simp add: start_in_order)
  moreover have "chunks_fit (path_bytes [0x8000002C] @ [TRANSACTION_VERSION_ALBATROSS]) P1_FIRST [take 30 ?data, drop 30 ?data]"
    using len by (simp add: chunks_fit_def chunk_data_def path_bytes_def)
  ultimately show ?thesis
    using transaction_upload_completes [of "example_platform BAGL" id "pad 32" Idle start_state "[0x8000002C]"
        "[take 30 ?data, drop 30 ?data]" TRANSACTION_VERSION_ALBATROSS example_screen]
      start_in_order(1) example_reviewable len
    by (simp add: MAX_BIP32_PATH_LENGTH_def MAX_RAW_TX_def) blast
qed

text \<open>
  C6: A message is signed. If the hash functions of the SDK report no error, a client uploads from every
  state without a review a message of any length below \<open>2\<^sup>3\<^sup>2\<close> in chunks of its choice; all are accepted,
  the last one starts the review in the display that the flags, the length and the bytes of the
  message ask for, and the user's approval is answered with the signature of exactly that message.
\<close>

theorem message_upload_completes:
  assumes "carries_out P hashed sha256 job st" "\<not> reviewing job" "platform_ok P" "session_ok st"
    and "1 \<le> length path" "length path \<le> MAX_BIP32_PATH_LENGTH" "length (concat chunks) = unat len"
    and "hashes_succeed P" "incremental_hash P hashed sha256"
    and "chunks_fit (path_bytes path @ flags # be_bytes 4 (unat len)) P1_FIRST chunks"
  shows "\<exists>st1 st2.
    run (session_step P) st
      (upload INS_SIGN_MESSAGE (path_bytes path @ flags # be_bytes 4 (unat len)) chunks) st1 \<and>
    message_shown P sha256 (concat chunks) (default_display flags len (concat chunks)) (on_screen st1) \<and>
    session_step P st1 (Review_button True) (Reply (message_reply P sha256 path len (concat chunks))) st2"
proof -
  have "whole_message P hashed sha256 path len ([] @ concat chunks)"
    using assms(5-9) by (simp add: whole_message_def)
  from message_upload.completes [OF ready_first [OF assms(1-4)] this assms(10)] obtain st1 where
    st1: "run (session_step P) st
        (upload INS_SIGN_MESSAGE (path_bytes path @ flags # be_bytes 4 (unat len)) chunks) st1"
      "in_order P hashed sha256
        (Reviewing_message path flags len (concat chunks) (default_display flags len (concat chunks))) st1"
    unfolding upload_def by auto
  then have "message_shown P sha256 (concat chunks) (default_display flags len (concat chunks)) (on_screen st1)"
    by (simp add: in_order_def)
  with st1(1) message_review_approved [OF st1(2)] show ?thesis by blast
qed

theorem message_upload_completes_witness:
  "\<exists>st1 st2. run (session_step (example_platform NBGL)) start_state
      (upload INS_SIGN_MESSAGE (path_bytes [0x8000002C] @ 0 # be_bytes 4 2) [[104], [], [105]]) st1 \<and>
    message_shown (example_platform NBGL) (pad 32) [104, 105] MESSAGE_DISPLAY_TYPE_ASCII (on_screen st1) \<and>
    session_step (example_platform NBGL) st1 (Review_button True)
      (Reply (message_reply (example_platform NBGL) (pad 32) [0x8000002C] 2 [104, 105])) st2"
proof -
  have "carries_out (example_platform NBGL) id (pad 32) Idle start_state" by (simp add: start_in_order)
  moreover have "chunks_fit (path_bytes [0x8000002C] @ 0 # be_bytes 4 (unat (2 :: u32))) P1_FIRST [[104], [], [105]]"
    by (simp add: chunks_fit_def chunk_data_def path_bytes_def)
  moreover have "default_display 0 2 [104, 105] = MESSAGE_DISPLAY_TYPE_ASCII"
    by (simp add: default_display_def is_printable_ascii_iff MAX_PRINTABLE_MESSAGE_LENGTH_def)
  moreover have "hashes_succeed (example_platform NBGL)"
    by (simp add: hashes_succeed_def example_platform_def)
  ultimately show ?thesis
    using message_upload_completes [of "example_platform NBGL" id "pad 32" Idle start_state "[0x8000002C]"
        "[[104], [], [105]]" 2 0] start_in_order(1) example_incremental_hash [of NBGL]
    by (simp add: MAX_BIP32_PATH_LENGTH_def del: be_bytes.simps)
qed

section \<open>A client that does not wait\<close>

lemma keep_alive_accepted:
  assumes "state_ok st"
  obtains st' where "session_step P st (Command (command_apdu INS_KEEP_ALIVE 0 0 [])) Nothing st'"
    "ctx_req st' = ctx_req st" "on_screen st' = on_screen st" "ctx_u2fTimer st' = U2F_REQUEST_TIMEOUT"
proof -
  let ?apdu = "command_apdu INS_KEEP_ALIVE 0 0 []"
  let ?st = "command_state ?apdu st"
  have wf: "wf_apdu ?apdu" by simp
  have "state_ok ?st" by (rule command_state_ok [OF assms well_formed_length [OF wf]])
  then have buf: "length (G_io_apdu_buffer ?st) = IO_APDU_BUFFER_SIZE" unfolding state_ok_def by blast
  have handled: "handle_apdu P (receive ?apdu st) = Ok (?st, 0, True)"
    using wf by (simp add: handle_apdu_received instruction_defs)
  obtain st' where st': "finish_command SW_OK 0 True ?st = (Ok (st', None) :: (sw_t, _) result)"
      "ctx_req st' = ctx_req ?st" "on_screen st' = on_screen ?st" "ctx_u2fTimer st' = ctx_u2fTimer ?st"
    using buf by (simp add: finish_command_def memmove_at_def IO_APDU_BUFFER_SIZE_def del: command_state_simps)
  from handled_command [OF wf handled st'(1)] have "session_step P st (Command ?apdu) (sent None) st'" .
  with st'(2-4) show thesis by (intro that [of st']) (simp_all add: sent_def)
qed

text \<open>Over U2F the client of a review that takes long is sent the keep alive message.\<close>

lemma ticks_to_keep_alive:
  assumes "unat (ctx_u2fTimer st) = 100 * Suc n" "session_ok st" "platform_ok P"
  shows "\<exists>st'. run (session_step P) st
      (replicate n (Tick IO_APDU_MEDIA_U2F, Nothing) @ [(Tick IO_APDU_MEDIA_U2F, Reply (sw_bytes SW_KEEP_ALIVE))]) st' \<and>
    session_ok st' \<and> ctx_req st' = ctx_req st \<and> on_screen st' = on_screen st"
  using assms(1,2)
proof (induction n arbitrary: st)
  case 0
  then have "ctx_u2fTimer st = 100" "length (G_io_apdu_buffer st) = IO_APDU_BUFFER_SIZE"
    by (simp_all add: word_unat_eq_iff session_ok_def state_ok_def)
  then obtain st' where st': "ticker_event IO_APDU_MEDIA_U2F st = (Ok (st', Some (sw_bytes SW_KEEP_ALIVE)) :: (sw_t, _) result)"
      "ctx_req st' = ctx_req st" "on_screen st' = on_screen st"
    by (simp add: ticker_event_def Let_def u2f_send_keep_alive_def finalize_status apdu_buffer_ok_def)
  from session_step.tick [OF this(1), of P] have
    step: "session_step P st (Tick IO_APDU_MEDIA_U2F) (Reply (sw_bytes SW_KEEP_ALIVE)) st'" by (simp add: sent_def)
  with session_step_ok [OF step assms(3) 0(2)] st'(2,3) show ?case by (auto intro: run.intros)
next
  case (Suc n)
  from tick_before [OF Suc.prems(1)] obtain s where
    s: "ticker_event IO_APDU_MEDIA_U2F st = (Ok (s, None) :: (sw_t, _) result)" "unat (ctx_u2fTimer s) = 100 * Suc n"
      "ctx_req s = ctx_req st" "on_screen s = on_screen st" by blast
  from session_step.tick [OF s(1), of P] have
    step: "session_step P st (Tick IO_APDU_MEDIA_U2F) Nothing s" by (simp add: sent_def)
  from Suc.IH [OF s(2) session_step_ok [OF step assms(3) Suc.prems(2)]] s(3,4) step show ?case
    by (auto intro: run.more)
qed

lemma timer_counts_ticks: "session_ok st \<Longrightarrow> 0 < ctx_u2fTimer st \<Longrightarrow> \<exists>n. unat (ctx_u2fTimer st) = 100 * Suc n"
proof -
  assume "session_ok st" "0 < ctx_u2fTimer st"
  then have "unat (ctx_u2fTimer st) mod 100 = 0" "0 < unat (ctx_u2fTimer st)"
    by (auto simp: session_ok_def timer_ok_def unat_gt_0)
  then obtain k where "unat (ctx_u2fTimer st) = 100 * k" "0 < k" by fastforce
  then show ?thesis by (metis gr0_implies_Suc)
qed

lemma length_path_bytes: "length (path_bytes path) = 1 + 4 * length path"
  by (induction path) (simp_all add: path_bytes_def)

text \<open>A first chunk replaces the bytes, the path and the version, whatever the screen shows.\<close>

lemma first_chunk_replaces:
  assumes "ctx_req st = Tx t" "platform_ok P" "state_ok st"
    and "1 \<le> length path" "length path \<le> MAX_BIP32_PATH_LENGTH" "length data \<le> MAX_RAW_TX"
  obtains st' t' where
    "session_step P st (Command (command_apdu INS_SIGN_TX P1_FIRST P2_MORE (path_bytes path @ version # data)))
      (Reply (sw_bytes SW_OK)) st'"
    "ctx_req st' = Tx t'" "on_screen st' = on_screen st" "tx_received path version data t'" "parsed t' = parsed t"
proof -
  let ?apdu = "command_apdu INS_SIGN_TX P1_FIRST P2_MORE (path_bytes path @ version # data)"
  let ?mem = "G_io_apdu_buffer (command_state ?apdu st)" and ?cur = "(Some OFFSET_CDATA, ucast (?apdu ! OFFSET_LC) :: u16)"
  have wf: "wf_apdu ?apdu"
    using assms(5,6) by (simp add: MAX_BIP32_PATH_LENGTH_def MAX_RAW_TX_def length_path_bytes)
  note view = command_data_view [OF wf assms(3) well_formed_length [OF wf]]
  have arrays: "tx_arrays t" using assms(1,3) by (simp add: state_ok_def)
  have "view ?mem ?cur = path_bytes path @ version # data" unfolding view(1) by simp
  from sign_transaction_first_encoded [OF view(2) _ arrays this assms(4-6)] obtain t' where
    t': "sign_transaction_first ?mem ?cur t = Ok t'" "tx_received path version data t'" by auto
  then have parsed: "parsed t' = parsed t"
    by (auto simp: sign_transaction_first_def andthen_eq_Ok)
  have "transaction_command P ?apdu st = Ok ((command_state ?apdu st)\<lparr>ctx_req := Tx t'\<rparr>, False)"
    using t'(1) assms(1)
    by (simp add: transaction_command_def handle_sign_transaction_def sign_transaction_rest_def chunk_parameter_defs)
  then show thesis
    by (rule transaction_accepts [OF _ assms(2,3) wf]) (use t'(2) parsed in \<open>auto intro: that\<close>)
qed

lemma approval_signs_received:
  assumes "ctx_req st = Tx t" "tx_received path version data t" "platform_ok P" "state_ok st"
    and "on_screen st = Transaction_review screen" "transaction_type (parsed t) \<noteq> TRANSACTION_TYPE_STAKING_INCOMING"
    and "private_key_of P path (of_nat (length path)) = Some key" "eddsa_sign P key data = Some sig"
  shows "\<exists>st'. session_step P st (Review_button True) (Reply (sig @ sw_bytes SW_OK)) st'"
proof -
  have buf: "apdu_buffer_ok st" using assms(4) by (simp add: state_ok_def apdu_buffer_ok_def)
  have "empty_staker_proof t = (Ok None :: (sw_t, _) result)" using assms(6) by (simp add: empty_staker_proof_def)
  then have "replies (on_transaction_approved P st :: (sw_t, _) result) (sig @ sw_bytes SW_OK)"
    using sign_and_reply_plain [OF reviewed_buffer(3) [OF assms(2)] assms(3) buf, of key]
    by (simp add: on_transaction_approved_def sign_transaction_def assms(1,7,8) private_key_of_received [OF assms(2)])
  from replies_Ok [OF this] obtain st' where
    "on_transaction_approved P st = (Ok (st', sig @ sw_bytes SW_OK) :: (sw_t, _) result)" by blast
  then have "on_reviewed P True st = Ok (st'\<lparr>on_screen := Main_menu\<rparr>, sig @ sw_bytes SW_OK)"
    by (simp add: on_reviewed_eq assms(5))
  with assms(5) show ?thesis by (intro exI session_step.button) simp_all
qed

text \<open>
  C19: For a client that does not wait the promise fails. While any transaction other than a staking
  call is reviewed and the device counts down to the keep alive message over U2F, the client may wait
  for that message, reply to it with the first chunk of any other upload (any path, version and bytes
  that fit the buffer), marked as not the last, and then with the keep alive command. The chunk is
  accepted, the reviewed transaction stays on the screen, and its approval is answered with the
  signature of the other bytes, with the key of the other path. Every command here answers a reply of
  the app; none of them is sent while a reply is due.
\<close>

theorem impatient_client_gets_unseen_signed:
  assumes "carries_out P hashed sha256 (Reviewing_transaction path version data screen) st"
    and "platform_ok P" "session_ok st" "0 < ctx_u2fTimer st"
    and "tx_ok version tx" "carries version tx p" "data = tx_bytes version tx" "\<And>d. p \<noteq> Staking_call d"
    and "1 \<le> length path'" "length path' \<le> MAX_BIP32_PATH_LENGTH" "length data' \<le> MAX_RAW_TX"
    and "private_key_of P path' (of_nat (length path')) = Some key" "eddsa_sign P key data' = Some sig"
  shows "\<exists>n st1 st2. run (session_step P) st
      (replicate n (Tick IO_APDU_MEDIA_U2F, Nothing) @
       [(Tick IO_APDU_MEDIA_U2F, Reply (sw_bytes SW_KEEP_ALIVE)),
        (Command (command_apdu INS_SIGN_TX P1_FIRST P2_MORE (path_bytes path' @ version' # data')), Reply (sw_bytes SW_OK)),
        (Command (command_apdu INS_KEEP_ALIVE 0 0 []), Nothing)]) st1 \<and>
    on_screen st1 = Transaction_review screen \<and> reviewable P version data screen \<and>
    session_step P st1 (Review_button True) (Reply (sig @ sw_bytes SW_OK)) st2"
proof -
  obtain t where t: "on_screen st = Transaction_review screen" "ctx_req st = Tx t" "tx_reviewed P path version data t screen"
    using assms(1) by auto
  have "tx_received path version data t"
      "parse_tx (blake2b P) (rawTx t) version (Some 0, of_nat (length data)) = Ok (parsed t)"
    using t(3) by (simp_all add: tx_reviewed_def)
  note received = this(1) and parse = this(2)
  note buffer = reviewed_buffer(1,2) [OF received]
  have "tx_display (blake2b P) version tx p = Ok (observe shown (parsed t))"
    using parse_tx_eq [OF assms(5,6) hash_ok_platform [OF assms(2)] reviewed_version [OF t(3)] buffer(1)]
      buffer(2) parse by (simp add: assms(7))
  with assms(8) have no_staking: "transaction_type (parsed t) \<noteq> TRANSACTION_TYPE_STAKING_INCOMING"
    by (cases p) (auto simp: tx_display_def observe_def andthen_eq_Ok case_prod_unfold)
  obtain n where "unat (ctx_u2fTimer st) = 100 * Suc n" using timer_counts_ticks [OF assms(3,4)] by blast
  from ticks_to_keep_alive [OF this assms(3,2)] obtain s where
    s: "run (session_step P) st
      (replicate n (Tick IO_APDU_MEDIA_U2F, Nothing) @ [(Tick IO_APDU_MEDIA_U2F, Reply (sw_bytes SW_KEEP_ALIVE))]) s"
      "session_ok s" "ctx_req s = Tx t" "on_screen s = Transaction_review screen" using t(1,2) by auto
  have s_ok: "state_ok s" using s(2) by (simp add: session_ok_def)
  obtain u t' where u: "session_step P s (Command (command_apdu INS_SIGN_TX P1_FIRST P2_MORE (path_bytes path' @ version' # data')))
      (Reply (sw_bytes SW_OK)) u" "ctx_req u = Tx t'" "on_screen u = on_screen s"
      and t': "tx_received path' version' data' t'" "parsed t' = parsed t"
    by (rule first_chunk_replaces [OF s(3) assms(2) s_ok assms(9-11)])
  have u_ok: "session_ok u" by (rule session_step_ok [OF u(1) assms(2) s(2)])
  then have "state_ok u" by (simp add: session_ok_def)
  from keep_alive_accepted [OF this, of P] obtain w where
    w: "session_step P u (Command (command_apdu INS_KEEP_ALIVE 0 0 [])) Nothing w" "ctx_req w = Tx t'"
      "on_screen w = Transaction_review screen" using u(2,3) s(4) by metis
  have w_ok: "state_ok w" using session_step_ok [OF w(1) assms(2) u_ok] by (simp add: session_ok_def)
  have "run (session_step P) s [(Command (command_apdu INS_SIGN_TX P1_FIRST P2_MORE (path_bytes path' @ version' # data')), Reply (sw_bytes SW_OK)),
      (Command (command_apdu INS_KEEP_ALIVE 0 0 []), Nothing)] w"
    using u(1) w(1) by (blast intro: run.intros)
  from run_append [OF s(1) this] w(3) reviewed_is_reviewable [OF t(3) assms(2)]
    approval_signs_received [OF w(2) t'(1) assms(2) w_ok w(3) _ assms(12,13)] no_staking t'(2)
  show ?thesis by auto
qed

definition other_transfer :: tx_content where
  "other_transfer = example_transfer\<lparr>t_recipient := replicate 20 1\<rparr>"

lemma example_review:
  obtains st where "reachable (example_platform BAGL) st" "0 < ctx_u2fTimer st"
    "carries_out (example_platform BAGL) id (pad 32) (Reviewing_transaction [0x8000002C]
      TRANSACTION_VERSION_ALBATROSS (tx_bytes TRANSACTION_VERSION_ALBATROSS example_transfer) example_screen) st"
proof -
  let ?P = "example_platform BAGL" and ?data = "tx_bytes TRANSACTION_VERSION_ALBATROSS example_transfer"
  let ?apdu = "command_apdu INS_SIGN_TX P1_FIRST P2_LAST (path_bytes [0x8000002C] @ TRANSACTION_VERSION_ALBATROSS # ?data)"
  have len: "length ?data = 69" by (simp add: example_transfer_def tx_bytes_def)
  then have wf: "wf_apdu ?apdu" by (simp add: length_path_bytes)
  have start: "state_ok (start_state :: u8 list app_state)" by (simp add: start_state_def apdu_state_def state_ok_def)
  have job: "carries_out ?P id (pad 32) Idle start_state" by (simp add: start_in_order)
  have "uploads_transaction Idle ?apdu [0x8000002C] TRANSACTION_VERSION_ALBATROSS ?data"
    by (simp add: uploads_transaction_def MAX_BIP32_PATH_LENGTH_def)
  from transaction_last_accepted [OF this _ job _ example_platform_ok start wf _ _ example_reviewable] len
  obtain s where s: "session_step ?P start_state (Command ?apdu) Nothing s"
      "carries_out ?P id (pad 32) (Reviewing_transaction [0x8000002C] TRANSACTION_VERSION_ALBATROSS ?data example_screen) s"
    by (auto simp: MAX_RAW_TX_def)
  have reach: "reachable ?P s" by (rule reachable.step [OF reachable_start s(1)])
  then have "state_ok s" using reachable_ok [OF reach example_platform_ok] by (simp add: session_ok_def)
  from keep_alive_accepted [OF this, of ?P] obtain st where
    st: "session_step ?P s (Command (command_apdu INS_KEEP_ALIVE 0 0 [])) Nothing st"
      "ctx_req st = ctx_req s" "on_screen st = on_screen s" "ctx_u2fTimer st = U2F_REQUEST_TIMEOUT" .
  show thesis
    by (rule that [OF reachable.step [OF reach st(1)] _ carries_out_cong [OF s(2) st(2,3)]])
      (simp add: st(4) U2F_REQUEST_TIMEOUT_def)
qed

theorem impatient_client_gets_unseen_signed_witness:
  "\<exists>st n st1 st2. reachable (example_platform BAGL) st \<and>
    run (session_step (example_platform BAGL)) st
      (replicate n (Tick IO_APDU_MEDIA_U2F, Nothing) @
       [(Tick IO_APDU_MEDIA_U2F, Reply (sw_bytes SW_KEEP_ALIVE)),
        (Command (command_apdu INS_SIGN_TX P1_FIRST P2_MORE (path_bytes [0x8000002C] @
          TRANSACTION_VERSION_ALBATROSS # tx_bytes TRANSACTION_VERSION_ALBATROSS other_transfer)), Reply (sw_bytes SW_OK)),
        (Command (command_apdu INS_KEEP_ALIVE 0 0 []), Nothing)]) st1 \<and>
    on_screen st1 = Transaction_review example_screen \<and>
    session_step (example_platform BAGL) st1 (Review_button True)
      (Reply (pad 64 (tx_bytes TRANSACTION_VERSION_ALBATROSS other_transfer) @ sw_bytes SW_OK)) st2"
proof (rule example_review)
  fix st
  assume st: "reachable (example_platform BAGL) st" "0 < ctx_u2fTimer st"
    "carries_out (example_platform BAGL) id (pad 32) (Reviewing_transaction [0x8000002C]
      TRANSACTION_VERSION_ALBATROSS (tx_bytes TRANSACTION_VERSION_ALBATROSS example_transfer) example_screen) st"
  have len: "length (tx_bytes TRANSACTION_VERSION_ALBATROSS other_transfer) = 69"
    by (simp add: other_transfer_def example_transfer_def tx_bytes_def)
  from impatient_client_gets_unseen_signed [OF st(3) example_platform_ok reachable_ok [OF st(1) example_platform_ok]
      st(2) example_ok(2,3) refl, of "[0x8000002C]" "tx_bytes TRANSACTION_VERSION_ALBATROSS other_transfer"] len st(1)
  show ?thesis
    by (simp add: MAX_BIP32_PATH_LENGTH_def MAX_RAW_TX_def example_platform_def private_key_of_def) blast
qed

end
