(* ===== verification/Navigation.thy ===== *)
theory Navigation
  imports Session
begin

text \<open>
  Navigation in the flows of BAGL devices: the optional steps of \<^verbatim>\<open>src/src/nimiq_ux_bagl_macros.h\<close> and the
  flows of \<^verbatim>\<open>src/src/nimiq_ux_bagl.c\<close> with all their steps, also those that \<open>Review\<close> leaves out. The flow
  engine of the SDK is a parameter.

  An optional step that is hidden sends the engine on to a neighbour, which may be hidden as well. The
  lemmas show that this ends if and only if the flow has a step to be displayed, also where it turns
  round at an end of the flow, and that the user therefore walks through the displayed steps in order.
\<close>

section \<open>The flow engine\<close>

datatype flow_direction = FLOW_DIRECTION_BACKWARD | FLOW_DIRECTION_START | FLOW_DIRECTION_FORWARD

text \<open>
  The functions of the SDK on its state: the position in the flow, the direction of the last move, and
  the moves, of which the initialisation of the step that they reach is taken apart as \<open>settle\<close>.
\<close>

record 'f flow_engine =
  ux_flow_init :: "nat \<Rightarrow> 'f"
  flow_index :: "'f \<Rightarrow> nat"
  ux_flow_direction :: "'f \<Rightarrow> flow_direction"
  ux_flow_is_first :: "'f \<Rightarrow> bool"
  ux_flow_is_last :: "'f \<Rightarrow> bool"
  ux_flow_next :: "'f \<Rightarrow> 'f"
  ux_flow_prev :: "'f \<Rightarrow> 'f"

text \<open>What the code relies on, for a flow of \<open>n\<close> steps that does not loop.\<close>

definition flow_engine_ok :: "'f flow_engine \<Rightarrow> nat \<Rightarrow> bool" where
  "flow_engine_ok E n =
     ((\<forall>i. flow_index E (ux_flow_init E i) = i \<and> ux_flow_direction E (ux_flow_init E i) = FLOW_DIRECTION_START) \<and>
      (\<forall>f. (ux_flow_is_first E f \<longleftrightarrow> flow_index E f = 0) \<and> (ux_flow_is_last E f \<longleftrightarrow> Suc (flow_index E f) = n) \<and>
        (Suc (flow_index E f) < n \<longrightarrow> flow_index E (ux_flow_next E f) = Suc (flow_index E f) \<and>
          ux_flow_direction E (ux_flow_next E f) = FLOW_DIRECTION_FORWARD) \<and>
        (Suc (flow_index E f) = n \<longrightarrow> ux_flow_next E f = f) \<and>
        (0 < flow_index E f \<longrightarrow> flow_index E (ux_flow_prev E f) = flow_index E f - 1 \<and>
          ux_flow_direction E (ux_flow_prev E f) = FLOW_DIRECTION_BACKWARD) \<and>
        (flow_index E f = 0 \<longrightarrow> ux_flow_prev E f = f)))"

lemma flow_engine_init:
  assumes "flow_engine_ok E n"
  shows "flow_index E (ux_flow_init E i) = i" "ux_flow_direction E (ux_flow_init E i) = FLOW_DIRECTION_START"
  using assms unfolding flow_engine_ok_def by blast+

lemma flow_engine_okD:
  assumes "flow_engine_ok E n"
  shows "ux_flow_is_first E f \<longleftrightarrow> flow_index E f = 0" "ux_flow_is_last E f \<longleftrightarrow> Suc (flow_index E f) = n"
    and "Suc (flow_index E f) < n \<Longrightarrow> flow_index E (ux_flow_next E f) = Suc (flow_index E f)"
    and "Suc (flow_index E f) < n \<Longrightarrow> ux_flow_direction E (ux_flow_next E f) = FLOW_DIRECTION_FORWARD"
    and "Suc (flow_index E f) = n \<Longrightarrow> ux_flow_next E f = f"
    and "0 < flow_index E f \<Longrightarrow> flow_index E (ux_flow_prev E f) = flow_index E f - 1"
    and "0 < flow_index E f \<Longrightarrow> ux_flow_direction E (ux_flow_prev E f) = FLOW_DIRECTION_BACKWARD"
    and "flow_index E f = 0 \<Longrightarrow> ux_flow_prev E f = f"
  using assms unfolding flow_engine_ok_def by blast+

section \<open>Steps\<close>

text \<open>Of a page its texts are kept; the pages of a message print into the context when they are opened.\<close>

datatype flow_page = Texts "string list" | Printed message_page

datatype flow_action = Approve | Reject | Display_message message_display_type_t

datatype flow_step = Flow_step (displayed: bool) (step_page: flow_page) (validate: "flow_action option")

text \<open>The macros of the SDK for steps that are always displayed, and the optional steps of the app.\<close>

definition UX_STEP_NOCB :: "flow_page \<Rightarrow> flow_step" where
  "UX_STEP_NOCB page = Flow_step True page None"

definition UX_STEP_CB :: "flow_action \<Rightarrow> flow_page \<Rightarrow> flow_step" where
  "UX_STEP_CB action page = Flow_step True page (Some action)"

definition UX_OPTIONAL_STEP_NOCB :: "bool \<Rightarrow> flow_page \<Rightarrow> flow_step" where
  "UX_OPTIONAL_STEP_NOCB display_condition page = Flow_step display_condition page None"

definition UX_OPTIONAL_STEP_CB :: "bool \<Rightarrow> flow_action \<Rightarrow> flow_page \<Rightarrow> flow_step" where
  "UX_OPTIONAL_STEP_CB display_condition action page = Flow_step display_condition page (Some action)"

text \<open>The initialisation of a step: it is displayed, or the engine moves on.\<close>

definition step_init :: "'f flow_engine \<Rightarrow> bool \<Rightarrow> 'f \<Rightarrow> 'f option" where
  "step_init E display_condition f =
     (if display_condition then None
      else if ux_flow_direction E f \<noteq> FLOW_DIRECTION_BACKWARD \<and> \<not> ux_flow_is_last E f \<or> ux_flow_is_first E f
      then Some (ux_flow_next E f)
      else Some (ux_flow_prev E f))"

text \<open>
  A move of the engine initialises the step that it reaches, which may move the engine on, and so
  forth: whether that ends is to be shown.
\<close>

partial_function (option) settle :: "'f flow_engine \<Rightarrow> flow_step list \<Rightarrow> 'f \<Rightarrow> 'f option" where
  "settle E flow f =
     (case step_init E (displayed (flow ! flow_index E f)) f of
        None \<Rightarrow> Some f
      | Some f' \<Rightarrow> settle E flow f')"

datatype press = Left_button | Right_button

definition pressed :: "'f flow_engine \<Rightarrow> flow_step list \<Rightarrow> press \<Rightarrow> 'f \<Rightarrow> 'f option" where
  "pressed E flow b f =
     (case b of
        Left_button \<Rightarrow> if ux_flow_is_first E f then Some f else settle E flow (ux_flow_prev E f)
      | Right_button \<Rightarrow> if ux_flow_is_last E f then Some f else settle E flow (ux_flow_next E f))"

fun navigate :: "'f flow_engine \<Rightarrow> flow_step list \<Rightarrow> press list \<Rightarrow> 'f \<Rightarrow> 'f option" where
  "navigate E flow [] f = Some f"
| "navigate E flow (b # bs) f = Option.bind (pressed E flow b f) (navigate E flow bs)"

section \<open>The moves end\<close>

lemma settle_displayed: "displayed (flow ! flow_index E f) \<Longrightarrow> settle E flow f = Some f"
  by (subst settle.simps) (simp add: step_init_def)

lemma settle_hidden:
  "\<not> displayed (flow ! flow_index E f) \<Longrightarrow> step_init E False f = Some f' \<Longrightarrow> settle E flow f = settle E flow f'"
  by (subst settle.simps) simp

text \<open>The first step to be displayed in the direction of the move is where it ends.\<close>

lemma settle_forward:
  assumes "flow_engine_ok E (length flow)" "j < length flow" "displayed (flow ! j)"
  shows "flow_index E f \<le> j \<Longrightarrow> ux_flow_direction E f \<noteq> FLOW_DIRECTION_BACKWARD \<Longrightarrow>
    \<forall>k. flow_index E f \<le> k \<and> k < j \<longrightarrow> \<not> displayed (flow ! k) \<Longrightarrow>
    \<exists>g. settle E flow f = Some g \<and> flow_index E g = j"
proof (induction "j - flow_index E f" arbitrary: f)
  case 0
  then show ?case using assms(3) settle_displayed [of flow E f] by auto
next
  case (Suc d)
  note E = flow_engine_okD [OF assms(1), where f = f]
  have "Suc (flow_index E f) < length flow" "\<not> displayed (flow ! flow_index E f)"
    using Suc.hyps(2) Suc.prems assms(2) by auto
  then have "settle E flow f = settle E flow (ux_flow_next E f)"
    and next_f: "flow_index E (ux_flow_next E f) = Suc (flow_index E f)"
      "ux_flow_direction E (ux_flow_next E f) \<noteq> FLOW_DIRECTION_BACKWARD"
    using Suc.prems(2) E by (auto simp: step_init_def intro: settle_hidden)
  with Suc.hyps(1) [of "ux_flow_next E f"] Suc.hyps(2) Suc.prems show ?case by auto
qed

lemma settle_backward:
  assumes "flow_engine_ok E (length flow)" "displayed (flow ! j)"
  shows "j \<le> flow_index E f \<Longrightarrow> flow_index E f < length flow \<Longrightarrow>
    ux_flow_direction E f = FLOW_DIRECTION_BACKWARD \<or> Suc (flow_index E f) = length flow \<Longrightarrow>
    \<forall>k. j < k \<and> k \<le> flow_index E f \<longrightarrow> \<not> displayed (flow ! k) \<Longrightarrow>
    \<exists>g. settle E flow f = Some g \<and> flow_index E g = j"
proof (induction "flow_index E f - j" arbitrary: f)
  case 0
  then show ?case using assms(2) settle_displayed [of flow E f] by auto
next
  case (Suc d)
  note E = flow_engine_okD [OF assms(1), where f = f]
  have "0 < flow_index E f" "\<not> displayed (flow ! flow_index E f)"
    using Suc.hyps(2) Suc.prems by auto
  then have "settle E flow f = settle E flow (ux_flow_prev E f)"
    and prev_f: "flow_index E (ux_flow_prev E f) = flow_index E f - 1"
      "ux_flow_direction E (ux_flow_prev E f) = FLOW_DIRECTION_BACKWARD"
    using Suc.prems(3) E by (auto simp: step_init_def intro: settle_hidden)
  have "\<not> displayed (flow ! k)" if "j < k" "k \<le> flow_index E f - 1" for k
    using Suc.prems(4) that by simp
  moreover have "d = flow_index E (ux_flow_prev E f) - j" "j \<le> flow_index E (ux_flow_prev E f)"
      "flow_index E (ux_flow_prev E f) < length flow"
    using Suc.hyps(2) Suc.prems(2) prev_f(1) by simp_all
  ultimately show ?case
    using Suc.hyps(1) [of "ux_flow_prev E f"] prev_f \<open>settle E flow f = settle E flow (ux_flow_prev E f)\<close> by simp
qed

text \<open>Where no such step is left, the move turns round at the end of the flow.\<close>

lemma settle_turns_back:
  assumes "flow_engine_ok E (length flow)" "j < length flow" "displayed (flow ! j)"
  shows "flow_index E f < length flow \<Longrightarrow> j < flow_index E f \<Longrightarrow> ux_flow_direction E f \<noteq> FLOW_DIRECTION_BACKWARD \<Longrightarrow>
    \<forall>k. j < k \<and> k < length flow \<longrightarrow> \<not> displayed (flow ! k) \<Longrightarrow>
    \<exists>g. settle E flow f = Some g \<and> flow_index E g = j"
proof (induction "length flow - flow_index E f" arbitrary: f rule: less_induct)
  case less
  note E = flow_engine_okD [OF assms(1), where f = f]
  show ?case
  proof (cases "Suc (flow_index E f) = length flow")
    case True
    then show ?thesis using settle_backward [OF assms(1,3), of f] less.prems by auto
  next
    case False
    then have "settle E flow f = settle E flow (ux_flow_next E f)"
      using less.prems E by (intro settle_hidden) (auto simp: step_init_def)
    with less.hyps [of "ux_flow_next E f"] less.prems E False show ?thesis by auto
  qed
qed

lemma settle_turns_forth:
  assumes "flow_engine_ok E (length flow)" "j < length flow" "displayed (flow ! j)"
  shows "flow_index E f < j \<Longrightarrow> \<forall>k < j. \<not> displayed (flow ! k) \<Longrightarrow>
    \<exists>g. settle E flow f = Some g \<and> flow_index E g = j"
proof (induction "flow_index E f" arbitrary: f rule: less_induct)
  case less
  note E = flow_engine_okD [OF assms(1), where f = f]
  show ?case
  proof (cases "ux_flow_direction E f = FLOW_DIRECTION_BACKWARD \<and> 0 < flow_index E f")
    case True
    then have "settle E flow f = settle E flow (ux_flow_prev E f)"
      using less.prems E by (intro settle_hidden) (auto simp: step_init_def)
    with less.hyps [of "ux_flow_prev E f"] less.prems E True show ?thesis by auto
  next
    case False
    then have "settle E flow f = settle E flow (ux_flow_next E f)"
      using less.prems assms(2) E by (intro settle_hidden) (auto simp: step_init_def)
    moreover have "\<exists>g. settle E flow (ux_flow_next E f) = Some g \<and> flow_index E g = j"
      by (rule settle_forward [OF assms]) (use less.prems assms(2) E in auto)
    ultimately show ?thesis by simp
  qed
qed

text \<open>A move that ends has reached a step that is displayed.\<close>

lemma settle_Some_displayed: "settle E flow f = Some g \<Longrightarrow> displayed (flow ! flow_index E g)"
  by (rule settle.raw_induct [where P = "\<lambda>E flow f g. displayed (flow ! flow_index E g)"])
    (auto simp: step_init_def split: if_splits)

section \<open>The displayed steps\<close>

text \<open>The number of displayed steps before a position.\<close>

definition rank :: "flow_step list \<Rightarrow> nat \<Rightarrow> nat" where
  "rank flow i = length (filter displayed (take i flow))"

abbreviation shown_steps :: "flow_step list \<Rightarrow> flow_step list" where
  "shown_steps flow \<equiv> filter displayed flow"

lemma rank_Suc: "i < length flow \<Longrightarrow> rank flow (Suc i) = rank flow i + (if displayed (flow ! i) then 1 else 0)"
  by (simp add: rank_def take_Suc_conv_app_nth)

lemma rank_hidden:
  "i \<le> j \<Longrightarrow> j \<le> length flow \<Longrightarrow> \<forall>k. i \<le> k \<and> k < j \<longrightarrow> \<not> displayed (flow ! k) \<Longrightarrow> rank flow j = rank flow i"
proof (induction j)
  case (Suc j)
  then show ?case by (cases "i = Suc j") (auto simp: rank_Suc)
qed simp

lemma shown_steps_nth:
  assumes "i < length flow" "displayed (flow ! i)"
  shows "rank flow i < length (shown_steps flow)" "shown_steps flow ! rank flow i = flow ! i"
proof -
  have flow: "flow = take i flow @ flow ! i # drop (Suc i) flow" using assms(1) by (rule id_take_nth_drop)
  have split: "shown_steps flow = filter displayed (take i flow) @ flow ! i # filter displayed (drop (Suc i) flow)"
    by (subst flow) (simp add: assms(2))
  show "rank flow i < length (shown_steps flow)" "shown_steps flow ! rank flow i = flow ! i"
    unfolding split by (simp_all add: rank_def)
qed

lemma rank_all: "rank flow (length flow) = length (shown_steps flow)"
  by (simp add: rank_def)

text \<open>The neighbours of a position among the displayed steps.\<close>

lemma next_displayed:
  assumes "i \<le> length flow"
  obtains (Found) j where "i \<le> j" "j < length flow" "displayed (flow ! j)" "\<forall>k. i \<le> k \<and> k < j \<longrightarrow> \<not> displayed (flow ! k)"
  | (None_left) "\<forall>k. i \<le> k \<and> k < length flow \<longrightarrow> \<not> displayed (flow ! k)"
proof (cases "\<exists>j. i \<le> j \<and> j < length flow \<and> displayed (flow ! j)")
  case True
  then obtain j where j: "i \<le> j \<and> j < length flow \<and> displayed (flow ! j)"
      "\<And>k. k < j \<Longrightarrow> \<not> (i \<le> k \<and> k < length flow \<and> displayed (flow ! k))"
    unfolding exists_least_iff [of "\<lambda>j. i \<le> j \<and> j < length flow \<and> displayed (flow ! j)"] by blast
  have "\<not> displayed (flow ! k)" if "i \<le> k" "k < j" for k
    using j(2) [OF that(2)] j(1) that by simp
  with j(1) show thesis by (intro Found [of j]) auto
qed (use None_left in blast)

lemma previous_displayed:
  assumes "i < length flow"
  obtains (Found) j where "j \<le> i" "displayed (flow ! j)" "\<forall>k. j < k \<and> k \<le> i \<longrightarrow> \<not> displayed (flow ! k)"
  | (None_left) "\<forall>k \<le> i. \<not> displayed (flow ! k)"
proof (cases "\<exists>j. j \<le> i \<and> displayed (flow ! j)")
  case True
  let ?P = "\<lambda>j. j \<le> i \<and> displayed (flow ! j)"
  from True obtain k where "?P k" by blast
  then have "\<exists>j. ?P j \<and> (\<forall>y. ?P y \<longrightarrow> y \<le> j)"
    by (rule ex_has_greatest_nat [where f = "\<lambda>x. x" and b = "Suc i"]) auto
  then obtain j where j: "?P j" "\<And>y. ?P y \<Longrightarrow> y \<le> j" by blast
  have "\<not> displayed (flow ! k)" if "j < k" "k \<le> i" for k
    using j(2) [of k] that by auto
  with j(1) show thesis by (intro Found [of j]) auto
qed (use None_left in blast)

lemma step_init_index:
  assumes "flow_engine_ok E n" "step_init E b f = Some f'" "flow_index E f < n"
  shows "flow_index E f' < n"
proof -
  note E = flow_engine_okD [OF assms(1), where f = f]
  have "f' = ux_flow_next E f \<or> f' = ux_flow_prev E f" using assms(2) by (auto simp: step_init_def split: if_splits)
  then show ?thesis using E(3-5,6,8) assms(3)
    by (cases "Suc (flow_index E f) < n"; cases "flow_index E f = 0") (auto simp: less_Suc_eq)
qed

lemma settle_index:
  assumes "settle E flow f = Some g" "flow_engine_ok E (length flow)" "flow_index E f < length flow"
  shows "flow_index E g < length flow"
proof -
  let ?P = "\<lambda>E flow f g. flow_engine_ok E (length flow) \<longrightarrow> flow_index E f < length flow \<longrightarrow> flow_index E g < length flow"
  have "?P E flow f g"
  proof (rule settle.raw_induct [where P = ?P, OF _ assms(1)], goal_cases)
    case (1 rec E flow f g)
    show ?case
    proof (cases "step_init E (displayed (flow ! flow_index E f)) f")
      case None
      then show ?thesis using 1(2) by simp
    next
      case (Some f')
      then have "rec E flow f' = Some g" using 1(2) by simp
      from 1(1) [OF this] show ?thesis using step_init_index [OF _ Some] by blast
    qed
  qed
  with assms(2,3) show ?thesis by blast
qed

lemma settle_ends:
  assumes "flow_engine_ok E (length flow)" "flow_index E f < length flow" "s \<in> set flow" "displayed s"
  shows "\<exists>g. settle E flow f = Some g"
proof -
  let ?i = "flow_index E f"
  obtain d where d: "d < length flow" "displayed (flow ! d)" using assms(3,4) by (auto simp: in_set_conv_nth)
  show ?thesis
  proof (cases "displayed (flow ! ?i)")
    case True
    then show ?thesis by (blast intro: settle_displayed)
  next
    case hidden: False
    show ?thesis
    proof (cases "ux_flow_direction E f = FLOW_DIRECTION_BACKWARD")
      case True
      from assms(2) show ?thesis
      proof (cases rule: previous_displayed)
        case (Found j)
        with settle_backward [OF assms(1) Found(2) Found(1) assms(2)] True show ?thesis by blast
      next
        case None_left
        have "?i \<le> length flow" using assms(2) by simp
        then show ?thesis
        proof (cases rule: next_displayed)
          case (Found j)
          have "?i < j" using Found(1,3) hidden by (cases "?i = j") auto
          moreover have "\<forall>k < j. \<not> displayed (flow ! k)" using Found(4) None_left by (meson nle_le)
          ultimately show ?thesis using settle_turns_forth [OF assms(1) Found(2,3)] by blast
        qed (use None_left d in \<open>meson nle_le\<close>)
      qed
    next
      case False
      have "?i \<le> length flow" using assms(2) by simp
      then show ?thesis
      proof (cases rule: next_displayed)
        case (Found j)
        with settle_forward [OF assms(1) Found(2,3) Found(1) False] show ?thesis by blast
      next
        case None_left
        from assms(2) show ?thesis
        proof (cases rule: previous_displayed)
          case (Found j)
          have "j < ?i" using Found(1,2) hidden by (cases "?i = j") auto
          moreover have "\<forall>k. j < k \<and> k < length flow \<longrightarrow> \<not> displayed (flow ! k)"
            using Found(3) None_left by (meson nle_le)
          ultimately show ?thesis
            using settle_turns_back [OF assms(1) _ Found(2) assms(2) _ False] assms(2) by auto
        qed (use None_left d in \<open>meson nle_le\<close>)
      qed
    qed
  qed
qed

lemma pressed_right:
  assumes "flow_engine_ok E (length flow)" "flow_index E f < length flow" "displayed (flow ! flow_index E f)"
  shows "\<exists>g. pressed E flow Right_button f = Some g \<and> flow_index E g < length flow \<and> displayed (flow ! flow_index E g) \<and>
    rank flow (flow_index E g) = min (Suc (rank flow (flow_index E f))) (length (shown_steps flow) - 1)"
proof -
  let ?i = "flow_index E f"
  note E = flow_engine_okD [OF assms(1), where f = f] and at = shown_steps_nth [OF assms(2,3)]
  have Suc: "rank flow (Suc ?i) = Suc (rank flow ?i)" using assms(2,3) by (simp add: rank_Suc)
  show ?thesis
  proof (cases "Suc ?i = length flow")
    case True
    then have "Suc (rank flow ?i) = length (shown_steps flow)" using Suc rank_all [of flow] by simp
    with True E(2) assms(2,3) show ?thesis by (simp add: pressed_def)
  next
    case False
    then have next_f: "flow_index E (ux_flow_next E f) = Suc ?i" "ux_flow_direction E (ux_flow_next E f) \<noteq> FLOW_DIRECTION_BACKWARD"
      and press: "pressed E flow Right_button f = settle E flow (ux_flow_next E f)" and le: "Suc ?i \<le> length flow"
      using E(2,3,4) assms(2) by (auto simp: pressed_def)
    from le show ?thesis
    proof (cases rule: next_displayed)
      case (Found j)
      obtain g where g: "settle E flow (ux_flow_next E f) = Some g" "flow_index E g = j"
        using settle_forward [OF assms(1) Found(2,3), of "ux_flow_next E f"] Found(1,4) next_f by auto
      have "rank flow j = Suc (rank flow ?i)" using rank_hidden [OF Found(1) _ Found(4)] Found(2) Suc by simp
      with g press Found(2,3) shown_steps_nth(1) [OF Found(2,3)] show ?thesis by auto
    next
      case None_left
      obtain g where g: "settle E flow (ux_flow_next E f) = Some g" "flow_index E g = ?i"
        using settle_turns_back [OF assms(1) assms(2,3), of "ux_flow_next E f"] None_left next_f False assms(2)
        by (auto simp: Suc_le_eq)
      have "Suc (rank flow ?i) = length (shown_steps flow)" using rank_hidden [OF le _ None_left] Suc rank_all [of flow] by simp
      with g press assms(2,3) show ?thesis by auto
    qed
  qed
qed

lemma pressed_left:
  assumes "flow_engine_ok E (length flow)" "flow_index E f < length flow" "displayed (flow ! flow_index E f)"
  shows "\<exists>g. pressed E flow Left_button f = Some g \<and> flow_index E g < length flow \<and> displayed (flow ! flow_index E g) \<and>
    rank flow (flow_index E g) = rank flow (flow_index E f) - 1"
proof -
  let ?i = "flow_index E f"
  note E = flow_engine_okD [OF assms(1), where f = f]
  show ?thesis
  proof (cases "?i = 0")
    case True
    with E(1) assms(2,3) show ?thesis by (simp add: pressed_def rank_def)
  next
    case False
    then have prev_f: "flow_index E (ux_flow_prev E f) = ?i - 1" "ux_flow_direction E (ux_flow_prev E f) = FLOW_DIRECTION_BACKWARD"
      and press: "pressed E flow Left_button f = settle E flow (ux_flow_prev E f)" and lt: "?i - 1 < length flow"
      using E(1,6,7) assms(2) by (auto simp: pressed_def)
    from lt show ?thesis
    proof (cases rule: previous_displayed)
      case (Found j)
      obtain g where g: "settle E flow (ux_flow_prev E f) = Some g" "flow_index E g = j"
        using settle_backward [OF assms(1) Found(2), of "ux_flow_prev E f"] Found(1,3) prev_f lt by auto
      have j: "Suc j \<le> ?i" "j < length flow" using Found(1) False lt by auto
      have "rank flow ?i = rank flow (Suc j)"
        by (rule rank_hidden [OF j(1)]) (use assms(2) Found(3) in \<open>auto simp: Suc_le_eq\<close>)
      then have "rank flow ?i = Suc (rank flow j)" using rank_Suc [OF j(2)] Found(2) by simp
      with g press j(2) Found(2) show ?thesis by auto
    next
      case None_left
      have hidden: "\<forall>k < ?i. \<not> displayed (flow ! k)" using None_left by auto
      obtain g where g: "settle E flow (ux_flow_prev E f) = Some g" "flow_index E g = ?i"
        using settle_turns_forth [OF assms(1) assms(2,3), of "ux_flow_prev E f"] hidden prev_f False by auto
      have "rank flow ?i = rank flow 0" using rank_hidden [of 0 ?i flow] hidden assms(2) by auto
      then have "rank flow ?i = 0" by (simp add: rank_def)
      with g press assms(2,3) show ?thesis by auto
    qed
  qed
qed

section \<open>The flows of the app\<close>

text \<open>The review of an address.\<close>

definition ux_public_key_flow_address_step :: "string \<Rightarrow> flow_step" where
  "ux_public_key_flow_address_step addr = UX_STEP_NOCB (Texts [''Address'', addr])"

definition ux_public_key_flow_approve_step :: flow_step where
  "ux_public_key_flow_approve_step = UX_STEP_CB Approve (Texts [''Approve''])"

definition ux_public_key_flow_reject_step :: flow_step where
  "ux_public_key_flow_reject_step = UX_STEP_CB Reject (Texts [''Reject''])"

definition ux_public_key_flow :: "string \<Rightarrow> flow_step list" where
  "ux_public_key_flow addr =
     [ux_public_key_flow_address_step addr, ux_public_key_flow_approve_step, ux_public_key_flow_reject_step]"

text \<open>
  The reviews of transactions. The steps between the first one and the buttons are those of \<open>Review\<close>,
  which are computed to the page they display, or to none if they are hidden.
\<close>

definition ux_transaction_generic_flow_transaction_type_step :: "string \<Rightarrow> flow_step" where
  "ux_transaction_generic_flow_transaction_type_step label = UX_STEP_NOCB (Texts [''Confirm'', label])"

definition ux_transaction_generic_flow_approve_step :: flow_step where
  "ux_transaction_generic_flow_approve_step = UX_STEP_CB Approve (Texts [''Accept'', ''and send''])"

definition ux_transaction_generic_flow_reject_step :: flow_step where
  "ux_transaction_generic_flow_reject_step = UX_STEP_CB Reject (Texts [''Reject''])"

definition page_step :: "(sw_t, page list) result \<Rightarrow> flow_step" where
  "page_step r =
     (case r of
        Ok [(item, text)] \<Rightarrow> UX_OPTIONAL_STEP_NOCB True (Texts [item, text])
      | _ \<Rightarrow> UX_OPTIONAL_STEP_NOCB False (Texts []))"

definition transaction_steps :: "parsed_tx_t \<Rightarrow> (sw_t, (sw_t, page list) result list) result" where
  "transaction_steps p =
     (case transaction_type p of
        TRANSACTION_TYPE_VESTING_CREATION \<Rightarrow>
          andthen (vesting_creation_tx (type_specific p)) (\<lambda>d. Ok (vesting_creation_steps p d))
      | TRANSACTION_TYPE_HTLC_CREATION \<Rightarrow>
          andthen (htlc_creation_tx (type_specific p)) (\<lambda>d. Ok (htlc_creation_steps p d))
      | TRANSACTION_TYPE_STAKING_INCOMING \<Rightarrow>
          andthen (staking_incoming_tx (type_specific p)) (\<lambda>d. Ok (staking_incoming_steps p d))
      | _ \<Rightarrow>
          andthen (normal_or_staking_outgoing_tx (type_specific p)) (\<lambda>d. Ok (normal_or_staking_outgoing_steps p d)))"

definition transaction_flow :: "parsed_tx_t \<Rightarrow> flow_step list" where
  "transaction_flow p =
     (case transaction_steps p of
        Ok steps \<Rightarrow>
          ux_transaction_generic_flow_transaction_type_step (bagl_transaction_label (transaction_label_type p)) #
            map page_step steps @
            [ux_transaction_generic_flow_approve_step, ux_transaction_generic_flow_reject_step]
      | _ \<Rightarrow> [])"

text \<open>The review of a message.\<close>

definition ux_message_flow_intro_step :: flow_step where
  "ux_message_flow_intro_step = UX_STEP_NOCB (Texts [''Sign'', ''message''])"

definition ux_message_flow_approve_step :: flow_step where
  "ux_message_flow_approve_step = UX_STEP_CB Approve (Texts [''Sign'', ''message''])"

definition ux_message_flow_reject_step :: flow_step where
  "ux_message_flow_reject_step = UX_STEP_CB Reject (Texts [''Reject''])"

definition ux_message_flow :: "'h platform \<Rightarrow> 'h messageSigningContext_t \<Rightarrow> flow_step list" where
  "ux_message_flow P m =
     [ux_message_flow_intro_step,
      UX_STEP_NOCB (Printed Length_page),
      UX_STEP_NOCB (Printed Message_page),
      UX_OPTIONAL_STEP_CB (ux_message_flow_display_ascii_step P m) (Display_message MESSAGE_DISPLAY_TYPE_ASCII)
        (Texts [''Display'', ''as Text'']),
      UX_OPTIONAL_STEP_CB (ux_message_flow_display_hex_step P m) (Display_message MESSAGE_DISPLAY_TYPE_HEX)
        (Texts [''Display'', ''as Hex'']),
      UX_OPTIONAL_STEP_CB (ux_message_flow_display_hash_step P m) (Display_message MESSAGE_DISPLAY_TYPE_HASH)
        (Texts [''Display'', ''as Hash'']),
      ux_message_flow_approve_step,
      ux_message_flow_reject_step]"

named_theorems flow_defs \<open>the flows and their steps\<close>

lemmas [flow_defs] = UX_STEP_NOCB_def UX_STEP_CB_def UX_OPTIONAL_STEP_NOCB_def UX_OPTIONAL_STEP_CB_def
  ux_public_key_flow_def ux_public_key_flow_address_step_def ux_public_key_flow_approve_step_def
  ux_public_key_flow_reject_step_def transaction_flow_def ux_transaction_generic_flow_transaction_type_step_def
  ux_transaction_generic_flow_approve_step_def ux_transaction_generic_flow_reject_step_def
  ux_message_flow_def ux_message_flow_intro_step_def ux_message_flow_approve_step_def ux_message_flow_reject_step_def

section \<open>What the user walks through\<close>

text \<open>A review as the user should see it: the pages and then the two choices.\<close>

datatype 'h bagl_review =
    Review_address string
  | Review_transaction parsed_tx_t
  | Review_of_message "'h messageSigningContext_t"

fun review_flow :: "'h platform \<Rightarrow> 'h bagl_review \<Rightarrow> flow_step list" where
  "review_flow P (Review_address addr) = ux_public_key_flow addr"
| "review_flow P (Review_transaction p) = transaction_flow p"
| "review_flow P (Review_of_message m) = ux_message_flow P m"

fun walk :: "'h platform \<Rightarrow> 'h bagl_review \<Rightarrow> (flow_page \<times> flow_action option) list" where
  "walk P (Review_address addr) =
     [(Texts [''Address'', addr], None), (Texts [''Approve''], Some Approve), (Texts [''Reject''], Some Reject)]"
| "walk P (Review_transaction p) =
     (case bagl_ui_transaction_signing p :: (sw_t, _) result of
        Ok (label, ps) \<Rightarrow>
          (Texts [''Confirm'', label], None) # map (\<lambda>(item, content). (Texts [item, content], None)) ps @
          [(Texts [''Accept'', ''and send''], Some Approve), (Texts [''Reject''], Some Reject)]
      | _ \<Rightarrow> [])"
| "walk P (Review_of_message m) =
     [(Texts [''Sign'', ''message''], None), (Printed Length_page, None), (Printed Message_page, None)] @
     concat (map (\<lambda>(t, text). if display_switch_shown P t m
         then [(Texts [''Display'', text], Some (Display_message t))] else [])
       [(MESSAGE_DISPLAY_TYPE_ASCII, ''as Text''), (MESSAGE_DISPLAY_TYPE_HEX, ''as Hex''),
        (MESSAGE_DISPLAY_TYPE_HASH, ''as Hash'')]) @
     [(Texts [''Sign'', ''message''], Some Approve), (Texts [''Reject''], Some Reject)]"

definition on_display :: "flow_step \<Rightarrow> flow_page \<times> flow_action option" where
  "on_display s = (step_page s, validate s)"

lemma page_step_simps [simp]:
  "page_step (Ok []) = Flow_step False (Texts []) None"
  "page_step (Ok [(item, content)]) = Flow_step True (Texts [item, content]) None"
  by (simp_all add: page_step_def flow_defs)

text \<open>A step of a transaction flow shows one page or none.\<close>

definition is_step :: "('e, page list) result \<Rightarrow> bool" where
  "is_step r = (\<forall>xs. r = Ok xs \<longrightarrow> xs = [] \<or> (\<exists>page. xs = [page]))"

lemma is_step_page: "is_step (optional_page b item r)"
  by (auto simp: is_step_def optional_page_def andthen_eq_Ok split: if_splits)

lemma is_step_andthen: "(\<And>x. is_step (k x)) \<Longrightarrow> is_step (andthen c k)"
  by (auto simp: is_step_def andthen_eq_Ok)

lemma transaction_steps_are_steps:
  "list_all is_step (normal_or_staking_outgoing_steps p d1 :: (sw_t, _) result list)"
  "list_all is_step (htlc_creation_steps p d2 :: (sw_t, _) result list)"
  "list_all is_step (vesting_creation_steps p d3 :: (sw_t, _) result list)"
  "list_all is_step (staking_incoming_steps p d4 :: (sw_t, _) result list)"
  by (simp_all add: flow_steps is_step_page is_step_andthen del: optional_page_Ok)

lemma transaction_steps_pages:
  assumes "bagl_ui_transaction_signing p = (Ok (label, ps) :: (sw_t, _) result)"
  obtains steps where "transaction_steps p = Ok steps" "pages steps = Ok ps" "list_all is_step steps"
    "label = bagl_transaction_label (transaction_label_type p)"
  using assms transaction_steps_are_steps
  by (cases "transaction_type p") (auto simp: bagl_ui_transaction_signing_def andthen_eq_Ok transaction_steps_def
      ux_transaction_normal_or_staking_outgoing_flow_def ux_transaction_vesting_creation_flow_def
      ux_transaction_htlc_creation_flow_def ux_transaction_staking_incoming_flow_def)

lemma shown_page_steps:
  "pages steps = Ok ps \<Longrightarrow> list_all is_step steps \<Longrightarrow>
    map on_display (shown_steps (map page_step steps)) = map (\<lambda>(item, content). (Texts [item, content], None)) ps"
proof (induction steps arbitrary: ps)
  case (Cons r steps)
  then obtain xs ys where r: "r = Ok xs" "xs = [] \<or> (\<exists>page. xs = [page])" "ps = xs @ ys" "pages steps = Ok ys"
    by (auto simp: is_step_def andthen_eq_Ok)
  with Cons.IH [OF r(4)] Cons.prems(2) show ?case by (auto simp: on_display_def)
qed simp

text \<open>The displayed steps of a review that has been started.\<close>

lemma shown_review_steps:
  assumes "\<And>p. r = Review_transaction p \<Longrightarrow> \<exists>screen. ui_transaction_signing BAGL p = (Ok screen :: (sw_t, _) result)"
  shows "map on_display (shown_steps (review_flow P r)) = walk P r"
    and "\<exists>s flow. review_flow P r = s # flow \<and> displayed s"
proof -
  have "map on_display (shown_steps (review_flow P r)) = walk P r \<and> (\<exists>s flow. review_flow P r = s # flow \<and> displayed s)"
  proof (cases r)
    case (Review_transaction p)
    then obtain label ps where ui: "bagl_ui_transaction_signing p = (Ok (label, ps) :: (sw_t, _) result)"
      using assms by (fastforce simp: andthen_eq_Ok)
    then obtain steps where "transaction_steps p = Ok steps" "pages steps = Ok ps" "list_all is_step steps"
        "label = bagl_transaction_label (transaction_label_type p)"
      by (rule transaction_steps_pages)
    with ui shown_page_steps [of steps ps] show ?thesis by (simp add: Review_transaction flow_defs on_display_def)
  qed (auto simp: flow_defs on_display_def display_switch_shown_def)
  then show "map on_display (shown_steps (review_flow P r)) = walk P r"
    and "\<exists>s flow. review_flow P r = s # flow \<and> displayed s" by simp_all
qed

text \<open>The display switches that the flow offers are those the session may perform.\<close>

lemma walk_switches:
  "(Some (Display_message t) \<in> snd ` set (walk P (Review_of_message m))) = display_switch_shown P t m"
  by (cases t) auto

text \<open>A press of a button goes one page on or back, and stays at the ends.\<close>

definition turn :: "nat \<Rightarrow> nat \<Rightarrow> press \<Rightarrow> nat" where
  "turn n k b = (case b of Left_button \<Rightarrow> k - 1 | Right_button \<Rightarrow> min (Suc k) (n - 1))"

lemma pressed_turns:
  assumes "flow_engine_ok E (length flow)" "flow_index E f < length flow" "displayed (flow ! flow_index E f)"
  shows "\<exists>g. pressed E flow b f = Some g \<and> flow_index E g < length flow \<and> displayed (flow ! flow_index E g) \<and>
    rank flow (flow_index E g) = turn (length (shown_steps flow)) (rank flow (flow_index E f)) b"
  using pressed_right [OF assms] pressed_left [OF assms] by (cases b) (simp_all add: turn_def)

lemma navigate_turns:
  assumes "flow_engine_ok E (length flow)"
  shows "flow_index E f < length flow \<Longrightarrow> displayed (flow ! flow_index E f) \<Longrightarrow>
    \<exists>g. navigate E flow bs f = Some g \<and> flow_index E g < length flow \<and> displayed (flow ! flow_index E g) \<and>
      rank flow (flow_index E g) = foldl (turn (length (shown_steps flow))) (rank flow (flow_index E f)) bs"
proof (induction bs arbitrary: f)
  case (Cons b bs)
  obtain g where g: "pressed E flow b f = Some g" "flow_index E g < length flow" "displayed (flow ! flow_index E g)"
      "rank flow (flow_index E g) = turn (length (shown_steps flow)) (rank flow (flow_index E f)) b"
    using pressed_turns [OF assms Cons.prems] by blast
  from Cons.IH [OF g(2,3)] g show ?case by auto
qed simp

text \<open>
  C13: The initialisation of optional steps comes to an end. For every flow engine that moves as the SDK
  documents, from every position and direction: the chain of hidden steps that send the engine on to a
  neighbour ends, at a step to be displayed, if and only if the flow has such a step; a flow whose steps
  are all hidden would be stepped through for ever.
\<close>

theorem optional_steps_settle:
  assumes "flow_engine_ok E (length flow)" "flow_index E f < length flow"
  shows "(\<exists>g. settle E flow f = Some g \<and> displayed (flow ! flow_index E g)) = (\<exists>s. s \<in> set flow \<and> displayed s)"
proof
  assume "\<exists>g. settle E flow f = Some g \<and> displayed (flow ! flow_index E g)"
  then obtain g where g: "settle E flow f = Some g" "displayed (flow ! flow_index E g)" by blast
  have "flow ! flow_index E g \<in> set flow" by (rule nth_mem [OF settle_index [OF g(1) assms]])
  with g(2) show "\<exists>s. s \<in> set flow \<and> displayed s" by blast
next
  assume "\<exists>s. s \<in> set flow \<and> displayed s"
  then obtain g where g: "settle E flow f = Some g" using settle_ends [OF assms] by blast
  with settle_Some_displayed [OF g] show "\<exists>g. settle E flow f = Some g \<and> displayed (flow ! flow_index E g)" by blast
qed

text \<open>An engine for the examples: the position and the direction of the last move.\<close>

definition example_engine :: "nat \<Rightarrow> (nat \<times> flow_direction) flow_engine" where
  "example_engine n = \<lparr>ux_flow_init = (\<lambda>i. (i, FLOW_DIRECTION_START)), flow_index = fst, ux_flow_direction = snd,
     ux_flow_is_first = (\<lambda>f. fst f = 0), ux_flow_is_last = (\<lambda>f. Suc (fst f) = n),
     ux_flow_next = (\<lambda>f. if Suc (fst f) = n then f else (Suc (fst f), FLOW_DIRECTION_FORWARD)),
     ux_flow_prev = (\<lambda>f. if fst f = 0 then f else (fst f - 1, FLOW_DIRECTION_BACKWARD))\<rparr>"

lemma example_engine_ok: "flow_engine_ok (example_engine n) n"
  by (simp add: flow_engine_ok_def example_engine_def)

text \<open>Backwards over the hidden switches of a short message that is displayed as a hash.\<close>

theorem optional_steps_settle_witness:
  "\<exists>g. settle (example_engine 8) (ux_message_flow (example_platform BAGL) zero_msg) (5, FLOW_DIRECTION_BACKWARD) = Some g \<and>
    displayed (ux_message_flow (example_platform BAGL) zero_msg ! fst g)"
proof -
  let ?flow = "ux_message_flow (example_platform BAGL) zero_msg"
  have n: "length ?flow = 8" by (simp add: flow_defs)
  have "ux_message_flow_intro_step \<in> set ?flow \<and> displayed ux_message_flow_intro_step" by (simp add: flow_defs)
  then show ?thesis
    using optional_steps_settle [of "example_engine 8" ?flow "(5, FLOW_DIRECTION_BACKWARD)"] example_engine_ok [of 8]
    by (auto simp: n example_engine_def)
qed

text \<open>
  C12: On BAGL devices the user walks through exactly the pages of a review, and then to the approve and
  the reject step. For reviews of addresses, transactions and messages, also when the message flow is
  started at the message after its display has been switched: after any sequence of presses of the left
  and the right button the step displayed is the one that many pages on or back in the list of the
  pages that \<open>Review\<close> computes, without the hidden ones and never beyond the ends.
\<close>

theorem review_flow_navigation:
  assumes "flow_engine_ok E (length (review_flow P r))"
    and "\<And>p. r = Review_transaction p \<Longrightarrow> \<exists>screen. ui_transaction_signing BAGL p = (Ok screen :: (sw_t, _) result)"
    and "i = 0 \<or> i = 2 \<and> (\<exists>m. r = Review_of_message m)"
  shows "\<exists>f g. settle E (review_flow P r) (ux_flow_init E i) = Some f \<and> navigate E (review_flow P r) bs f = Some g \<and>
    on_display (review_flow P r ! flow_index E g) = walk P r ! foldl (turn (length (walk P r))) i bs"
proof -
  let ?flow = "review_flow P r" and ?f = "ux_flow_init E i"
  have shown: "map on_display (shown_steps ?flow) = walk P r" by (rule shown_review_steps(1) [OF assms(2)])
  have n: "length (shown_steps ?flow) = length (walk P r)" using arg_cong [OF shown, of length] by simp
  have i: "flow_index E ?f = i" using flow_engine_init [OF assms(1)] by simp
  have first: "\<exists>s flow. ?flow = s # flow \<and> displayed s" by (rule shown_review_steps(2) [OF assms(2)])
  have at: "i < length ?flow" "displayed (?flow ! i)" "rank ?flow i = i"
    using assms(3) first by (auto simp: flow_defs rank_def)
  have settled: "settle E ?flow ?f = Some ?f" using at(2) i by (intro settle_displayed) simp
  obtain g where g: "navigate E ?flow bs ?f = Some g" "flow_index E g < length ?flow" "displayed (?flow ! flow_index E g)"
      "rank ?flow (flow_index E g) = foldl (turn (length (walk P r))) i bs"
    using navigate_turns [OF assms(1), of ?f bs] at i n by auto
  note nth = shown_steps_nth [OF g(2,3)]
  have "walk P r ! rank ?flow (flow_index E g) = on_display (shown_steps ?flow ! rank ?flow (flow_index E g))"
    using nth(1) by (simp flip: shown)
  with settled g(1,4) nth(2) show ?thesis by auto
qed

text \<open>A transfer without data and fee: two of the five steps between the first and the buttons are hidden.\<close>

definition example_transfer_parsed :: parsed_tx_t where
  "example_transfer_parsed = \<lparr>type_specific = Normal_or_staking_outgoing_tx
       \<lparr>recipient = ''NQ07 0000 0000 0000 0000 0000 0000 0000 0000'', extra_data_label = '''', extra_data = ''''\<rparr>,
     transaction_type = TRANSACTION_TYPE_NORMAL,
     transaction_label_type = TRANSACTION_LABEL_TYPE_REGULAR_TRANSACTION,
     tx_value = ''1.5 NIM'', tx_fee = ''0 NIM'', tx_network = ''Main''\<rparr>"

theorem review_flow_navigation_witness:
  "\<exists>f g. settle (example_engine 8) (transaction_flow example_transfer_parsed) (0, FLOW_DIRECTION_START) = Some f \<and>
    navigate (example_engine 8) (transaction_flow example_transfer_parsed) (replicate 4 Right_button) f = Some g \<and>
    on_display (transaction_flow example_transfer_parsed ! fst g) = (Texts [''Accept'', ''and send''], Some Approve)"
proof -
  let ?r = "Review_transaction example_transfer_parsed :: u8 list bagl_review"
  have ui: "bagl_ui_transaction_signing example_transfer_parsed = (Ok (''Transaction'',
      [(''Amount'', ''1.5 NIM''), (''Recipient'', ''NQ07 0000 0000 0000 0000 0000 0000 0000 0000''),
       (''Network'', ''Main'')]) :: (sw_t, _) result)"
    by (simp add: bagl_ui_transaction_signing_def example_transfer_parsed_def transfer_flow(1) transfer_pages_def page_defs)
  have n: "length (review_flow (example_platform BAGL) ?r) = 8"
    by (simp add: flow_defs transaction_steps_def example_transfer_parsed_def normal_or_staking_outgoing_steps_def)
  have started: "\<exists>screen. ui_transaction_signing BAGL p = (Ok screen :: (sw_t, _) result)" if "?r = Review_transaction p" for p
    using that by (auto simp: ui)
  have "flow_engine_ok (example_engine 8) (length (review_flow (example_platform BAGL) ?r))"
    unfolding n by (rule example_engine_ok)
  from review_flow_navigation [OF this started, where i = 0 and bs = "replicate 4 Right_button"] show ?thesis
    by (simp add: ui turn_def eval_nat_numeral example_engine_def)
qed

end
