(* ===== verification/Boot.thy ===== *)
theory Boot
  imports Session_Invariant
begin

text \<open>
  What surrounds the command loop in \<^verbatim>\<open>src/src/main.c\<close>: the dispatch of the events in \<^verbatim>\<open>io_event\<close> to the
  ticker, the status event and the SDK's user interface, and an iteration of the loop in \<^verbatim>\<open>main\<close> with the
  persistent storage. The lemmas show that each event is a step of a session, and that a start of the app
  initialises the storage once.
\<close>

section \<open>Events\<close>

text \<open>The tags of the events, the status with whether USB is powered, and the SDK's handlers.\<close>

datatype seproxyhal_event =
    SEPROXYHAL_TAG_BUTTON_PUSH_EVENT
  | SEPROXYHAL_TAG_STATUS_EVENT bool
  | SEPROXYHAL_TAG_DISPLAY_PROCESSED_EVENT
  | SEPROXYHAL_TAG_FINGER_EVENT
  | SEPROXYHAL_TAG_TICKER_EVENT
  | Other_tag

datatype ux_event =
    UX_BUTTON_PUSH_EVENT | UX_DISPLAYED_EVENT | UX_FINGER_EVENT | UX_TICKER_EVENT | UX_DEFAULT_EVENT

definition io_event ::
    "device \<Rightarrow> apdu_media \<Rightarrow> seproxyhal_event \<Rightarrow> 'h app_state \<Rightarrow>
     (exception, ('h app_state \<times> u8 list option) \<times> ux_event) result" where
  "io_event d media ev st =
     (let displayed = Ok ((st, None), case d of BAGL \<Rightarrow> UX_DISPLAYED_EVENT | NBGL \<Rightarrow> UX_DEFAULT_EVENT) in
      case ev of
        SEPROXYHAL_TAG_BUTTON_PUSH_EVENT \<Rightarrow> Ok ((st, None), UX_BUTTON_PUSH_EVENT)
      | SEPROXYHAL_TAG_STATUS_EVENT usb_powered \<Rightarrow>
          (case status_event media usb_powered of Some e \<Rightarrow> Err e | None \<Rightarrow> displayed)
      | SEPROXYHAL_TAG_DISPLAY_PROCESSED_EVENT \<Rightarrow> displayed
      | SEPROXYHAL_TAG_FINGER_EVENT \<Rightarrow>
          Ok ((st, None), case d of BAGL \<Rightarrow> UX_DEFAULT_EVENT | NBGL \<Rightarrow> UX_FINGER_EVENT)
      | SEPROXYHAL_TAG_TICKER_EVENT \<Rightarrow> andthen (ticker_event media st) (\<lambda>r. Ok (r, UX_TICKER_EVENT))
      | Other_tag \<Rightarrow> Ok ((st, None), UX_DEFAULT_EVENT))"

text \<open>The step of a session that an event is; what the SDK's handlers call are steps of their own.\<close>

definition session_event :: "apdu_media \<Rightarrow> seproxyhal_event \<Rightarrow> event" where
  "session_event media ev =
     (case ev of
        SEPROXYHAL_TAG_STATUS_EVENT usb_powered \<Rightarrow> Status media usb_powered
      | SEPROXYHAL_TAG_TICKER_EVENT \<Rightarrow> Tick media
      | _ \<Rightarrow> Status media True)"

lemma status_powered [simp]: "status_event media True = None"
  by (simp add: status_event_def)

lemma ticker_event_value:
  assumes "state_ok st"
  shows "ticker_event media st = Ok
    (if media = IO_APDU_MEDIA_U2F \<and> ctx_u2fTimer st > 0
     then if ctx_u2fTimer st - 100 = 0
       then (st\<lparr>ctx_u2fTimer := 0, G_io_apdu_buffer := sw_bytes SW_KEEP_ALIVE @ drop 2 (G_io_apdu_buffer st)\<rparr>,
         Some (sw_bytes SW_KEEP_ALIVE))
       else (st\<lparr>ctx_u2fTimer := ctx_u2fTimer st - 100\<rparr>, None)
     else (st, None))"
  using assms by (simp add: ticker_event_def Let_def u2f_send_keep_alive_def finalize_status apdu_buffer_ok_def
      state_ok_def IO_APDU_BUFFER_SIZE_def)

lemma io_event_steps:
  assumes "state_ok st"
  shows "case io_event d media ev st of
      Ok ((st', r), ux) \<Rightarrow> session_step P st (session_event media ev) (sent r) st'
    | Err e \<Rightarrow> session_step P st (session_event media ev) Restart (main_start st)
    | Fault f \<Rightarrow> False"
proof (cases ev)
  case SEPROXYHAL_TAG_TICKER_EVENT
  obtain x where x: "ticker_event media st = (Ok x :: (exception, _) result)" "ticker_event media st = (Ok x :: (sw_t, _) result)"
    unfolding ticker_event_value [OF assms] by blast
  obtain st' r where "x = (st', r)" by fastforce
  with x SEPROXYHAL_TAG_TICKER_EVENT show ?thesis
    by (simp add: io_event_def session_event_def session_step.tick)
next
  case (SEPROXYHAL_TAG_STATUS_EVENT usb_powered)
  then show ?thesis
    using session_step.status [of media usb_powered P st] session_step.unplugged [of media usb_powered _ st _ P]
    by (auto simp: io_event_def session_event_def sent_def status_event_def main_catch_def)
qed (use session_step.status [of media True P st] in \<open>simp_all add: io_event_def session_event_def sent_def\<close>)

section \<open>Starts of the app\<close>

record internal_storage_t =
  fidoTransport :: u8
  initialized :: u8

definition initialize_storage :: "internal_storage_t \<Rightarrow> internal_storage_t" where
  "initialize_storage s = (if initialized s \<noteq> 1 then \<lparr>fidoTransport = 1, initialized = 1\<rparr> else s)"

text \<open>An iteration of the loop in \<^verbatim>\<open>main\<close> up to the command loop.\<close>

definition main_iteration :: "internal_storage_t \<times> 'h app_state \<Rightarrow> internal_storage_t \<times> 'h app_state" where
  "main_iteration = (\<lambda>(storage, st). (initialize_storage storage, main_start st))"

lemma storage_written_once:
  "initialized (fst (main_iteration (storage, st))) = 1"
  "fst (main_iteration (main_iteration (storage, st))) = fst (main_iteration (storage, st))"
  by (simp_all add: main_iteration_def initialize_storage_def)

lemma started_reachable:
  "length (G_io_apdu_buffer st) = IO_APDU_BUFFER_SIZE \<Longrightarrow> reachable P (snd (main_iteration (storage, st)))"
  by (simp add: main_iteration_def reachable.start)

end
