(* ===== verification/Spec2Isabelle.thy ===== *)
theory Spec2Isabelle
  imports Acceptance Navigation Boot
begin

text \<open>
  A model of the Nimiq app for Ledger devices (\<^verbatim>\<open>src/src\<close>) and what has been proved of it.

  \<^bold>\<open>The program.\<close> The app keeps one global context, \<^verbatim>\<open>ctx\<close> of \<^verbatim>\<open>globals.h\<close>: a union of the contexts of
  a public key, a transaction and a message request, and a timer. The command loop of \<^verbatim>\<open>main.c\<close>
  receives a command in \<^verbatim>\<open>G_io_apdu_buffer\<close>, calls its handler, and replies with data and a status word,
  or starts a review on the screen and leaves the reply to the button the user presses. A transaction or
  a message arrives in chunks. A transaction is parsed by \<^verbatim>\<open>nimiq_utils.c\<close>, \<^verbatim>\<open>nimiq_staking_utils.c\<close> and
  \<^verbatim>\<open>signature_proof.c\<close> into the texts to be displayed, and \<^verbatim>\<open>nimiq_ux_bagl.c\<close> or \<^verbatim>\<open>nimiq_ux_nbgl.c\<close>
  chooses the pages of the review with the conditions of \<^verbatim>\<open>nimiq_ux_utils_transaction_signing.c\<close>.

  \<^bold>\<open>Conventions.\<close> Functions that can fail return a \<open>result\<close>: \<open>Ok\<close>, \<open>Err\<close> with the error code or the status
  word, or \<open>Fault\<close> for an assertion of the source that fails and for what C leaves undefined: an access
  outside of an array, through a null pointer or to an inactive member of a union. Machine integers are
  words of their width, so that arithmetic wraps as in C. A pointer into a buffer is an offset, or none
  for the null pointer; with the number of bytes left it is a \<open>cursor\<close>. Character arrays are lists with
  their terminator where the code writes to them by index, and strings where it copies whole texts.

  \<^bold>\<open>One read outside an array.\<close> For every address it prints, \<^verbatim>\<open>iban_check\<close> (\<^verbatim>\<open>nimiq_utils.c\<close>, line 78) reads one
  byte behind \<^verbatim>\<open>total_number\<close>. \<open>iban_check_mem\<close> has the byte as a parameter, and \<open>iban_check_is_remainder\<close>
  shows that without it every call is a fault and that with it the result does not depend on it. As an
  exception to the convention, the rest of the development takes this byte to be readable
  (\<open>iban_check\<close>): every statement that something does not fault is meant with this one exception, which
  \<open>parse_tx_is_memory_safe\<close> and \<open>public_key_request_fault\<close> spell out.

  \<^bold>\<open>Theories, from the bottom.\<close>
  \<^item> \<open>Prelude\<close>: results, their automation (\<open>delivers\<close> for what a result is without a fault), lists and words. \<open>Simulation\<close>: runs of step relations and the locale of a
    simulation.
  \<^item> \<open>Constants\<close>: \<^verbatim>\<open>constants.h\<close>, the errors and status words of \<^verbatim>\<open>error_macros.h\<close>.
  \<^item> \<open>Buffer\<close>: the \<^verbatim>\<open>read_...\<close> functions of \<^verbatim>\<open>nimiq_utils.c\<close>. A locale states what every reader promises
    (it returns the decoded front of the input and stays in the buffer, or fails).
  \<^item> \<open>Printing\<close>, \<open>Base32\<close>, \<open>Address\<close>: \<^verbatim>\<open>parse_amount\<close>, \<^verbatim>\<open>print_hex\<close>, \<^verbatim>\<open>base32.c\<close>, \<^verbatim>\<open>iban_check\<close>, \<^verbatim>\<open>print_address\<close>.
  \<^item> \<open>Signature_Proof\<close>, \<open>Staking\<close>, \<open>Contracts\<close>, \<open>Tx_Parser\<close>: \<^verbatim>\<open>signature_proof.c\<close>,
    \<^verbatim>\<open>nimiq_staking_utils.c\<close>, and the parsers of contract data and of whole transactions in \<^verbatim>\<open>nimiq_utils.c\<close>.
  \<^item> \<open>Transactions\<close>: the transactions of the Nimiq protocol as data, their serialization, and what should be
    displayed, with tables of the networks and hash algorithms and the vesting schedule in natural
    numbers instead of the code's functions; \<^verbatim>\<open>parse_tx\<close> computes exactly that, accepts nothing else and
    is memory safe up to the byte named above. \<open>Error_Codes\<close>:
    which errors a function \<open>reports\<close>; each has a status word.
  \<^item> \<open>Review\<close>: the pages of both user interfaces. What they show determines what is signed, up to details
    that the theorems name.
  \<^item> \<open>Platform\<close>: \<^verbatim>\<open>globals.h\<close>, the state of the app, and the SDK (key derivation, signatures, hashes, sizes of
    its structures) as the parameter \<open>platform\<close> with the laws \<open>platform_ok\<close> and \<open>incremental_hash\<close>.
    \<open>example_platform\<close> satisfies them and serves the concrete examples.
  \<^item> \<open>Public_Keys\<close>, \<open>Transaction_Signing\<close>, \<open>Message_Signing\<close>: \<^verbatim>\<open>handle_get_public_key\<close>, \<^verbatim>\<open>handle_sign_transaction\<close>
    and \<^verbatim>\<open>handle_sign_message\<close> of \<^verbatim>\<open>main.c\<close> with the reviews they start
    (\<^verbatim>\<open>nimiq_ux_utils_message_signing.c\<close>, the message flow): what a sequence of chunks leaves in the context,
    and when a request faults.
  \<^item> \<open>Staker_Proof\<close>, \<open>Approval\<close>: the callbacks of the buttons. \<^verbatim>\<open>on_transaction_approved\<close> overwrites an empty
    staker proof in the middle of the bytes through pointers the parser has left; \<open>Staker_Proof\<close> shows
    that they point to the end of the transaction's data, \<open>Approval\<close> what is therefore signed.
  \<^item> \<open>Session\<close>: \<^verbatim>\<open>handle_apdu\<close>, an iteration of the loop of \<^verbatim>\<open>nimiq_main\<close>, the ticker, the
    exceptions that \<^verbatim>\<open>main\<close> catches and the state it restarts with, and the relation \<open>session_step\<close> on
    commands, ticks, buttons, pages, status events and exceptions. \<open>Session_Invariant\<close>: the contract
    \<open>request_handler\<close> that all handlers satisfy and the command loop relies on, and what every step keeps.
    \<open>Session_Properties\<close>: what holds for any client. \<open>Protocol\<close>: an abstract machine of jobs that states
    what the app promises, and the proof that the session simulates it for a client that waits.
  \<^item> \<open>Acceptance\<close>: the converse for uploads. The locale \<open>chunked_upload\<close> states what the handlers of
    transactions and of messages do with a chunk that fits, and whole uploads follow from it.
  \<^item> \<open>Navigation\<close>: the flows of BAGL devices with all their steps, the optional steps of
    \<^verbatim>\<open>nimiq_ux_bagl_macros.h\<close>, and the navigation in them over the flow engine of the SDK, the parameter
    \<open>flow_engine\<close> with the laws \<open>flow_engine_ok\<close>.
  \<^item> \<open>Boot\<close>: the dispatch of \<^verbatim>\<open>io_event\<close>, whose events are steps of a session, and an iteration of the loop
    in \<^verbatim>\<open>main\<close> with the initialisation of \<^verbatim>\<open>N_storage\<close>.

  \<^bold>\<open>The main results.\<close> \<open>session_keeps_promise\<close> and \<open>approved_is_uploaded_and_shown\<close>: for a client that sends
  nothing but keep alive commands during a review and continues only its own uploads, an approval
  signs exactly the bytes uploaded, and the screen displays their meaning.
  \<open>transaction_upload_completes\<close> and \<open>message_upload_completes\<close>: conversely, what can be displayed is
  accepted in chunks of any size, reviewed and signed on approval. \<open>review_flow_navigation\<close>: the buttons lead
  through exactly the pages of a review. Together with the theorems
  of \<open>Review\<close> the user signs what is seen. \<open>unapproved_reply\<close>: no client obtains another signature without
  the button, except of marked test messages. \<open>impatient_client_gets_unseen_signed\<close>: the condition
  on the client is needed; a client that sends another chunk after the keep alive message of a review
  gets bytes signed that were not displayed. \<open>command_fault\<close>, \<open>patient_command_answered\<close>, \<open>review_always_ends\<close>: what ends the app
  and what is always answered.

  \<^bold>\<open>Loops.\<close> All loops of the source are bounded by the data they run over and are structural recursions
  here, recursions on a counter with the bound of the source, or (\<^verbatim>\<open>base32_encode\<close>, \<^verbatim>\<open>parse_amount\<close>)
  functions with a measure that decreases; no fuel is involved. Only the
  chain of moves over hidden steps of a flow may not end: it is a partial function \<open>settle\<close>, and
  \<open>optional_steps_settle\<close> says when it does.

  \<^bold>\<open>Not modelled.\<close> The SDK behind the parameter; the transport (\<^verbatim>\<open>io_exchange_al\<close>) and
  the calls of the SDK in \<^verbatim>\<open>main\<close>; menus, icons and the navigation of NBGL
  devices; debug output. \<open>on_screen\<close> is what the review was started with; the devices read the texts from
  the context when a page is drawn, so that after a command during a review later pages may differ
  from it. Commands during a review are taken to be possible at any time on every transport, which
  over-approximates the SDK: sound for what holds of all runs. The one statement that a run exists in
  which a command changes a review (\<open>impatient_client_gets_unseen_signed\<close>) therefore begins with the
  keep alive message, the app's own reply over U2F, to which that command is the next one. What a failing SDK function or handler has written before its error is not kept, as the
  context is wiped then. An array is compared and copied as a whole: padding and the bytes of the
  union that a member does not cover are visible only through the parameters \<open>pk_layout\<close> to
  \<open>confirm_layout\<close>, which stand for reading a member that was not written last.
\<close>

end
